(* ===== verification/Prelude.thy ===== *)
theory Prelude
  imports Main "HOL-Library.Word" "HOL-Library.AList"
    "HOL-Library.Code_Target_Numeral"
begin

text \<open>
  What the components share: the result type of fallible Rust code and its combinators, Rust's
  \<^verbatim>\<open>str\<close> as UTF-8 bytes with the few operations of the standard library the sources call,
  unsigned machine integers, durations and instants, and the generic lemmas about them.

  A Rust \<^verbatim>\<open>String\<close> is a \<^typ>\<open>string\<close> whose characters are its UTF-8 \<^emph>\<open>bytes\<close>, so that
  \<^verbatim>\<open>len()\<close> is \<^const>\<open>length\<close>; \<^verbatim>\<open>chars()\<close> decodes it. A \<^verbatim>\<open>Duration\<close> is its number of
  nanoseconds; an \<^verbatim>\<open>OffsetDateTime\<close> or \<^verbatim>\<open>Instant\<close> is a number of nanoseconds since an epoch.
\<close>

named_theorems result_simps "and_then, map_err and the result constructors"
named_theorems str_simps "evaluation of byte-string operations"

section \<open>Results\<close>

type_synonym ('a, 'e) result = "'e + 'a"

abbreviation Ok :: "'a \<Rightarrow> ('a, 'e) result" where
  "Ok \<equiv> Inr"

abbreviation Err :: "'e \<Rightarrow> ('a, 'e) result" where
  "Err \<equiv> Inl"

text \<open>The \<^verbatim>\<open>?\<close> operator: stop at the first error.\<close>

definition and_then :: "('a, 'e) result \<Rightarrow> ('a \<Rightarrow> ('b, 'e) result) \<Rightarrow> ('b, 'e) result" where
  "and_then r f = (case r of Inl e \<Rightarrow> Err e | Inr x \<Rightarrow> f x)"

definition map_err :: "('e \<Rightarrow> 'f) \<Rightarrow> ('a, 'e) result \<Rightarrow> ('a, 'f) result" where
  "map_err f r = (case r of Inl e \<Rightarrow> Err (f e) | Inr x \<Rightarrow> Ok x)"

definition ok_or :: "'e \<Rightarrow> 'a option \<Rightarrow> ('a, 'e) result" where
  "ok_or e m = (case m of None \<Rightarrow> Err e | Some x \<Rightarrow> Ok x)"

text \<open>\<^verbatim>\<open>opt.map(f).transpose()\<close>: an absent value is fine, a present one must convert.\<close>

definition transpose_map :: "('a \<Rightarrow> ('b, 'e) result) \<Rightarrow> 'a option \<Rightarrow> ('b option, 'e) result" where
  "transpose_map f m =
     (case m of None \<Rightarrow> Ok None
      | Some x \<Rightarrow> (case f x of Inl e \<Rightarrow> Err e | Inr y \<Rightarrow> Ok (Some y)))"

definition is_ok :: "('a, 'e) result \<Rightarrow> bool" where
  "is_ok r = (case r of Inl _ \<Rightarrow> False | Inr _ \<Rightarrow> True)"

lemma and_then_Ok [simp, result_simps]: "and_then (Ok x) f = f x"
  by (simp add: and_then_def)

lemma and_then_Err [simp, result_simps]: "and_then (Err e) f = Err e"
  by (simp add: and_then_def)

lemma and_then_eq_Ok_iff: "and_then r f = Ok y \<longleftrightarrow> (\<exists>x. r = Ok x \<and> f x = Ok y)"
  by (cases r) simp_all

lemma and_then_eq_Err_iff:
  "and_then r f = Err e \<longleftrightarrow> r = Err e \<or> (\<exists>x. r = Ok x \<and> f x = Err e)"
  by (cases r) auto

lemma and_then_assoc: "and_then (and_then r f) g = and_then r (\<lambda>x. and_then (f x) g)"
  by (cases r) simp_all

lemma map_err_Ok [simp, result_simps]: "map_err f (Ok x) = Ok x"
  by (simp add: map_err_def)

lemma map_err_Err [simp, result_simps]: "map_err f (Err e) = Err (f e)"
  by (simp add: map_err_def)

lemma map_err_eq_Ok_iff [simp]: "map_err f r = Ok x \<longleftrightarrow> r = Ok x"
  by (cases r) simp_all

lemma ok_or_simps [simp, result_simps]: "ok_or e None = Err e" "ok_or e (Some x) = Ok x"
  by (simp_all add: ok_or_def)

lemma ok_or_eq_Ok_iff [simp]: "ok_or e m = Ok x \<longleftrightarrow> m = Some x"
  by (cases m) simp_all

lemma transpose_map_None [simp, result_simps]: "transpose_map f None = Ok None"
  by (simp add: transpose_map_def)

lemma transpose_map_Some [simp, result_simps]:
  "transpose_map f (Some x) = and_then (f x) (\<lambda>y. Ok (Some y))"
  by (simp add: transpose_map_def and_then_def)

lemma is_ok_simps [simp]: "is_ok (Ok x)" "\<not> is_ok (Err e)"
  by (simp_all add: is_ok_def)

lemma is_ok_iff: "is_ok r \<longleftrightarrow> (\<exists>x. r = Ok x)"
  by (cases r) simp_all

section \<open>Machine integers, durations, instants\<close>

type_synonym u16 = "16 word"
type_synonym u32 = "32 word"
type_synonym duration = nat
type_synonym instant = int

text \<open>\<^verbatim>\<open>saturating_add\<close> on an unsigned word.\<close>

lemma unat_minus_one_word_eq: "unat (- 1 :: 'a::len word) = 2 ^ LENGTH('a) - 1"
  by (simp add: unsigned_minus_1_eq_mask mask_eq_exp_minus_1)

definition saturating_add :: "'a::len word \<Rightarrow> 'a word \<Rightarrow> 'a word" where
  "saturating_add a b = (if unat a + unat b < 2 ^ LENGTH('a) then a + b else - 1)"

lemma unat_saturating_add:
  "unat (saturating_add a b) = min (unat a + unat b) (2 ^ LENGTH('a) - 1)"
  for a b :: "'a::len word"
  by (auto simp: saturating_add_def unat_word_ariths min_def unat_minus_one_word_eq)

text \<open>The largest \<^verbatim>\<open>Duration\<close>: \<^verbatim>\<open>u64::MAX\<close> seconds and 999999999 nanoseconds.\<close>

definition nanos_per_sec :: nat where
  "nanos_per_sec = 1000000000"

definition duration_max :: duration where
  "duration_max = 2 ^ 64 * nanos_per_sec - 1"

definition from_secs :: "nat \<Rightarrow> duration" where
  "from_secs s = s * nanos_per_sec"

definition from_millis :: "nat \<Rightarrow> duration" where
  "from_millis ms = ms * 1000000"

definition as_millis :: "duration \<Rightarrow> nat" where
  "as_millis d = d div 1000000"

text \<open>\<^verbatim>\<open>Duration::saturating_mul\<close>.\<close>

definition duration_saturating_mul :: "duration \<Rightarrow> nat \<Rightarrow> duration" where
  "duration_saturating_mul d k = min (d * k) duration_max"

lemma duration_saturating_mul_mono:
  "d \<le> d' \<Longrightarrow> k \<le> k' \<Longrightarrow> duration_saturating_mul d k \<le> duration_saturating_mul d' k'"
  unfolding duration_saturating_mul_def by (intro min.mono mult_le_mono) simp_all

lemma as_millis_from_millis [simp]: "as_millis (from_millis ms) = ms"
  by (simp add: as_millis_def from_millis_def)

section \<open>Strings\<close>

definition byte :: "char \<Rightarrow> nat" where
  "byte c = of_char c"

lemma byte_less_256: "byte c < 256"
  by (simp add: byte_def)

lemma byte_eq_iff: "byte a = byte b \<longleftrightarrow> a = b"
  by (simp add: byte_def)

text \<open>How many bytes the character that starts with this byte takes in UTF-8.\<close>

definition utf8_width :: "char \<Rightarrow> nat" where
  "utf8_width c =
     (let b = byte c in if b < 128 then 1 else if b < 224 then 2 else if b < 240 then 3 else 4)"

lemma utf8_width_bounds: "0 < utf8_width c" "utf8_width c \<le> 4"
  by (simp_all add: utf8_width_def Let_def)

text \<open>A string cut into the byte groups of its characters.\<close>

fun char_slices :: "string \<Rightarrow> string list" where
  "char_slices [] = []"
| "char_slices (c # cs) =
     (c # take (utf8_width c - 1) cs) # char_slices (drop (utf8_width c - 1) cs)"

text \<open>The code point of one character.\<close>

fun code_point :: "string \<Rightarrow> nat" where
  "code_point [a] = byte a"
| "code_point [a, b] = (byte a mod 32) * 64 + byte b mod 64"
| "code_point [a, b, c] = (byte a mod 16) * 4096 + (byte b mod 64) * 64 + byte c mod 64"
| "code_point [a, b, c, d] =
     (byte a mod 8) * 262144 + (byte b mod 64) * 4096 + (byte c mod 64) * 64 + byte d mod 64"
| "code_point _ = 0"

definition chars :: "string \<Rightarrow> nat list" where
  "chars s = map code_point (char_slices s)"

text \<open>\<^verbatim>\<open>char::is_control\<close>: Unicode category Cc.\<close>

definition is_control :: "nat \<Rightarrow> bool" where
  "is_control n \<longleftrightarrow> n < 32 \<or> 127 \<le> n \<and> n \<le> 159"

text \<open>\<^verbatim>\<open>char::is_whitespace\<close>: the Unicode property White_Space.\<close>

definition is_whitespace :: "nat \<Rightarrow> bool" where
  "is_whitespace n \<longleftrightarrow> 9 \<le> n \<and> n \<le> 13 \<or> n = 32 \<or> n = 133 \<or> n = 160 \<or> n = 5760
     \<or> 8192 \<le> n \<and> n \<le> 8202 \<or> n = 8232 \<or> n = 8233 \<or> n = 8239 \<or> n = 8287 \<or> n = 12288"

definition trim :: "string \<Rightarrow> string" where
  "trim s =
     (let ws = \<lambda>g. is_whitespace (code_point g)
      in concat (rev (dropWhile ws (rev (dropWhile ws (char_slices s))))))"

text \<open>Well-formed UTF-8 (Unicode, table 3-7): every Rust string satisfies it.\<close>

definition cont_byte :: "char \<Rightarrow> bool" where
  "cont_byte c \<longleftrightarrow> 128 \<le> byte c \<and> byte c < 192"

definition byte_in :: "nat \<Rightarrow> nat \<Rightarrow> char \<Rightarrow> bool" where
  "byte_in lo hi c \<longleftrightarrow> lo \<le> byte c \<and> byte c \<le> hi"

fun utf8_char :: "string \<Rightarrow> bool" where
  "utf8_char [a] = (byte a < 128)"
| "utf8_char [a, b] = (byte_in 194 223 a \<and> cont_byte b)"
| "utf8_char [a, b, c] =
     ((byte a = 224 \<and> byte_in 160 191 b \<or> byte a = 237 \<and> byte_in 128 159 b
       \<or> (byte_in 225 236 a \<or> byte_in 238 239 a) \<and> cont_byte b) \<and> cont_byte c)"
| "utf8_char [a, b, c, d] =
     ((byte a = 240 \<and> byte_in 144 191 b \<or> byte_in 241 243 a \<and> cont_byte b
       \<or> byte a = 244 \<and> byte_in 128 143 b) \<and> cont_byte c \<and> cont_byte d)"
| "utf8_char _ = False"

definition utf8 :: "string \<Rightarrow> bool" where
  "utf8 s = list_all utf8_char (char_slices s)"

definition is_char_boundary :: "string \<Rightarrow> nat \<Rightarrow> bool" where
  "is_char_boundary s i \<longleftrightarrow>
     i = 0 \<or> i = length s \<or> i < length s \<and> \<not> cont_byte (s ! i)"

lemma concat_char_slices [simp]: "concat (char_slices s) = s"
  by (induction s rule: char_slices.induct) simp_all

lemma utf8_Nil [simp]: "utf8 []"
  by (simp add: utf8_def)

lemma utf8_char_width:
  assumes "utf8_char (c # take (utf8_width c - 1) cs)"
  shows "utf8_width c \<le> Suc (length cs)" "\<not> cont_byte c"
    "\<And>i. i < utf8_width c - 1 \<Longrightarrow> cont_byte (cs ! i)"
proof -
  have w: "utf8_width c = 1 \<or> utf8_width c = 2 \<or> utf8_width c = 3 \<or> utf8_width c = 4"
    by (simp add: utf8_width_def Let_def)
  have all: "utf8_width c \<le> Suc (length cs) \<and> \<not> cont_byte c
    \<and> (\<forall>i. i < utf8_width c - 1 \<longrightarrow> cont_byte (cs ! i))"
    using w assms
    by (cases cs; cases "tl cs"; cases "tl (tl cs)")
      (auto simp: utf8_width_def Let_def cont_byte_def byte_in_def nth_Cons less_Suc_eq
        split: if_splits nat.splits)
  then show "utf8_width c \<le> Suc (length cs)" "\<not> cont_byte c"
    "\<And>i. i < utf8_width c - 1 \<Longrightarrow> cont_byte (cs ! i)"
    by blast+
qed

text \<open>Cutting well-formed UTF-8 at a character boundary leaves well-formed UTF-8.\<close>

lemma utf8_take_boundary: "utf8 s \<Longrightarrow> is_char_boundary s i \<Longrightarrow> utf8 (take i s)"
proof (induction s arbitrary: i rule: char_slices.induct)
  case 1
  then show ?case by simp
next
  case (2 c cs)
  let ?w = "utf8_width c - 1"
  let ?rest = "drop ?w cs"
  from "2.prems"(1) have slice: "utf8_char (c # take ?w cs)" and rest: "utf8 ?rest"
    by (simp_all add: utf8_def)
  note wd = utf8_char_width [OF slice]
  show ?case
  proof (cases "i = 0 \<or> i \<ge> Suc (length cs)")
    case True
    with "2.prems" show ?thesis by (auto simp: take_Cons split: nat.splits)
  next
    case False
    with "2.prems"(2) have ib: "0 < i" "i < Suc (length cs)" "\<not> cont_byte ((c # cs) ! i)"
      by (auto simp: is_char_boundary_def)
    have iw: "Suc ?w \<le> i"
    proof (rule ccontr)
      assume "\<not> Suc ?w \<le> i"
      with ib(1) have "i - 1 < ?w" by linarith
      with wd(3) ib(1,3) show False by (simp add: nth_Cons')
    qed
    define j where "j = i - Suc ?w"
    have i_eq: "i = Suc (?w + j)" using iw by (simp add: j_def)
    have j: "j < length ?rest" using ib(2) i_eq by simp
    have "\<not> cont_byte (?rest ! j)" using ib(2,3) i_eq by (simp add: add.commute)
    with j have "is_char_boundary ?rest j" by (simp add: is_char_boundary_def)
    from "2.IH" [OF rest this] have IH: "utf8 (take j ?rest)" .
    have "take i (c # cs) = c # take ?w cs @ take j ?rest"
      by (simp add: i_eq take_add)
    moreover have "?w \<le> length cs" using wd(1) by simp
    ultimately show ?thesis using slice IH by (simp add: utf8_def)
  qed
qed

text \<open>Three bytes back from any position there is a boundary.\<close>

lemma utf8_starts_char:
  assumes "utf8 s" "s \<noteq> []"
  shows "\<not> cont_byte (s ! 0)"
proof -
  from assms(2) obtain d ds where s: "s = d # ds" by (cases s) auto
  with assms(1) have "utf8_char (d # take (utf8_width d - 1) ds)" by (simp add: utf8_def)
  from utf8_char_width(2) [OF this] s show ?thesis by simp
qed

text \<open>A boundary of the text after its first character is one of the whole text.\<close>

lemma boundary_after_char:
  assumes "utf8 (drop w cs)" "w \<le> length cs" "is_char_boundary (drop w cs) j"
  shows "is_char_boundary (c # cs) (Suc (w + j))"
proof (cases "j < length (drop w cs)")
  case True
  show ?thesis
  proof (cases "j = 0")
    case True
    have "drop w cs \<noteq> []" using \<open>j < length (drop w cs)\<close> by auto
    from utf8_starts_char [OF assms(1) this] True \<open>j < length (drop w cs)\<close> show ?thesis by (simp add: is_char_boundary_def)
  next
    case False
    with True assms(3) show ?thesis by (auto simp: is_char_boundary_def)
  qed
next
  case False
  with assms(3) have "j = length (drop w cs) \<or> j = 0" by (auto simp: is_char_boundary_def)
  with False assms(2) show ?thesis by (auto simp: is_char_boundary_def)
qed

lemma boundary_within_3:
  "utf8 s \<Longrightarrow> i \<le> length s \<Longrightarrow> \<exists>j \<le> i. i \<le> j + 3 \<and> is_char_boundary s j"
proof (induction s arbitrary: i rule: char_slices.induct)
  case 1
  then show ?case by (simp add: is_char_boundary_def)
next
  case (2 c cs)
  let ?w = "utf8_width c - 1"
  let ?rest = "drop ?w cs"
  from "2.prems"(1) have slice: "utf8_char (c # take ?w cs)" and rest: "utf8 ?rest"
    by (simp_all add: utf8_def)
  show ?case
  proof (cases "i \<le> ?w")
    case True
    then have "i \<le> 0 + 3" using utf8_width_bounds(2) [of c] by linarith
    then show ?thesis by (intro exI [of _ 0]) (simp add: is_char_boundary_def)
  next
    case False
    define k where "k = i - Suc ?w"
    have i_eq: "i = Suc (?w + k)" using False by (simp add: k_def)
    have "k \<le> length ?rest" using "2.prems"(2) i_eq by simp
    from "2.IH" [OF rest this] obtain j where
      j: "j \<le> k" "k \<le> j + 3" "is_char_boundary ?rest j" by blast
    have "?w \<le> length cs" using utf8_char_width(1) [OF slice] by simp
    from boundary_after_char [OF rest this j(3)] j i_eq show ?thesis by (intro exI [of _ "Suc (?w + j)"]) simp
  qed
qed

lemma utf8_append: "utf8 a \<Longrightarrow> utf8 b \<Longrightarrow> utf8 (a @ b)"
proof (induction a rule: char_slices.induct)
  case (2 c cs)
  from "2.prems"(1) have "utf8_char (c # take (utf8_width c - 1) cs)"
    and rest: "utf8 (drop (utf8_width c - 1) cs)"
    by (simp_all add: utf8_def)
  with utf8_char_width(1) [OF this(1)] "2.IH" [OF rest "2.prems"(2)] show ?case
    by (simp add: utf8_def)
qed simp

subsection \<open>ASCII case, searching and splitting\<close>

definition to_ascii_lower :: "char \<Rightarrow> char" where
  "to_ascii_lower c = (if 65 \<le> byte c \<and> byte c \<le> 90 then char_of (byte c + 32) else c)"

definition to_ascii_lowercase :: "string \<Rightarrow> string" where
  "to_ascii_lowercase s = map to_ascii_lower s"

definition eq_ignore_ascii_case :: "string \<Rightarrow> string \<Rightarrow> bool" where
  "eq_ignore_ascii_case a b \<longleftrightarrow> to_ascii_lowercase a = to_ascii_lowercase b"

text \<open>A prefix compared ignoring ASCII case.\<close>

definition starts_with_ci :: "string \<Rightarrow> string \<Rightarrow> bool" where
  "starts_with_ci s prefix \<longleftrightarrow>
     length prefix \<le> length s \<and> eq_ignore_ascii_case (take (length prefix) s) prefix"

lemma eq_ignore_ascii_case_refl [simp]: "eq_ignore_ascii_case a a"
  by (simp add: eq_ignore_ascii_case_def)

lemma eq_ignore_ascii_case_sym: "eq_ignore_ascii_case a b \<longleftrightarrow> eq_ignore_ascii_case b a"
  by (auto simp: eq_ignore_ascii_case_def)

lemma eq_ignore_ascii_case_trans:
  "eq_ignore_ascii_case a b \<Longrightarrow> eq_ignore_ascii_case b c \<Longrightarrow> eq_ignore_ascii_case a c"
  by (simp add: eq_ignore_ascii_case_def)

lemma to_ascii_lowercase_append:
  "to_ascii_lowercase (a @ b) = to_ascii_lowercase a @ to_ascii_lowercase b"
  by (simp add: to_ascii_lowercase_def)

lemma starts_with_ci_iff:
  "starts_with_ci s p \<longleftrightarrow> (\<exists>t. to_ascii_lowercase s = to_ascii_lowercase p @ t)"
proof
  assume "starts_with_ci s p"
  then have "to_ascii_lowercase (take (length p) s) = to_ascii_lowercase p"
    by (simp add: starts_with_ci_def eq_ignore_ascii_case_def)
  then show "\<exists>t. to_ascii_lowercase s = to_ascii_lowercase p @ t"
    by (metis append_take_drop_id to_ascii_lowercase_append)
next
  assume "\<exists>t. to_ascii_lowercase s = to_ascii_lowercase p @ t"
  then obtain t where t: "map to_ascii_lower s = map to_ascii_lower p @ t"
    by (auto simp: to_ascii_lowercase_def)
  then have "length s = length p + length t"
    by (metis length_append length_map)
  moreover have "map to_ascii_lower (take (length p) s) = map to_ascii_lower p"
    by (metis t append_eq_conv_conj length_map take_map)
  ultimately show "starts_with_ci s p"
    by (simp add: starts_with_ci_def eq_ignore_ascii_case_def to_ascii_lowercase_def)
qed

fun split_once :: "char \<Rightarrow> string \<Rightarrow> (string \<times> string) option" where
  "split_once d [] = None"
| "split_once d (c # cs) =
     (if c = d then Some ([], cs) else map_option (\<lambda>(a, b). (c # a, b)) (split_once d cs))"

lemma split_once_Some: "split_once d s = Some (a, b) \<Longrightarrow> s = a @ d # b \<and> d \<notin> set a"
  by (induction s arbitrary: a) (auto split: if_splits)

lemma split_once_None: "split_once d s = None \<longleftrightarrow> d \<notin> set s"
  by (induction s) auto

fun split_on :: "char \<Rightarrow> string \<Rightarrow> string list" where
  "split_on d [] = [[]]"
| "split_on d (c # cs) =
     (if c = d then [] # split_on d cs
      else (case split_on d cs of [] \<Rightarrow> [[c]] | t # ts \<Rightarrow> (c # t) # ts))"

lemma split_on_not_Nil [simp]: "split_on d s \<noteq> []"
  by (induction s) (auto split: list.splits)

text \<open>\<^verbatim>\<open>rsplit_once(pat)\<close> for a non-empty pattern: the rightmost occurrence.\<close>

fun rsplit_once :: "string \<Rightarrow> string \<Rightarrow> (string \<times> string) option" where
  "rsplit_once pat [] = None"
| "rsplit_once pat (c # cs) =
     (case rsplit_once pat cs of
        Some (a, b) \<Rightarrow> Some (c # a, b)
      | None \<Rightarrow> if take (length pat) (c # cs) = pat then Some ([], drop (length pat) (c # cs))
          else None)"

lemma rsplit_once_Some: "rsplit_once pat s = Some (a, b) \<Longrightarrow> s = a @ pat @ b"
  by (induction s arbitrary: a b) (auto split: option.splits if_splits, metis append_take_drop_id)

subsection \<open>Decimal numbers\<close>

definition is_ascii_digit :: "char \<Rightarrow> bool" where
  "is_ascii_digit c \<longleftrightarrow> 48 \<le> byte c \<and> byte c \<le> 57"

definition digit_char :: "nat \<Rightarrow> char" where
  "digit_char d = char_of (48 + d)"

fun show_nat :: "nat \<Rightarrow> string" where
  "show_nat n = (if n < 10 then [digit_char n] else show_nat (n div 10) @ [digit_char (n mod 10)])"

declare show_nat.simps [simp del]

definition digits_value :: "string \<Rightarrow> nat" where
  "digits_value ds = foldl (\<lambda>v c. v * 10 + (byte c - 48)) 0 ds"

text \<open>\<^verbatim>\<open>str::parse\<close> into an unsigned integer whose maximum is \<^term>\<open>m\<close>: an optional plus sign,
  then at least one digit, and no overflow.\<close>

definition parse_uint :: "nat \<Rightarrow> string \<Rightarrow> nat option" where
  "parse_uint m s =
     (let ds = (case s of c # cs \<Rightarrow> (if byte c = 43 then cs else s) | [] \<Rightarrow> s)
      in if ds = [] \<or> \<not> list_all is_ascii_digit ds then None
         else if digits_value ds \<le> m then Some (digits_value ds) else None)"

lemma byte_digit_char: "d < 10 \<Longrightarrow> byte (digit_char d) = 48 + d"
  by (simp add: digit_char_def byte_def)

lemma digits_value_snoc: "digits_value (ds @ [c]) = digits_value ds * 10 + (byte c - 48)"
  by (simp add: digits_value_def)

lemma show_nat_digits: "show_nat n \<noteq> [] \<and> list_all is_ascii_digit (show_nat n)"
proof (induction n rule: show_nat.induct)
  case (1 n)
  then show ?case
    by (cases "n < 10") (simp_all add: show_nat.simps [of n] is_ascii_digit_def byte_digit_char)
qed

lemma digits_value_show_nat: "digits_value (show_nat n) = n"
proof (induction n rule: show_nat.induct)
  case (1 n)
  show ?case
  proof (cases "n < 10")
    case True
    then show ?thesis
      by (subst show_nat.simps) (simp add: digits_value_def byte_digit_char)
  next
    case False
    with "1.IH" have "digits_value (show_nat (n div 10)) = n div 10" by simp
    with False show ?thesis
      by (subst show_nat.simps) (simp add: digits_value_snoc byte_digit_char)
  qed
qed

lemma parse_uint_show_nat: "n \<le> m \<Longrightarrow> parse_uint m (show_nat n) = Some n"
proof -
  assume n: "n \<le> m"
  obtain c cs where s: "show_nat n = c # cs" using show_nat_digits [of n] by (cases "show_nat n") auto
  with show_nat_digits [of n] have "byte c \<noteq> 43" by (auto simp: is_ascii_digit_def)
  with n s show_nat_digits [of n] digits_value_show_nat [of n] show ?thesis
    by (simp add: parse_uint_def)
qed

lemma parse_uint_le: "parse_uint m s = Some n \<Longrightarrow> n \<le> m"
  by (auto simp: parse_uint_def Let_def split: if_splits)

section \<open>Lists\<close>

text \<open>\<^verbatim>\<open>Vec::retain\<close> with a counter that stops removing once \<^term>\<open>k\<close> elements are gone: the kept
  elements and the number removed.\<close>

fun retain_upto :: "nat \<Rightarrow> ('a \<Rightarrow> bool) \<Rightarrow> 'a list \<Rightarrow> 'a list \<times> nat" where
  "retain_upto k p [] = ([], 0)"
| "retain_upto k p (x # xs) =
     (if 0 < k \<and> p x then (case retain_upto (k - 1) p xs of (ys, n) \<Rightarrow> (ys, Suc n))
      else (case retain_upto k p xs of (ys, n) \<Rightarrow> (x # ys, n)))"

lemma retain_upto_bound: "snd (retain_upto k p xs) \<le> k"
  by (induction k p xs rule: retain_upto.induct) (auto split: prod.splits)

lemma retain_upto_length: "length (fst (retain_upto k p xs)) + snd (retain_upto k p xs) = length xs"
  by (induction k p xs rule: retain_upto.induct) (auto split: prod.splits)

lemma retain_upto_subset: "set (fst (retain_upto k p xs)) \<subseteq> set xs"
  by (induction k p xs rule: retain_upto.induct) (auto split: prod.splits)

lemma retain_upto_distinct:
  "distinct (map g xs) \<Longrightarrow> distinct (map g (fst (retain_upto k p xs)))"
proof (induction k p xs rule: retain_upto.induct)
  case (2 k p x xs)
  then show ?case
    using retain_upto_subset [of k p xs] by (auto split: prod.splits)
qed simp

lemma retain_upto_keeps: "x \<in> set xs \<Longrightarrow> \<not> p x \<Longrightarrow> x \<in> set (fst (retain_upto k p xs))"
  by (induction k p xs rule: retain_upto.induct) (auto split: prod.splits)

lemma retain_upto_complete:
  "snd (retain_upto k p xs) < k \<Longrightarrow> fst (retain_upto k p xs) = filter (\<lambda>x. \<not> p x) xs"
  by (induction k p xs rule: retain_upto.induct) (auto split: prod.splits if_splits)

text \<open>\<^verbatim>\<open>iter_mut().find(p)\<close> followed by an update of what it found: the updated list and whether
  anything was found.\<close>

fun update_first :: "('a \<Rightarrow> bool) \<Rightarrow> ('a \<Rightarrow> 'a) \<Rightarrow> 'a list \<Rightarrow> 'a list \<times> bool" where
  "update_first p f [] = ([], False)"
| "update_first p f (x # xs) =
     (if p x then (f x # xs, True)
      else (case update_first p f xs of (ys, b) \<Rightarrow> (x # ys, b)))"

lemma update_first_found [simp]: "snd (update_first p f xs) \<longleftrightarrow> (\<exists>x\<in>set xs. p x)"
  by (induction xs) (auto split: prod.splits)

lemma update_first_none: "\<forall>x\<in>set xs. \<not> p x \<Longrightarrow> fst (update_first p f xs) = xs"
  by (induction xs) (auto split: prod.splits)

lemma update_first_unique:
  assumes "distinct (map key xs)" and "\<forall>x y. p x \<longrightarrow> p y \<longrightarrow> key x = key y"
  shows "fst (update_first p f xs) = map (\<lambda>x. if p x then f x else x) xs"
  using assms(1)
proof (induction xs)
  case Nil
  then show ?case by simp
next
  case (Cons x xs)
  show ?case
  proof (cases "p x")
    case True
    have "\<not> p y" if y: "y \<in> set xs" for y
    proof
      assume "p y"
      with True assms(2) have "key x = key y" by blast
      with y have "key x \<in> set (map key xs)" by (metis image_eqI list.set_map)
      with Cons.prems show False by simp
    qed
    then have "map (\<lambda>x. if p x then f x else x) xs = xs" by (intro map_idI) auto
    with True show ?thesis by simp
  next
    case False
    with Cons.IH Cons.prems show ?thesis by (cases "update_first p f xs") simp
  qed
qed

lemma update_first_map:
  "(\<And>x. g (f x) = g x) \<Longrightarrow> map g (fst (update_first p f xs)) = map g xs"
  by (induction xs) (auto split: prod.splits)

lemma update_first_all:
  "\<forall>x\<in>set xs. P x \<Longrightarrow> (\<And>x. P x \<Longrightarrow> p x \<Longrightarrow> P (f x)) \<Longrightarrow> \<forall>x\<in>set (fst (update_first p f xs)). P x"
  by (induction xs) (auto split: prod.splits)

lemma set_delete: "set (AList.delete i xs) = {p \<in> set xs. fst p \<noteq> i}"
  by (induction xs) auto

lemma filter_key:
  "distinct (map fst xs) \<Longrightarrow> (i, m) \<in> set xs \<Longrightarrow> filter (\<lambda>(j, _). j = i) xs = [(i, m)]"
  by (induction xs) (force simp: filter_empty_conv)+

text \<open>A stable sort of indices by the key of what they point at sorts the elements.\<close>

lemma map_insort_key: "map f (insort_key (\<lambda>x. k (f x)) x xs) = insort_key k (f x) (map f xs)"
  by (induction xs) simp_all

lemma map_sort_key: "map f (sort_key (\<lambda>x. k (f x)) xs) = sort_key k (map f xs)"
  by (induction xs) (simp_all add: map_insort_key)

lemma map_nth_filter_upt: "map ((!) xs) (filter (\<lambda>i. P (xs ! i)) [0..<length xs]) = filter P xs"
proof -
  have "filter P xs = filter P (map ((!) xs) [0..<length xs])" by (simp only: map_nth)
  then show ?thesis by (simp add: filter_map comp_def)
qed

lemma sorted_take_drop:
  assumes "sorted (map k xs)" "a \<in> set (take n xs)" "b \<in> set (drop n xs)"
  shows "k a \<le> k b"
proof -
  have "sorted (map k (take n xs) @ map k (drop n xs))"
    using assms(1) by (simp flip: map_append)
  then show ?thesis using assms(2,3) by (auto simp: sorted_append)
qed

text \<open>What a bounded prefix of a sorted list leaves out comes later, and it leaves something out only when it is full.\<close>

lemma take_least:
  fixes k :: "'a \<Rightarrow> 'b :: linorder"
  assumes "sorted (map k xs)" "x \<in> set xs" "x \<notin> set (take n xs)"
  shows "length (take n xs) = n" "y \<in> set (take n xs) \<Longrightarrow> k y \<le> k x"
proof -
  have "x \<in> set (drop n xs)" using assms(2,3) by (metis Un_iff append_take_drop_id set_append)
  then show "y \<in> set (take n xs) \<Longrightarrow> k y \<le> k x" using sorted_take_drop [OF assms(1)] by blast
  show "length (take n xs) = n" using assms(2,3) by (cases "n \<le> length xs") auto
qed

end
