(* ===== verification/Core_Ids.thy ===== *)
theory Core_Ids
  imports Prelude
begin

text \<open>
  The identity newtypes and validated strings of \<^verbatim>\<open>reliar-core\<close>: \<^verbatim>\<open>ids.rs\<close>,
  \<^verbatim>\<open>content_type.rs\<close>, \<^verbatim>\<open>message.rs\<close> and the \<^verbatim>\<open>EndpointAddress\<close> of \<^verbatim>\<open>metadata.rs\<close>, with
  \<^verbatim>\<open>failure.rs\<close>'s classification and \<^verbatim>\<open>settings.rs\<close>'s shared error. A UUID is a 128-bit word.
  Each validated newtype is a one-constructor datatype; its validity predicate says what a value
  made by its \<^verbatim>\<open>parse\<close> satisfies.
\<close>

section \<open>Failure classification and shared errors\<close>

datatype FailureKind = Transient | Permanent

datatype SettingsError = SettingsParse string string | OutOfRange string string

definition settings_error_key :: "SettingsError \<Rightarrow> string" where
  "settings_error_key e = (case e of SettingsParse k _ \<Rightarrow> k | OutOfRange k _ \<Rightarrow> k)"

section \<open>Identifiers\<close>

type_synonym uuid = "128 word"
type_synonym MessageId = uuid
type_synonym ConversationId = uuid
type_synonym RequestId = uuid

definition nil_uuid :: uuid where
  "nil_uuid = 0"

definition conversation_unset :: ConversationId where
  "conversation_unset = nil_uuid"

definition is_unset :: "ConversationId \<Rightarrow> bool" where
  "is_unset c \<longleftrightarrow> c = nil_uuid"

datatype IdError = IdEmpty | IdTooLong nat nat | IdControlCharacter

definition contains_control_char :: "string \<Rightarrow> bool" where
  "contains_control_char s = list_ex is_control (chars s)"

datatype CorrelationId = CorrelationId (correlation_id_as_str: string)

definition correlation_id_max_len :: nat where
  "correlation_id_max_len = 256"

definition correlation_id_parse :: "string \<Rightarrow> (CorrelationId, IdError) result" where
  "correlation_id_parse s =
     (if s = [] then Err IdEmpty
      else if contains_control_char s then Err IdControlCharacter
      else if length s > correlation_id_max_len
        then Err (IdTooLong (length s) correlation_id_max_len)
      else Ok (CorrelationId s))"

text \<open>The derived order of \<^verbatim>\<open>CorrelationId\<close>: the byte order of its text.\<close>

instantiation CorrelationId :: linorder
begin

definition less_eq_CorrelationId :: "CorrelationId \<Rightarrow> CorrelationId \<Rightarrow> bool" where
  "less_eq_CorrelationId a b = ord_class.lexordp_eq (map byte (correlation_id_as_str a)) (map byte (correlation_id_as_str b))"

definition less_CorrelationId :: "CorrelationId \<Rightarrow> CorrelationId \<Rightarrow> bool" where
  "less_CorrelationId a b = ord_class.lexordp (map byte (correlation_id_as_str a)) (map byte (correlation_id_as_str b))"

instance
proof
  fix a b c :: CorrelationId
  show "a < b \<longleftrightarrow> a \<le> b \<and> \<not> b \<le> a"
    by (simp add: less_CorrelationId_def less_eq_CorrelationId_def lexordp_conv_lexordp_eq)
  show "a \<le> a" by (simp add: less_eq_CorrelationId_def lexordp_eq_refl)
  show "a \<le> c" if "a \<le> b" "b \<le> c" using that unfolding less_eq_CorrelationId_def by (rule lexordp_eq_trans)
  show "a \<le> b \<or> b \<le> a" unfolding less_eq_CorrelationId_def by (rule lexordp_eq_linear)
  show "a = b" if "a \<le> b" "b \<le> a"
  proof -
    have "inj byte" by (auto intro!: injI simp: byte_def)
    moreover have "map byte (correlation_id_as_str a) = map byte (correlation_id_as_str b)"
      using that unfolding less_eq_CorrelationId_def by (rule lexordp_eq_antisym)
    ultimately show ?thesis by (auto intro: CorrelationId.expand dest: map_injective)
  qed
qed

end

datatype EndpointAddress = EndpointAddress (endpoint_as_str: string)

definition endpoint_max_len :: nat where
  "endpoint_max_len = 256"

definition endpoint_parse :: "string \<Rightarrow> (EndpointAddress, IdError) result" where
  "endpoint_parse s =
     (if s = [] then Err IdEmpty
      else if contains_control_char s then Err IdControlCharacter
      else if length s > endpoint_max_len then Err (IdTooLong (length s) endpoint_max_len)
      else Ok (EndpointAddress s))"

section \<open>Content types\<close>

datatype ContentType = ContentType (content_type_as_str: string)

datatype ContentTypeError = CtEmpty | CtTooLong nat nat | CtMalformed string

definition content_type_json :: ContentType where
  "content_type_json = ContentType ''application/json''"

definition content_type_max_len :: nat where
  "content_type_max_len = 256"

definition malformed_display_len :: nat where
  "malformed_display_len = 64"

definition content_type_parse :: "string \<Rightarrow> (ContentType, ContentTypeError) result" where
  "content_type_parse s =
     (if s = [] then Err CtEmpty
      else if length s > content_type_max_len
        then Err (CtTooLong (length s) content_type_max_len)
      else
        (let is_valid = (\<not> contains_control_char s
               \<and> (case split_once (CHR ''/'') s of
                    Some (ty, subtype) \<Rightarrow> ty \<noteq> [] \<and> subtype \<noteq> []
                  | None \<Rightarrow> False))
         in if \<not> is_valid then Err (CtMalformed s) else Ok (ContentType s)))"

text \<open>The prefix of a rejected value that \<^verbatim>\<open>Display\<close> and \<^verbatim>\<open>Debug\<close> show, and whether it was cut.\<close>

definition truncated_for_display :: "string \<Rightarrow> string \<times> bool" where
  "truncated_for_display value =
     (let cs = char_slices value
      in if malformed_display_len < length cs
         then (concat (take malformed_display_len cs), True)
         else (value, False))"

section \<open>Message types\<close>

record MessageType =
  mt_name :: string
  mt_version :: u16

definition message_type_from_parts :: "string \<Rightarrow> u16 \<Rightarrow> MessageType" where
  "message_type_from_parts name version = \<lparr>mt_name = name, mt_version = version\<rparr>"

text \<open>\<^verbatim>\<open>Display\<close>: the name, \<^verbatim>\<open>.v\<close>, the version in decimal.\<close>

definition message_type_display :: "MessageType \<Rightarrow> string" where
  "message_type_display m = mt_name m @ ''.v'' @ show_nat (unat (mt_version m))"

section \<open>Validity\<close>

definition valid_correlation_id :: "CorrelationId \<Rightarrow> bool" where
  "valid_correlation_id c \<longleftrightarrow>
     (let s = correlation_id_as_str c
      in s \<noteq> [] \<and> \<not> contains_control_char s \<and> length s \<le> correlation_id_max_len)"

definition valid_endpoint :: "EndpointAddress \<Rightarrow> bool" where
  "valid_endpoint a \<longleftrightarrow>
     (let s = endpoint_as_str a
      in s \<noteq> [] \<and> \<not> contains_control_char s \<and> length s \<le> endpoint_max_len)"

definition valid_content_type :: "ContentType \<Rightarrow> bool" where
  "valid_content_type c \<longleftrightarrow>
     (let s = content_type_as_str c
      in length s \<le> content_type_max_len \<and> \<not> contains_control_char s
         \<and> (\<exists>ty sub. s = ty @ ''/'' @ sub \<and> CHR ''/'' \<notin> set ty \<and> ty \<noteq> [] \<and> sub \<noteq> []))"

lemma correlation_id_parse_iff:
  "correlation_id_parse s = Ok c \<longleftrightarrow> c = CorrelationId s \<and> valid_correlation_id c"
  by (auto simp: correlation_id_parse_def valid_correlation_id_def Let_def)

lemma endpoint_parse_iff:
  "endpoint_parse s = Ok a \<longleftrightarrow> a = EndpointAddress s \<and> valid_endpoint a"
  by (auto simp: endpoint_parse_def valid_endpoint_def Let_def)

lemma split_once_append:
  "d \<notin> set a \<Longrightarrow> split_once d (a @ d # b) = Some (a, b)"
  by (induction a) auto

lemma content_type_parse_iff:
  "content_type_parse s = Ok c \<longleftrightarrow> c = ContentType s \<and> valid_content_type c"
proof -
  have h: "(case split_once (CHR ''/'') s of Some (ty, sub) \<Rightarrow> ty \<noteq> [] \<and> sub \<noteq> [] | None \<Rightarrow> False)
    \<longleftrightarrow> (\<exists>ty sub. s = ty @ ''/'' @ sub \<and> CHR ''/'' \<notin> set ty \<and> ty \<noteq> [] \<and> sub \<noteq> [])"
    (is "?L \<longleftrightarrow> ?R")
  proof
    assume ?L
    then obtain ty sub where "split_once (CHR ''/'') s = Some (ty, sub)" "ty \<noteq> []" "sub \<noteq> []"
      by (auto split: option.splits)
    with split_once_Some show ?R by fastforce
  next
    assume ?R
    then show ?L by (auto simp: split_once_append)
  qed
  show ?thesis
    unfolding content_type_parse_def valid_content_type_def Let_def h
    by (cases c) auto
qed

lemma parse_as_str [simp]:
  "valid_correlation_id c \<Longrightarrow> correlation_id_parse (correlation_id_as_str c) = Ok c"
  "valid_endpoint a \<Longrightarrow> endpoint_parse (endpoint_as_str a) = Ok a"
  "valid_content_type t \<Longrightarrow> content_type_parse (content_type_as_str t) = Ok t"
  by (simp_all add: correlation_id_parse_iff endpoint_parse_iff content_type_parse_iff)

lemma valid_content_type_json [simp]: "valid_content_type content_type_json"
proof -
  have "content_type_parse ''application/json'' = Ok content_type_json"
    by code_simp
  then show ?thesis by (simp add: content_type_parse_iff)
qed

text \<open>A byte below 128 of a well-formed string is a character of its own.\<close>

lemma utf8_char_low_byte: "utf8_char g \<Longrightarrow> b \<in> set g \<Longrightarrow> byte b < 128 \<Longrightarrow> g = [b]"
  by (cases g rule: utf8_char.cases) (auto simp: byte_in_def cont_byte_def)

lemma low_byte_in_chars:
  assumes "utf8 s" "b \<in> set s" "byte b < 128"
  shows "byte b \<in> set (chars s)"
proof -
  from assms(2) have "b \<in> set (concat (char_slices s))" by simp
  then obtain g where g: "g \<in> set (char_slices s)" "b \<in> set g"
    unfolding set_concat by blast
  from assms(1) g(1) have "utf8_char g" by (auto simp: utf8_def list_all_iff)
  with g(2) assms(3) have "g = [b]" by (intro utf8_char_low_byte)
  with g(1) show ?thesis by (force simp: chars_def image_iff)
qed

text \<open>So a string with no control character holds no carriage return and no line feed.\<close>

lemma no_control_no_crlf:
  assumes "utf8 s" "\<not> contains_control_char s" "b \<in> set s"
  shows "byte b \<noteq> 10 \<and> byte b \<noteq> 13"
proof -
  from assms(2) have "\<not> is_control n" if "n \<in> set (chars s)" for n
    using that by (auto simp: contains_control_char_def list_ex_iff)
  then have "\<not> is_control (byte b)" if "byte b < 128"
    using low_byte_in_chars [OF assms(1,3) that] by blast
  then show ?thesis by (auto simp: is_control_def)
qed

section \<open>The rendered message type\<close>

lemma rsplit_once_no_match: "CHR ''.'' \<notin> set s \<Longrightarrow> rsplit_once ''.v'' s = None"
  by (induction s) auto

lemma rsplit_once_last:
  "CHR ''.'' \<notin> set b \<Longrightarrow> rsplit_once ''.v'' (a @ ''.v'' @ b) = Some (a, b)"
  by (induction a) (auto simp: rsplit_once_no_match)

lemma show_nat_no_dot: "CHR ''.'' \<notin> set (show_nat n)"
proof
  assume "CHR ''.'' \<in> set (show_nat n)"
  with show_nat_digits [of n] have "is_ascii_digit (CHR ''.'')" by (auto simp: list_all_iff)
  then show False by (simp add: is_ascii_digit_def byte_def)
qed

lemma message_type_display_split:
  "rsplit_once ''.v'' (message_type_display m) = Some (mt_name m, show_nat (unat (mt_version m)))"
  using rsplit_once_last [OF show_nat_no_dot, of "mt_name m"] by (simp add: message_type_display_def)

lemma show_nat_inj: "show_nat a = show_nat b \<Longrightarrow> a = b"
  by (metis digits_value_show_nat)

lemma message_type_display_eq:
  assumes "message_type_display m = message_type_display m'"
  shows "m = m'"
proof -
  from assms have "Some (mt_name m, show_nat (unat (mt_version m)))
    = Some (mt_name m', show_nat (unat (mt_version m')))"
    by (metis message_type_display_split)
  then have "mt_name m = mt_name m'" "mt_version m = mt_version m'"
    by (auto dest!: show_nat_inj simp: word_unat_eq_iff)
  then show ?thesis by simp
qed

text \<open>The rendered form \<^verbatim>\<open>name.vN\<close>, which clients parse, identifies the message type: two
  message types that render alike have the same name and the same version.\<close>

lemma message_type_display_inj:
  "message_type_display m = message_type_display m' \<longleftrightarrow> m = m'"
  by (auto dest: message_type_display_eq)

end
