(* ===== verification/Core_Headers.thy ===== *)
theory Core_Headers
  imports Core_Ids
begin

text \<open>
  \<^verbatim>\<open>reliar-core/src/headers.rs\<close>: the validating custom-header map. The \<^verbatim>\<open>HashMap\<close> is an
  association list with distinct keys whose order is the map's iteration order, which Rust leaves
  open; a statement about it is about \<^const>\<open>map_of\<close> or holds for every order. The invariant
  \<open>headers_wf\<close> says what every value built through \<open>headers_insert\<close> satisfies.
\<close>

type_synonym Headers = "(string \<times> string) list"

datatype HeaderError =
    HeaderReserved string
  | HeaderEmptyKey
  | HeaderControlInKey string
  | HeaderControlInValue string
  | HeaderKeyTooLong nat
  | HeaderValueTooLong nat
  | TooManyHeaders nat

definition reserved_prefix :: string where
  "reserved_prefix = ''reliar-''"

definition max_key_len :: nat where
  "max_key_len = 128"

definition max_value_len :: nat where
  "max_value_len = 1024"

definition max_count :: nat where
  "max_count = 32"

definition has_reserved_prefix :: "string \<Rightarrow> bool" where
  "has_reserved_prefix key \<longleftrightarrow>
     length reserved_prefix \<le> length key
     \<and> eq_ignore_ascii_case (take (length reserved_prefix) key) reserved_prefix"

definition headers_default :: Headers where
  "headers_default = []"

text \<open>\<^verbatim>\<open>Headers::insert\<close>: the updated map and the previous value of the key.\<close>

definition headers_insert ::
    "string \<Rightarrow> string \<Rightarrow> Headers \<Rightarrow> (Headers \<times> string option, HeaderError) result" where
  "headers_insert key value self =
     (if has_reserved_prefix key then Err (HeaderReserved key)
      else if key = [] then Err HeaderEmptyKey
      else if contains_control_char key then Err (HeaderControlInKey key)
      else if length key > max_key_len then Err (HeaderKeyTooLong (length key))
      else if contains_control_char value then Err (HeaderControlInValue key)
      else if length value > max_value_len then Err (HeaderValueTooLong (length value))
      else if map_of self key = None \<and> length self \<ge> max_count then Err (TooManyHeaders max_count)
      else Ok (AList.update key value self, map_of self key))"

definition headers_get :: "string \<Rightarrow> Headers \<Rightarrow> string option" where
  "headers_get key self = map_of self key"

definition headers_remove :: "string \<Rightarrow> Headers \<Rightarrow> Headers \<times> string option" where
  "headers_remove key self = (AList.delete key self, map_of self key)"

definition headers_len :: "Headers \<Rightarrow> nat" where
  "headers_len self = length self"

definition headers_is_empty :: "Headers \<Rightarrow> bool" where
  "headers_is_empty self \<longleftrightarrow> self = []"

text \<open>Inserting every pair of a list, stopping at the first refusal: how providers rehydrate.\<close>

fun headers_insert_all :: "(string \<times> string) list \<Rightarrow> Headers \<Rightarrow> (Headers, HeaderError) result" where
  "headers_insert_all [] self = Ok self"
| "headers_insert_all ((k, v) # kvs) self =
     and_then (headers_insert k v self) (\<lambda>(self', _). headers_insert_all kvs self')"

section \<open>The invariant\<close>

definition header_ok :: "string \<Rightarrow> string \<Rightarrow> bool" where
  "header_ok k v \<longleftrightarrow>
     \<not> has_reserved_prefix k \<and> k \<noteq> [] \<and> \<not> contains_control_char k \<and> length k \<le> max_key_len
     \<and> \<not> contains_control_char v \<and> length v \<le> max_value_len"

definition headers_wf :: "Headers \<Rightarrow> bool" where
  "headers_wf h \<longleftrightarrow>
     distinct (map fst h) \<and> length h \<le> max_count \<and> (\<forall>(k, v) \<in> set h. header_ok k v)"

lemma headers_insert_Ok_iff:
  "headers_insert k v h = Ok (h', old) \<longleftrightarrow>
     header_ok k v \<and> (map_of h k \<noteq> None \<or> length h < max_count)
     \<and> h' = AList.update k v h \<and> old = map_of h k"
  by (auto simp: headers_insert_def header_ok_def)

lemma length_update:
  "length (AList.update k v h) = (if k \<in> fst ` set h then length h else Suc (length h))"
  by (induction h) auto

lemma update_append_new: "k \<notin> fst ` set h \<Longrightarrow> AList.update k v h = h @ [(k, v)]"
  by (induction h) auto

lemma map_of_eq_None_fst: "map_of h k = None \<longleftrightarrow> k \<notin> fst ` set h"
  by (simp add: map_of_eq_None_iff)

lemma set_update_subset: "set (AList.update k v h) \<subseteq> insert (k, v) (set h)"
  by (induction h) auto

lemma headers_wf_default [simp]: "headers_wf headers_default"
  by (simp add: headers_wf_def headers_default_def)

lemma headers_wf_insert:
  assumes "headers_wf h" "headers_insert k v h = Ok (h', old)"
  shows "headers_wf h'"
proof -
  from assms(2) have ok: "header_ok k v" and h': "h' = AList.update k v h"
    and room: "map_of h k \<noteq> None \<or> length h < max_count"
    by (simp_all add: headers_insert_Ok_iff)
  have "distinct (map fst h')" using assms(1) h' by (simp add: headers_wf_def distinct_update)
  moreover have "length h' \<le> max_count"
    using assms(1) room h' by (auto simp: headers_wf_def length_update map_of_eq_None_fst)
  moreover have "\<forall>(a, b) \<in> set h'. header_ok a b"
    using assms(1) ok set_update_subset [of k v h] by (auto simp: h' headers_wf_def)
  ultimately show ?thesis by (simp add: headers_wf_def)
qed

lemma set_delete_subset: "set (AList.delete k h) \<subseteq> set h"
  by (induction h) auto

lemma headers_wf_remove: "headers_wf h \<Longrightarrow> headers_wf (fst (headers_remove k h))"
  using set_delete_subset [of k h] le_trans [OF length_delete_le [of k h], of max_count]
  by (auto simp: headers_wf_def headers_remove_def distinct_delete)

lemma headers_insert_all_append:
  "headers_insert_all (xs @ ys) h = and_then (headers_insert_all xs h) (headers_insert_all ys)"
  by (induction xs arbitrary: h) (auto simp: and_then_assoc split_def)

text \<open>A well-formed map is rebuilt, entry by entry, from its own iteration.\<close>

lemma headers_insert_all_wf:
  assumes "headers_wf (h @ kvs)"
  shows "headers_insert_all kvs h = Ok (h @ kvs)"
  using assms
proof (induction kvs arbitrary: h)
  case Nil
  then show ?case by simp
next
  case (Cons kv kvs)
  obtain k v where kv: "kv = (k, v)" by (cases kv)
  from Cons.prems have new: "k \<notin> fst ` set h" and len: "length h < max_count"
    and ok: "header_ok k v"
    by (auto simp: headers_wf_def kv)
  then have "headers_insert k v h = Ok (h @ [(k, v)], None)"
    by (simp add: headers_insert_Ok_iff update_append_new map_of_eq_None_fst [THEN iffD2])
  moreover have "headers_wf ((h @ [(k, v)]) @ kvs)" using Cons.prems by (simp add: kv)
  ultimately show ?case using Cons.IH by (simp add: kv)
qed

text \<open>C26. \<^verbatim>\<open>Headers::insert\<close> accepts a pair exactly when the key is unreserved, non-empty, free of
  control characters and within 128 bytes, the value is free of control characters and within
  1024 bytes, and the key is present or the map holds fewer than 32 entries. On acceptance the
  key maps to the value, every other key is untouched, the previous value is returned and the
  map's invariant (distinct keys, caps, no reserved or control-bearing entry) is kept.\<close>

theorem headers_insert_correct:
  assumes "headers_wf h"
  shows "(case headers_insert k v h of
            Inr (h', old) \<Rightarrow> headers_wf h' \<and> map_of h' = (map_of h)(k \<mapsto> v) \<and> old = map_of h k
          | Inl e \<Rightarrow> \<not> (header_ok k v \<and> (map_of h k \<noteq> None \<or> length h < max_count)))"
proof (cases "headers_insert k v h")
  case (Inl e)
  then have "\<not> (header_ok k v \<and> (map_of h k \<noteq> None \<or> length h < max_count))"
    using headers_insert_Ok_iff [of k v h "AList.update k v h" "map_of h k"] by simp
  with Inl show ?thesis by simp
next
  case (Inr r)
  obtain h' old where r: "r = (h', old)" by (cases r)
  with Inr have ins: "headers_insert k v h = Ok (h', old)" by simp
  then have "headers_wf h'" by (rule headers_wf_insert [OF assms])
  moreover from ins have "map_of h' = (map_of h)(k \<mapsto> v) \<and> old = map_of h k"
    by (simp add: headers_insert_Ok_iff update_conv')
  ultimately show ?thesis using ins by simp
qed

text \<open>An instance: replacing a header and inserting a reserved one.\<close>

theorem headers_insert_correct_witness:
  "headers_wf [(''k'', ''old'')]
   \<and> headers_insert ''k'' ''new'' [(''k'', ''old'')] = Ok ([(''k'', ''new'')], Some ''old'')
   \<and> map_of [(''k'', ''new'')] = (map_of [(''k'', ''old'')])(''k'' \<mapsto> ''new'')
   \<and> headers_insert ''ReLiAr-x'' ''v'' [(''k'', ''old'')] = Err (HeaderReserved ''ReLiAr-x'')
   \<and> \<not> header_ok ''ReLiAr-x'' ''v''"
proof -
  have wf: "headers_wf [(''k'', ''old'')]" by code_simp
  have i: "headers_insert ''k'' ''new'' [(''k'', ''old'')] = Ok ([(''k'', ''new'')], Some ''old'')"
    by code_simp
  have j: "headers_insert ''ReLiAr-x'' ''v'' [(''k'', ''old'')] = Err (HeaderReserved ''ReLiAr-x'')"
    by code_simp
  from headers_insert_correct [OF wf, of "''k''" "''new''"] i
    have "map_of [(''k'', ''new'')] = (map_of [(''k'', ''old'')])(''k'' \<mapsto> ''new'')" by simp
  moreover from headers_insert_correct [OF wf, of "''ReLiAr-x''" "''v''"] j
    have "\<not> header_ok ''ReLiAr-x'' ''v''" by (simp add: max_count_def)
  ultimately show ?thesis using wf i j by simp
qed

end
