(* ===== verification/Core_Envelope.thy ===== *)
theory Core_Envelope
  imports Core_Headers
begin

text \<open>
  \<^verbatim>\<open>reliar-core/src/metadata.rs\<close> and \<^verbatim>\<open>envelope.rs\<close>: the typed metadata, the envelope, its body
  conversions and its builder. A minted UUID (\<^verbatim>\<open>Uuid::now_v7\<close>) is an argument of \<open>build\<close>; a
  timestamp is an \<^typ>\<open>instant\<close>.
\<close>

section \<open>Metadata\<close>

record CorrelationMetadata =
  correlation_id :: "CorrelationId option"
  conversation_id :: ConversationId
  causation_id :: "MessageId option"
  request_id :: "RequestId option"

record TraceContext =
  traceparent :: "string option"
  tracestate :: "string option"

record RoutingMetadata =
  source :: "EndpointAddress option"
  destination :: "EndpointAddress option"
  reply_to :: "EndpointAddress option"

record DeliveryMetadata =
  content_type :: ContentType
  sent_at :: "instant option"
  expires_at :: "instant option"
  deduplication_id :: "string option"

record Metadata =
  correlation :: CorrelationMetadata
  trace :: TraceContext
  routing :: RoutingMetadata
  delivery :: DeliveryMetadata
  tenant_id :: "string option"

definition correlation_default :: CorrelationMetadata where
  "correlation_default =
     \<lparr>correlation_id = None, conversation_id = conversation_unset, causation_id = None,
      request_id = None\<rparr>"

definition trace_default :: TraceContext where
  "trace_default = \<lparr>traceparent = None, tracestate = None\<rparr>"

definition routing_default :: RoutingMetadata where
  "routing_default = \<lparr>source = None, destination = None, reply_to = None\<rparr>"

definition delivery_default :: DeliveryMetadata where
  "delivery_default =
     \<lparr>content_type = content_type_json, sent_at = None, expires_at = None,
      deduplication_id = None\<rparr>"

definition metadata_default :: Metadata where
  "metadata_default =
     \<lparr>correlation = correlation_default, trace = trace_default, routing = routing_default,
      delivery = delivery_default, tenant_id = None\<rparr>"

section \<open>Envelopes\<close>

type_synonym bytes = string

record 'a Envelope =
  env_id :: MessageId
  message_type :: MessageType
  body :: 'a
  metadata :: Metadata
  env_headers :: "Headers option"

type_synonym SerializedEnvelope = "bytes Envelope"

definition headers_mut :: "'a Envelope \<Rightarrow> 'a Envelope \<times> Headers" where
  "headers_mut e =
     (case env_headers e of
        Some h \<Rightarrow> (e, h)
      | None \<Rightarrow> (e\<lparr>env_headers := Some headers_default\<rparr>, headers_default))"

definition set_headers :: "Headers option \<Rightarrow> 'a Envelope \<Rightarrow> 'a Envelope" where
  "set_headers h e = e\<lparr>env_headers := h\<rparr>"

definition map_body :: "('a \<Rightarrow> 'b) \<Rightarrow> 'a Envelope \<Rightarrow> 'b Envelope" where
  "map_body f e =
     \<lparr>env_id = env_id e, message_type = message_type e, body = f (body e),
      metadata = metadata e, env_headers = env_headers e\<rparr>"

definition try_map_body ::
    "('a \<Rightarrow> ('b, 'e) result) \<Rightarrow> 'a Envelope \<Rightarrow> ('b Envelope, 'e) result" where
  "try_map_body f e =
     and_then (f (body e)) (\<lambda>b. Ok
       \<lparr>env_id = env_id e, message_type = message_type e, body = b,
        metadata = metadata e, env_headers = env_headers e\<rparr>)"

definition envelope_from_parts ::
    "MessageId \<Rightarrow> MessageType \<Rightarrow> bytes \<Rightarrow> Metadata \<Rightarrow> Headers option \<Rightarrow> SerializedEnvelope" where
  "envelope_from_parts i mt b md hs =
     \<lparr>env_id = i, message_type = mt, body = b, metadata = md, env_headers = hs\<rparr>"

text \<open>\<^verbatim>\<open>PartialEq\<close>: header maps are compared as maps.\<close>

definition headers_eq :: "Headers option \<Rightarrow> Headers option \<Rightarrow> bool" where
  "headers_eq a b \<longleftrightarrow> map_option map_of a = map_option map_of b"

definition envelope_eq :: "'a Envelope \<Rightarrow> 'a Envelope \<Rightarrow> bool" where
  "envelope_eq a b \<longleftrightarrow>
     env_id a = env_id b \<and> message_type a = message_type b \<and> body a = body b
     \<and> metadata a = metadata b \<and> headers_eq (env_headers a) (env_headers b)"

section \<open>The builder\<close>

record 'a EnvelopeBuilder =
  eb_id :: "MessageId option"
  eb_body :: 'a
  eb_metadata :: Metadata
  eb_headers :: "Headers option"

definition builder_new :: "'a \<Rightarrow> 'a EnvelopeBuilder" where
  "builder_new b = \<lparr>eb_id = None, eb_body = b, eb_metadata = metadata_default, eb_headers = None\<rparr>"

definition with_id :: "MessageId \<Rightarrow> 'a EnvelopeBuilder \<Rightarrow> 'a EnvelopeBuilder" where
  "with_id i b = b\<lparr>eb_id := Some i\<rparr>"

definition with_metadata :: "Metadata \<Rightarrow> 'a EnvelopeBuilder \<Rightarrow> 'a EnvelopeBuilder" where
  "with_metadata m b = b\<lparr>eb_metadata := m\<rparr>"

definition with_correlation :: "CorrelationMetadata \<Rightarrow> 'a EnvelopeBuilder \<Rightarrow> 'a EnvelopeBuilder" where
  "with_correlation c b = b\<lparr>eb_metadata := (eb_metadata b)\<lparr>correlation := c\<rparr>\<rparr>"

definition with_correlation_id :: "CorrelationId \<Rightarrow> 'a EnvelopeBuilder \<Rightarrow> 'a EnvelopeBuilder" where
  "with_correlation_id c b =
     b\<lparr>eb_metadata := (eb_metadata b)
         \<lparr>correlation := (correlation (eb_metadata b))\<lparr>correlation_id := Some c\<rparr>\<rparr>\<rparr>"

definition with_conversation :: "ConversationId \<Rightarrow> 'a EnvelopeBuilder \<Rightarrow> 'a EnvelopeBuilder" where
  "with_conversation c b =
     b\<lparr>eb_metadata := (eb_metadata b)
         \<lparr>correlation := (correlation (eb_metadata b))\<lparr>conversation_id := c\<rparr>\<rparr>\<rparr>"

definition with_causation :: "MessageId \<Rightarrow> 'a EnvelopeBuilder \<Rightarrow> 'a EnvelopeBuilder" where
  "with_causation p b =
     b\<lparr>eb_metadata := (eb_metadata b)
         \<lparr>correlation := (correlation (eb_metadata b))\<lparr>causation_id := Some p\<rparr>\<rparr>\<rparr>"

definition with_tenant :: "string \<Rightarrow> 'a EnvelopeBuilder \<Rightarrow> 'a EnvelopeBuilder" where
  "with_tenant t b = b\<lparr>eb_metadata := (eb_metadata b)\<lparr>tenant_id := Some t\<rparr>\<rparr>"

definition with_expires_at :: "instant \<Rightarrow> 'a EnvelopeBuilder \<Rightarrow> 'a EnvelopeBuilder" where
  "with_expires_at at b =
     b\<lparr>eb_metadata := (eb_metadata b)
         \<lparr>delivery := (delivery (eb_metadata b))\<lparr>expires_at := Some at\<rparr>\<rparr>\<rparr>"

definition with_trace :: "string \<Rightarrow> string option \<Rightarrow> 'a EnvelopeBuilder \<Rightarrow> 'a EnvelopeBuilder" where
  "with_trace tp ts b =
     b\<lparr>eb_metadata := (eb_metadata b)\<lparr>trace := \<lparr>traceparent = Some tp, tracestate = ts\<rparr>\<rparr>\<rparr>"

definition with_header ::
    "string \<Rightarrow> string \<Rightarrow> 'a EnvelopeBuilder \<Rightarrow> ('a EnvelopeBuilder, HeaderError) result" where
  "with_header k v b =
     (let h = (case eb_headers b of Some h \<Rightarrow> h | None \<Rightarrow> headers_default)
      in and_then (headers_insert k v h) (\<lambda>(h', _). Ok (b\<lparr>eb_headers := Some h'\<rparr>)))"

text \<open>\<open>mt\<close> is \<^verbatim>\<open>MessageType::of::<T>()\<close>, the constants of the body's type; \<open>fresh\<close> the UUID minted
  when no id was set.\<close>

definition build :: "MessageType \<Rightarrow> uuid \<Rightarrow> 'a EnvelopeBuilder \<Rightarrow> 'a Envelope" where
  "build mt fresh b =
     (let i = (case eb_id b of Some i \<Rightarrow> i | None \<Rightarrow> fresh);
          md = eb_metadata b;
          md' = (if is_unset (conversation_id (correlation md))
                 then md\<lparr>correlation := (correlation md)\<lparr>conversation_id := i\<rparr>\<rparr>
                 else md)
      in \<lparr>env_id = i, message_type = mt, body = eb_body b, metadata = md',
          env_headers = eb_headers b\<rparr>)"

section \<open>Properties\<close>

definition custom_headers :: "'a Envelope \<Rightarrow> Headers" where
  "custom_headers e = (case env_headers e of Some h \<Rightarrow> h | None \<Rightarrow> [])"

text \<open>What the constructors of \<^verbatim>\<open>reliar-core\<close> guarantee of an envelope, and a non-empty type name.\<close>

definition envelope_valid :: "'a Envelope \<Rightarrow> bool" where
  "envelope_valid e \<longleftrightarrow>
     (let md = metadata e; ro = routing md in
      headers_wf (custom_headers e) \<and> mt_name (message_type e) \<noteq> []
      \<and> valid_content_type (content_type (delivery md))
      \<and> pred_option valid_correlation_id (correlation_id (correlation md))
      \<and> pred_option valid_endpoint (source ro) \<and> pred_option valid_endpoint (destination ro)
      \<and> pred_option valid_endpoint (reply_to ro))"

lemma map_body_frame [simp]:
  "env_id (map_body f e) = env_id e" "message_type (map_body f e) = message_type e"
  "metadata (map_body f e) = metadata e" "env_headers (map_body f e) = env_headers e"
  "body (map_body f e) = f (body e)"
  by (simp_all add: map_body_def)

lemma try_map_body_Ok_iff:
  "try_map_body f e = Ok e' \<longleftrightarrow> (\<exists>b. f (body e) = Ok b \<and> e' = map_body (\<lambda>_. b) e)"
  by (cases "f (body e)") (auto simp: try_map_body_def map_body_def)

lemma envelope_eq_refl [simp]: "envelope_eq e e"
  by (simp add: envelope_eq_def headers_eq_def)

text \<open>Serializing and deserializing a body with an inverse pair of functions gives back the
  envelope: no field is dropped or changed by the conversion between typed and serialized form.\<close>

lemma body_conversion_roundtrip:
  assumes "deser (ser (body e)) = Ok (body e)"
  shows "try_map_body deser (map_body ser e) = Ok e"
  using assms by (simp add: try_map_body_def map_body_def)

theorem body_conversion_roundtrip_witness:
  "try_map_body (\<lambda>s. if s = ''7'' then Ok (7::nat) else Err ()) (map_body show_nat
       (build \<lparr>mt_name = ''orders.created'', mt_version = 1\<rparr> 5 (builder_new (7::nat))))
   = Ok (build \<lparr>mt_name = ''orders.created'', mt_version = 1\<rparr> 5 (builder_new (7::nat)))"
proof (rule body_conversion_roundtrip)
  have "show_nat 7 = ''7''" by code_simp
  then show "(if show_nat (body (build \<lparr>mt_name = ''orders.created'', mt_version = 1\<rparr> 5
          (builder_new (7::nat)))) = ''7'' then Ok (7::nat) else Err ())
      = Ok (body (build \<lparr>mt_name = ''orders.created'', mt_version = 1\<rparr> 5 (builder_new (7::nat))))"
    by (simp add: build_def builder_new_def Let_def)
qed

text \<open>Conversation rooting is decided by the value alone: the built envelope's conversation id
  is the envelope's own id exactly when the builder's value is still UNSET, and is otherwise the
  builder's value; every other metadata field and the headers are carried over unchanged.\<close>

lemma build_roots_conversation:
  fixes b :: "'a EnvelopeBuilder" and mt :: MessageType and fresh :: uuid
  defines "c \<equiv> conversation_id (correlation (eb_metadata b))"
  defines "e \<equiv> build mt fresh b"
  shows "env_id e = (case eb_id b of Some i \<Rightarrow> i | None \<Rightarrow> fresh)
    \<and> conversation_id (correlation (metadata e)) = (if c = conversation_unset then env_id e else c)
    \<and> (metadata e)\<lparr>correlation := (correlation (metadata e))\<lparr>conversation_id := c\<rparr>\<rparr> = eb_metadata b
    \<and> message_type e = mt \<and> body e = eb_body b \<and> env_headers e = eb_headers b"
  by (simp add: e_def c_def build_def Let_def is_unset_def conversation_unset_def)

end
