(* ===== verification/Float64.thy ===== *)
theory Float64
  imports Prelude "HOL-Library.Log_Nat"
begin

text \<open>
  IEEE 754 binary64 arithmetic as \<^verbatim>\<open>retry.rs\<close> uses it. A finite value is its exact rational; every
  operation computes exactly and rounds once to the nearest representable value, ties to even.
  \<open>round_scaled\<close> works on the value in units of the smallest subnormal, \<open>2 ^ 1074\<close> of which make
  one, so that subnormals need no case of their own. The sign of zero is not kept and the range is
  not bounded above: the values of the program stay below \<open>2 ^ 66\<close>.
  \<^verbatim>\<open>Duration::as_secs_f64\<close>, \<^verbatim>\<open>from_secs_f64\<close> and \<^verbatim>\<open>mul_f64\<close> are built on it; a panic is \<^const>\<open>None\<close>.
\<close>

section \<open>Rounding\<close>

definition round_half_even :: "rat \<Rightarrow> int" where
  "round_half_even x =
     (let f = \<lfloor>x\<rfloor>; d = x - of_int f
      in if d < 1/2 then f else if 1/2 < d then f + 1 else if even f then f else f + 1)"

text \<open>\<open>53\<close> significant bits: the number of low bits of \<open>t\<close> that are rounded away.\<close>

definition excess_bits :: "rat \<Rightarrow> nat" where
  "excess_bits t = floorlog 2 (nat \<lfloor>t\<rfloor>) - 53"

definition round_scaled :: "rat \<Rightarrow> int" where
  "round_scaled t = (let s = excess_bits t in 2 ^ s * round_half_even (t / 2 ^ s))"

definition f64_round :: "rat \<Rightarrow> rat" where
  "f64_round q =
     (if 0 \<le> q then of_int (round_scaled (q * 2 ^ 1074)) / 2 ^ 1074
      else - (of_int (round_scaled (- q * 2 ^ 1074)) / 2 ^ 1074))"

lemma round_half_even_bounds:
  "\<lfloor>x\<rfloor> \<le> round_half_even x" "round_half_even x \<le> \<lfloor>x\<rfloor> + 1"
  by (simp_all add: round_half_even_def Let_def)

lemma round_half_even_of_int [simp]: "round_half_even (of_int i) = i"
  by (simp add: round_half_even_def)

lemma round_half_even_of_nat [simp]: "round_half_even (of_nat n) = int n"
  using round_half_even_of_int [of "int n"] by simp

lemma round_half_even_mono:
  assumes "x \<le> y"
  shows "round_half_even x \<le> round_half_even y"
proof (cases "\<lfloor>x\<rfloor> = \<lfloor>y\<rfloor>")
  case True
  then show ?thesis using assms by (auto simp: round_half_even_def Let_def)
next
  case False
  with floor_mono [OF assms] have "\<lfloor>x\<rfloor> + 1 \<le> \<lfloor>y\<rfloor>" by linarith
  then show ?thesis using round_half_even_bounds(2) [of x] round_half_even_bounds(1) [of y] by linarith
qed

lemma excess_bits_upper:
  assumes "0 \<le> t"
  shows "t < 2 ^ (53 + excess_bits t)"
proof -
  have "nat \<lfloor>t\<rfloor> < 2 ^ floorlog 2 (nat \<lfloor>t\<rfloor>)"
    using floorlog_bounds [of "nat \<lfloor>t\<rfloor>" 2] by (cases "nat \<lfloor>t\<rfloor> = 0") simp_all
  also have "\<dots> \<le> 2 ^ (53 + excess_bits t)"
    by (rule power_increasing) (simp_all add: excess_bits_def)
  finally have "\<lfloor>t\<rfloor> < 2 ^ (53 + excess_bits t)"
    using assms by (simp add: nat_less_iff)
  then have "t < of_int (2 ^ (53 + excess_bits t))" by (simp add: floor_less_iff)
  then show ?thesis by simp
qed

lemma excess_bits_lower:
  assumes "0 \<le> t" "0 < excess_bits t"
  shows "2 ^ (52 + excess_bits t) \<le> t"
proof -
  from assms(2) have fl: "floorlog 2 (nat \<lfloor>t\<rfloor>) = 53 + excess_bits t"
    by (simp add: excess_bits_def)
  have pos: "0 < nat \<lfloor>t\<rfloor>"
  proof (rule ccontr)
    assume "\<not> 0 < nat \<lfloor>t\<rfloor>"
    then show False using fl by (simp add: floorlog_def)
  qed
  have "2 ^ (floorlog 2 (nat \<lfloor>t\<rfloor>) - 1) \<le> nat \<lfloor>t\<rfloor>"
    using floorlog_bounds [OF pos, of 2] by simp
  then have "2 ^ (52 + excess_bits t) \<le> nat \<lfloor>t\<rfloor>" by (simp add: fl)
  then have "int (2 ^ (52 + excess_bits t)) \<le> \<lfloor>t\<rfloor>" using pos by linarith
  then show ?thesis by (simp add: le_floor_iff)
qed

lemma excess_bits_mono: "x \<le> y \<Longrightarrow> excess_bits x \<le> excess_bits y"
  unfolding excess_bits_def
  by (intro diff_le_mono floorlog_mono nat_mono floor_mono)

text \<open>An integer with at most 53 significant bits is its own rounding.\<close>

lemma round_half_even_scale: "round_half_even (of_int (i * 2 ^ s) / 2 ^ s) = i"
  by simp

lemma round_scaled_mono:
  assumes "0 \<le> x" "x \<le> y"
  shows "round_scaled x \<le> round_scaled y"
proof (cases "excess_bits x = excess_bits y")
  case True
  have "round_half_even (x / 2 ^ excess_bits y) \<le> round_half_even (y / 2 ^ excess_bits y)"
    by (rule round_half_even_mono) (simp add: assms divide_right_mono)
  then show ?thesis by (simp add: round_scaled_def Let_def True)
next
  case False
  define s t where "s = excess_bits x" and "t = excess_bits y"
  from False excess_bits_mono [OF assms(2)] have st: "s < t" by (simp add: s_def t_def)
  have "x / 2 ^ s \<le> of_int (2 ^ 53)"
    using excess_bits_upper [OF assms(1)] by (simp add: s_def field_simps power_add)
  then have "round_half_even (x / 2 ^ s) \<le> 2 ^ 53"
    using round_half_even_mono round_half_even_of_int by metis
  then have "round_scaled x \<le> 2 ^ (53 + s)"
    by (simp add: round_scaled_def Let_def s_def power_add)
  also have "\<dots> \<le> 2 ^ (52 + t)" using st by (intro power_increasing) simp_all
  also have "\<dots> \<le> round_scaled y"
  proof -
    have "of_int (2 ^ 52) \<le> y / 2 ^ t"
      using excess_bits_lower [of y] assms st by (simp add: t_def field_simps power_add)
    then have "2 ^ 52 \<le> round_half_even (y / 2 ^ t)"
      using round_half_even_mono round_half_even_of_int by metis
    then show ?thesis by (simp add: round_scaled_def Let_def t_def power_add)
  qed
  finally show ?thesis .
qed

lemma round_scaled_0 [simp]: "round_scaled 0 = 0"
  using round_half_even_of_int [of 0] by (simp add: round_scaled_def Let_def)

lemma round_scaled_nonneg: "0 \<le> x \<Longrightarrow> 0 \<le> round_scaled x"
  using round_scaled_mono [of 0 x] by simp

text \<open>An integer multiple of \<open>2 ^ e\<close> below \<open>2 ^ (53 + e)\<close> is representable.\<close>

lemma round_scaled_exact:
  assumes "m < 2 ^ 53"
  shows "round_scaled (of_nat m * 2 ^ e) = int m * 2 ^ e"
proof -
  let ?t = "of_nat m * 2 ^ e :: rat"
  have "excess_bits ?t \<le> e"
  proof (cases "0 < excess_bits ?t")
    case True
    have "(2::rat) ^ (52 + excess_bits ?t) \<le> ?t" using True by (intro excess_bits_lower) simp_all
    also have "?t < 2 ^ 53 * 2 ^ e"
    proof -
      have "(of_nat m :: rat) < of_nat (2 ^ 53)" using assms by (simp only: of_nat_less_iff)
      then show ?thesis by simp
    qed
    finally have "(2::rat) ^ (52 + excess_bits ?t) < 2 ^ (53 + e)" by (simp add: power_add)
    then have "52 + excess_bits ?t < 53 + e" by (rule power_less_imp_less_exp [rotated]) simp
    then show ?thesis by simp
  qed simp
  then obtain k where k: "e = excess_bits ?t + k" using le_Suc_ex by blast
  have "?t / 2 ^ excess_bits ?t = of_int (int m * 2 ^ k)"
    by (subst k) (simp add: power_add)
  then have "round_half_even (?t / 2 ^ excess_bits ?t) = int m * 2 ^ k"
    by (simp only: round_half_even_of_int)
  then show ?thesis unfolding round_scaled_def Let_def by (subst (3) k) (simp add: power_add)
qed

lemma f64_round_mono:
  assumes "x \<le> y"
  shows "f64_round x \<le> f64_round y"
proof -
  consider "0 \<le> x" | "x < 0" "0 \<le> y" | "x < 0" "y < 0" by linarith
  then show ?thesis
  proof cases
    case 1
    then show ?thesis using assms
      by (simp add: f64_round_def round_scaled_mono divide_right_mono)
  next
    case 2
    then show ?thesis
      by (simp add: f64_round_def round_scaled_nonneg order_trans [of _ 0])
  next
    case 3
    then show ?thesis using assms
      by (simp add: f64_round_def round_scaled_mono divide_right_mono)
  qed
qed

lemma f64_round_minus: "f64_round (- q) = - f64_round q"
  by (cases q "0::rat" rule: linorder_cases) (simp_all add: f64_round_def)

lemma f64_round_of_nat [simp]: "m < 2 ^ 53 \<Longrightarrow> f64_round (of_nat m) = of_nat m"
  using round_scaled_exact [of m 1074] by (simp add: f64_round_def)

section \<open>Values and durations\<close>

datatype f64 = Fin rat | PosInf | NegInf | NaN

text \<open>A rational that a binary64 holds exactly.\<close>

definition representable :: "rat \<Rightarrow> bool" where
  "representable q \<longleftrightarrow> f64_round q = q"

text \<open>\<^verbatim>\<open>Duration::as_secs_f64\<close>: whole seconds plus the fraction, each rounded.\<close>

definition as_secs_f64 :: "duration \<Rightarrow> rat" where
  "as_secs_f64 d =
     f64_round (f64_round (of_nat (d div nanos_per_sec))
                + f64_round (of_nat (d mod nanos_per_sec) / of_nat nanos_per_sec))"

text \<open>\<^verbatim>\<open>Duration::from_secs_f64\<close>: to the nearest nanosecond, ties to even; a panic on a negative or
  too large argument.\<close>

definition from_secs_f64 :: "rat \<Rightarrow> duration option" where
  "from_secs_f64 x =
     (if x < 0 then None
      else let ns = round_half_even (x * of_nat nanos_per_sec)
           in if ns \<le> int duration_max then Some (nat ns) else None)"

definition mul_f64 :: "duration \<Rightarrow> rat \<Rightarrow> duration option" where
  "mul_f64 d r = from_secs_f64 (f64_round (r * as_secs_f64 d))"

lemma f64_round_0 [simp]: "f64_round 0 = 0"
  by (simp add: f64_round_def)

lemma f64_round_1 [simp]: "f64_round 1 = 1"
  using f64_round_of_nat [of 1] by simp

lemma f64_round_numeral [simp]:
  "numeral n < (2 ^ 53 :: nat) \<Longrightarrow> f64_round (numeral n) = numeral n"
  using f64_round_of_nat [of "numeral n"] by simp

lemma f64_round_nonneg: "0 \<le> x \<Longrightarrow> 0 \<le> f64_round x"
  using f64_round_mono [of 0 x] by simp

lemma f64_round_le_rep: "x \<le> y \<Longrightarrow> f64_round y = y \<Longrightarrow> f64_round x \<le> y"
  using f64_round_mono [of x y] by simp

lemma f64_round_ge_rep: "x \<le> y \<Longrightarrow> f64_round x = x \<Longrightarrow> x \<le> f64_round y"
  using f64_round_mono [of x y] by simp

lemma as_secs_f64_nonneg: "0 \<le> as_secs_f64 d"
  unfolding as_secs_f64_def by (intro f64_round_nonneg add_nonneg_nonneg) simp_all

lemma as_secs_f64_whole:
  assumes "s < 2 ^ 53"
  shows "as_secs_f64 (from_secs s) = of_nat s"
proof -
  have "from_secs s div nanos_per_sec = s" "from_secs s mod nanos_per_sec = 0"
    by (simp_all add: from_secs_def nanos_per_sec_def)
  then show ?thesis using assms by (simp add: as_secs_f64_def)
qed

lemma frac_secs_le_1: "f64_round (of_nat (d mod nanos_per_sec) / of_nat nanos_per_sec) \<le> 1"
proof (rule f64_round_le_rep)
  have "d mod nanos_per_sec \<le> nanos_per_sec" by (simp add: nanos_per_sec_def less_imp_le)
  then have "(of_nat (d mod nanos_per_sec) :: rat) \<le> of_nat nanos_per_sec" by (simp only: of_nat_le_iff)
  then show "of_nat (d mod nanos_per_sec) / of_nat nanos_per_sec \<le> (1::rat)"
    by (simp add: nanos_per_sec_def)
qed simp

lemma as_secs_f64_mono:
  assumes "d \<le> d'" "d' < from_secs (2 ^ 53)"
  shows "as_secs_f64 d \<le> as_secs_f64 d'"
proof (cases "d div nanos_per_sec = d' div nanos_per_sec")
  case True
  then have "d mod nanos_per_sec \<le> d' mod nanos_per_sec"
    using assms(1) div_mult_mod_eq [of d nanos_per_sec] div_mult_mod_eq [of d' nanos_per_sec]
    by (metis add_le_cancel_left)
  then have "(of_nat (d mod nanos_per_sec) :: rat) / of_nat nanos_per_sec
      \<le> of_nat (d' mod nanos_per_sec) / of_nat nanos_per_sec"
    by (intro divide_right_mono) simp_all
  then show ?thesis
    unfolding as_secs_f64_def True by (intro f64_round_mono add_left_mono)
next
  case False
  with div_le_mono [OF assms(1), of nanos_per_sec]
  have lt: "d div nanos_per_sec + 1 \<le> d' div nanos_per_sec" by simp
  have "d' div nanos_per_sec < 2 ^ 53"
    using assms(2) by (intro less_mult_imp_div_less) (simp add: from_secs_def)
  moreover from lt this have "d div nanos_per_sec < 2 ^ 53" by simp
  moreover from lt have "(of_nat (d div nanos_per_sec + 1) :: rat) \<le> of_nat (d' div nanos_per_sec)"
    by (simp only: of_nat_le_iff)
  moreover have "0 \<le> f64_round (of_nat (d' mod nanos_per_sec) / of_nat nanos_per_sec)"
    by (intro f64_round_nonneg) simp
  ultimately show ?thesis
    unfolding as_secs_f64_def
    using frac_secs_le_1 [of d] by (intro f64_round_mono) simp
qed

lemma from_secs_f64_mono:
  assumes "x \<le> y" "0 \<le> x" "from_secs_f64 y = Some d'"
  obtains d where "from_secs_f64 x = Some d" "d \<le> d'"
proof -
  have "round_half_even (x * of_nat nanos_per_sec) \<le> round_half_even (y * of_nat nanos_per_sec)"
    using assms(1) by (intro round_half_even_mono mult_right_mono) simp_all
  then show thesis
    using assms(2,3) that
    by (auto simp: from_secs_f64_def Let_def not_less split: if_splits intro: nat_mono)
qed

lemma mul_f64_mono:
  assumes "0 \<le> r" "r * as_secs_f64 d \<le> r' * as_secs_f64 d'" "mul_f64 d' r' = Some x'"
  obtains x where "mul_f64 d r = Some x" "x \<le> x'"
proof -
  have "f64_round (r * as_secs_f64 d) \<le> f64_round (r' * as_secs_f64 d')"
    using assms(2) by (rule f64_round_mono)
  moreover have "0 \<le> f64_round (r * as_secs_f64 d)"
    using assms(1) as_secs_f64_nonneg by (intro f64_round_nonneg mult_nonneg_nonneg)
  ultimately show thesis
    using assms(3) that unfolding mul_f64_def by (rule from_secs_f64_mono)
qed

lemma from_secs_f64_whole:
  assumes "s < 2 ^ 64"
  shows "from_secs_f64 (of_nat s) = Some (from_secs s)"
proof -
  have "(of_nat s :: rat) * of_nat nanos_per_sec = of_nat (from_secs s)"
    by (simp add: from_secs_def)
  then have "round_half_even ((of_nat s :: rat) * of_nat nanos_per_sec) = int (from_secs s)"
    by (simp only: round_half_even_of_nat)
  moreover have "from_secs s \<le> duration_max"
    using assms by (simp add: from_secs_def duration_max_def nanos_per_sec_def)
  ultimately show ?thesis by (simp add: from_secs_f64_def Let_def)
qed

text \<open>Multiplying a whole number of seconds by \<open>1.0\<close> changes nothing.\<close>

lemma mul_f64_one_whole: "s < 2 ^ 53 \<Longrightarrow> mul_f64 (from_secs s) 1 = Some (from_secs s)"
  by (simp add: mul_f64_def as_secs_f64_whole from_secs_f64_whole)

end
