(* ===== verification/Outbox_Types.thy ===== *)
theory Outbox_Types
  imports Core_Envelope Float64
begin

text \<open>
  The data of \<^verbatim>\<open>reliar-outbox\<close>: \<^verbatim>\<open>record.rs\<close> (the outbox row, its builder and the truncation of
  stored errors), \<^verbatim>\<open>worker.rs\<close>, \<^verbatim>\<open>ordering.rs\<close>, \<^verbatim>\<open>error.rs\<close> and the request and result types of
  \<^verbatim>\<open>store.rs\<close>.
\<close>

section \<open>Worker ids, ordering and configuration errors\<close>

datatype WorkerId = WorkerId string

definition worker_max_len :: nat where
  "worker_max_len = 128"

definition worker_parse :: "string \<Rightarrow> (WorkerId, IdError) result" where
  "worker_parse s =
     (if s = [] then Err IdEmpty
      else if length s > worker_max_len then Err (IdTooLong (length s) worker_max_len)
      else Ok (WorkerId s))"

primrec worker_as_str :: "WorkerId \<Rightarrow> string" where
  "worker_as_str (WorkerId s) = s"

text \<open>A fresh id from the process id and a minted uuid; how a uuid is written is an argument.\<close>

definition worker_generate :: "(uuid \<Rightarrow> string) \<Rightarrow> u32 \<Rightarrow> uuid \<Rightarrow> WorkerId" where
  "worker_generate fmt pid i = WorkerId (show_nat (unat pid) @ '':'' @ fmt i)"

datatype Ordering = Unordered | PerKey

datatype ConfigError =
    ZeroInFlight
  | ZeroBatchSize
  | ZeroPollInterval string
  | StoreTimeoutTooLong duration duration
  | LeaseTooShort duration duration
  | UnsupportedOrdering Ordering string
  | InvalidJitter f64
  | ZeroMaxAttempts
  | ZeroRetryBase
  | RetryPolicyConflict

fun ordering_validate :: "Ordering \<Rightarrow> (unit, ConfigError) result" where
  "ordering_validate Unordered = Ok ()"
| "ordering_validate PerKey = Err (UnsupportedOrdering PerKey ''0.2'')"

section \<open>Truncation of stored errors\<close>

definition max_error_len :: nat where
  "max_error_len = 2048"

text \<open>The marker is U+2026 followed by \<^verbatim>\<open>[truncated]\<close>: 14 bytes of UTF-8.\<close>

definition truncation_marker :: string where
  "truncation_marker = map char_of [226, 128, 166 :: nat] @ ''[truncated]''"

text \<open>The loop \<^verbatim>\<open>while end > 0 && !error.is_char_boundary(end)\<close>.\<close>

fun floor_boundary :: "string \<Rightarrow> nat \<Rightarrow> nat" where
  "floor_boundary error 0 = 0"
| "floor_boundary error (Suc n) =
     (if is_char_boundary error (Suc n) then Suc n else floor_boundary error n)"

definition truncate_error :: "string \<Rightarrow> string" where
  "truncate_error error =
     (if length error \<le> max_error_len then error
      else let budget = max_error_len - length truncation_marker;
               cut = floor_boundary error (min budget (length error))
           in take cut error @ truncation_marker)"

section \<open>Rows and the requests and results of the store\<close>

datatype DeadReason = PermanentError | AttemptsExhausted | Expired | Undecodable

datatype FailureOutcome = Retry duration | Dead DeadReason

record MessageRef =
  mr_id :: MessageId
  mr_created_at :: instant

record OutboxRecord =
  envelope :: SerializedEnvelope
  sequence :: int
  created_at :: instant
  ordering_key :: "string option"
  attempts :: u32
  available_at :: instant
  locked_by :: "WorkerId option"
  locked_until :: "instant option"
  published_at :: "instant option"
  dead_at :: "instant option"
  dead_reason :: "DeadReason option"
  last_error :: "string option"

definition message_ref :: "OutboxRecord \<Rightarrow> MessageRef" where
  "message_ref r = \<lparr>mr_id = env_id (envelope r), mr_created_at = created_at r\<rparr>"

text \<open>\<^verbatim>\<open>OutboxRecordBuilder\<close> has the fields of the record; \<^verbatim>\<open>build\<close> copies them.\<close>

definition record_builder :: "SerializedEnvelope \<Rightarrow> int \<Rightarrow> instant \<Rightarrow> OutboxRecord" where
  "record_builder e s c =
     \<lparr>envelope = e, sequence = s, created_at = c, ordering_key = None, attempts = 0,
      available_at = c, locked_by = None, locked_until = None, published_at = None,
      dead_at = None, dead_reason = None, last_error = None\<rparr>"

definition builder_ordering_key :: "string option \<Rightarrow> OutboxRecord \<Rightarrow> OutboxRecord" where
  "builder_ordering_key k b = b\<lparr>ordering_key := k\<rparr>"

definition builder_attempts :: "u32 \<Rightarrow> OutboxRecord \<Rightarrow> OutboxRecord" where
  "builder_attempts n b = b\<lparr>attempts := n\<rparr>"

definition builder_available_at :: "instant \<Rightarrow> OutboxRecord \<Rightarrow> OutboxRecord" where
  "builder_available_at t b = b\<lparr>available_at := t\<rparr>"

definition builder_lease :: "WorkerId option \<Rightarrow> instant option \<Rightarrow> OutboxRecord \<Rightarrow> OutboxRecord" where
  "builder_lease who until b = b\<lparr>locked_by := who, locked_until := until\<rparr>"

definition builder_published_at :: "instant option \<Rightarrow> OutboxRecord \<Rightarrow> OutboxRecord" where
  "builder_published_at t b = b\<lparr>published_at := t\<rparr>"

definition builder_dead :: "instant option \<Rightarrow> DeadReason option \<Rightarrow> OutboxRecord \<Rightarrow> OutboxRecord" where
  "builder_dead t r b = b\<lparr>dead_at := t, dead_reason := r\<rparr>"

definition builder_last_error :: "string option \<Rightarrow> OutboxRecord \<Rightarrow> OutboxRecord" where
  "builder_last_error e b = b\<lparr>last_error := map_option truncate_error e\<rparr>"

record AcquireRequest =
  ar_worker :: WorkerId
  ar_batch_size :: u32
  ar_lease :: duration
  ar_ordering :: Ordering

definition acquire_request_new :: "WorkerId \<Rightarrow> AcquireRequest" where
  "acquire_request_new w =
     \<lparr>ar_worker = w, ar_batch_size = 100, ar_lease = from_secs 30, ar_ordering = Unordered\<rparr>"

record PoisonedRow =
  pr_id :: MessageId
  pr_sequence :: int
  pr_error :: string

definition poisoned_row_new :: "MessageId \<Rightarrow> int \<Rightarrow> string \<Rightarrow> PoisonedRow" where
  "poisoned_row_new i s e = \<lparr>pr_id = i, pr_sequence = s, pr_error = truncate_error e\<rparr>"

record AcquiredBatch =
  ab_records :: "OutboxRecord list"
  ab_poisoned :: "PoisonedRow list"

definition acquired_batch_is_empty :: "AcquiredBatch \<Rightarrow> bool" where
  "acquired_batch_is_empty b \<longleftrightarrow> ab_records b = [] \<and> ab_poisoned b = []"

record DeadLetterPage =
  dl_records :: "OutboxRecord list"
  dl_poisoned :: "PoisonedRow list"
  next_after_sequence :: "int option"

definition dead_letter_page_is_empty :: "DeadLetterPage \<Rightarrow> bool" where
  "dead_letter_page_is_empty p \<longleftrightarrow> dl_records p = [] \<and> dl_poisoned p = []"

record CompletedMessage =
  cm_message :: MessageRef

record FailedMessage =
  fm_message :: MessageRef
  fm_error :: string
  fm_outcome :: FailureOutcome

definition failed_message_new :: "MessageRef \<Rightarrow> string \<Rightarrow> FailureOutcome \<Rightarrow> FailedMessage" where
  "failed_message_new m e oc = \<lparr>fm_message = m, fm_error = truncate_error e, fm_outcome = oc\<rparr>"

record PurgeRequest =
  published_retention :: "duration option"
  dead_retention :: "duration option"
  pq_batch_size :: u32

definition purge_request_default :: PurgeRequest where
  "purge_request_default =
     \<lparr>published_retention = Some (from_secs (7 * 24 * 60 * 60)), dead_retention = None,
      pq_batch_size = 1000\<rparr>"

record PurgeReport =
  published_deleted :: nat
  dead_deleted :: nat
  expired_to_dead :: nat

definition is_complete :: "u32 \<Rightarrow> PurgeReport \<Rightarrow> bool" where
  "is_complete batch_size r \<longleftrightarrow>
     published_deleted r < unat batch_size \<and> dead_deleted r < unat batch_size
     \<and> expired_to_dead r < unat batch_size"

record OutboxStats =
  pending :: nat
  dead :: nat
  expired_pending :: nat
  oldest_pending_available_at :: "instant option"
  as_of :: instant

definition lag :: "OutboxStats \<Rightarrow> duration option" where
  "lag s = map_option
     (\<lambda>oldest. let diff = as_of s - oldest in if diff < 0 then 0 else nat \<bar>diff\<bar>)
     (oldest_pending_available_at s)"

record DeadQuery =
  dq_message_type :: "string option"
  dq_tenant_id :: "string option"
  dead_before :: "instant option"
  limit :: u32
  after_sequence :: "int option"

definition dead_query_default :: DeadQuery where
  "dead_query_default =
     \<lparr>dq_message_type = None, dq_tenant_id = None, dead_before = None, limit = 100,
      after_sequence = None\<rparr>"

section \<open>Setters and constructors of the requests and results\<close>

definition request_batch_size :: "u32 \<Rightarrow> AcquireRequest \<Rightarrow> AcquireRequest" where
  "request_batch_size n rq = rq\<lparr>ar_batch_size := n\<rparr>"

definition request_lease :: "duration \<Rightarrow> AcquireRequest \<Rightarrow> AcquireRequest" where
  "request_lease d rq = rq\<lparr>ar_lease := d\<rparr>"

definition request_ordering :: "Ordering \<Rightarrow> AcquireRequest \<Rightarrow> AcquireRequest" where
  "request_ordering k rq = rq\<lparr>ar_ordering := k\<rparr>"

definition acquired_batch_new :: "OutboxRecord list \<Rightarrow> PoisonedRow list \<Rightarrow> AcquiredBatch" where
  "acquired_batch_new rs ps = \<lparr>ab_records = rs, ab_poisoned = ps\<rparr>"

definition dead_letter_page_new :: "OutboxRecord list \<Rightarrow> PoisonedRow list \<Rightarrow> int option \<Rightarrow> DeadLetterPage" where
  "dead_letter_page_new rs ps c = \<lparr>dl_records = rs, dl_poisoned = ps, next_after_sequence = c\<rparr>"

definition message_ref_new :: "MessageId \<Rightarrow> instant \<Rightarrow> MessageRef" where
  "message_ref_new i t = \<lparr>mr_id = i, mr_created_at = t\<rparr>"

definition completed_message_new :: "MessageRef \<Rightarrow> CompletedMessage" where
  "completed_message_new m = \<lparr>cm_message = m\<rparr>"

definition purge_published_retention :: "duration option \<Rightarrow> PurgeRequest \<Rightarrow> PurgeRequest" where
  "purge_published_retention d rq = rq\<lparr>published_retention := d\<rparr>"

definition purge_dead_retention :: "duration option \<Rightarrow> PurgeRequest \<Rightarrow> PurgeRequest" where
  "purge_dead_retention d rq = rq\<lparr>dead_retention := d\<rparr>"

definition purge_batch_size_of :: "u32 \<Rightarrow> PurgeRequest \<Rightarrow> PurgeRequest" where
  "purge_batch_size_of n rq = rq\<lparr>pq_batch_size := n\<rparr>"

definition purge_report_new :: "nat \<Rightarrow> nat \<Rightarrow> nat \<Rightarrow> PurgeReport" where
  "purge_report_new p d e = \<lparr>published_deleted = p, dead_deleted = d, expired_to_dead = e\<rparr>"

definition outbox_stats_new :: "nat \<Rightarrow> nat \<Rightarrow> nat \<Rightarrow> instant option \<Rightarrow> instant \<Rightarrow> OutboxStats" where
  "outbox_stats_new p d e oldest t =
     \<lparr>pending = p, dead = d, expired_pending = e, oldest_pending_available_at = oldest, as_of = t\<rparr>"

definition query_message_type :: "string \<Rightarrow> DeadQuery \<Rightarrow> DeadQuery" where
  "query_message_type ty q = q\<lparr>dq_message_type := Some ty\<rparr>"

definition query_tenant_id :: "string \<Rightarrow> DeadQuery \<Rightarrow> DeadQuery" where
  "query_tenant_id tn q = q\<lparr>dq_tenant_id := Some tn\<rparr>"

definition query_dead_before :: "instant \<Rightarrow> DeadQuery \<Rightarrow> DeadQuery" where
  "query_dead_before t q = q\<lparr>dead_before := Some t\<rparr>"

definition query_limit :: "u32 \<Rightarrow> DeadQuery \<Rightarrow> DeadQuery" where
  "query_limit n q = q\<lparr>limit := n\<rparr>"

definition query_after_sequence :: "int \<Rightarrow> DeadQuery \<Rightarrow> DeadQuery" where
  "query_after_sequence c q = q\<lparr>after_sequence := Some c\<rparr>"

section \<open>Properties\<close>

lemma worker_parse_iff:
  "worker_parse s = Ok w \<longleftrightarrow> w = WorkerId s \<and> s \<noteq> [] \<and> length s \<le> worker_max_len"
  by (auto simp: worker_parse_def)

lemma length_show_nat: "n < 10 ^ Suc k \<Longrightarrow> length (show_nat n) \<le> Suc k"
proof (induction k arbitrary: n)
  case (Suc k)
  have "n div 10 < 10 ^ Suc k" using Suc.prems by (simp add: div_less_iff_less_mult mult.commute)
  from Suc.IH [OF this] show ?case by (subst show_nat.simps) simp
qed (simp add: show_nat.simps)

text \<open>A uuid is written in 36 bytes, so a generated id is one that \<^verbatim>\<open>parse\<close> accepts.\<close>

lemma worker_generate_valid:
  assumes "length (fmt i) \<le> 117"
  shows "worker_parse (worker_as_str (worker_generate fmt pid i)) = Ok (worker_generate fmt pid i)"
proof -
  have "unat pid < 10 ^ Suc 9" using unsigned_less [of pid, where 'a = nat] by simp
  from length_show_nat [OF this] assms show ?thesis by (simp add: worker_generate_def worker_parse_iff worker_max_len_def)
qed

lemma ordering_validate_iff: "ordering_validate o' = Ok () \<longleftrightarrow> o' = Unordered"
  by (cases o') simp_all

lemma floor_boundary_le: "floor_boundary s n \<le> n"
  by (induction n) auto

lemma is_char_boundary_0 [simp]: "is_char_boundary s 0"
  by (simp add: is_char_boundary_def)

lemma floor_boundary_boundary: "is_char_boundary s (floor_boundary s n)"
  by (induction n) auto

lemma floor_boundary_greatest:
  "is_char_boundary s m \<Longrightarrow> m \<le> n \<Longrightarrow> m \<le> floor_boundary s n"
  by (induction n) (auto simp: le_Suc_eq)

lemma length_truncation_marker: "length truncation_marker = 14"
  by (simp add: truncation_marker_def)

lemma utf8_truncation_marker: "utf8 truncation_marker"
  by code_simp

text \<open>C35. An error text is stored unchanged up to 2048 bytes; a longer one becomes a prefix of
  itself, cut at a character boundary at most three bytes short of the budget, followed by the
  truncation marker. The result is well-formed UTF-8 of at most 2048 bytes, so truncating again
  changes nothing, and the slice \<^verbatim>\<open>error[..end]\<close> never panics.\<close>

theorem truncate_error_correct:
  assumes "utf8 error"
  shows "utf8 (truncate_error error) \<and> length (truncate_error error) \<le> 2048
    \<and> truncate_error (truncate_error error) = truncate_error error
    \<and> (if length error \<le> 2048 then truncate_error error = error
       else \<exists>n \<le> length error. 2031 \<le> n \<and> n \<le> 2034 \<and> is_char_boundary error n
              \<and> truncate_error error = take n error @ truncation_marker)"
proof (cases "length error \<le> 2048")
  case True
  then show ?thesis using assms by (simp add: truncate_error_def max_error_len_def)
next
  case False
  define n where "n = floor_boundary error 2034"
  have t: "truncate_error error = take n error @ truncation_marker"
    using False
    by (simp add: truncate_error_def max_error_len_def length_truncation_marker n_def Let_def
        min_def)
  have n: "n \<le> 2034" and b: "is_char_boundary error n"
    by (simp_all only: n_def floor_boundary_le floor_boundary_boundary)
  from boundary_within_3 [OF assms, of 2034] False obtain j where
    "j \<le> 2034" "2034 \<le> j + 3" "is_char_boundary error j" by auto
  then have low: "2031 \<le> n" using floor_boundary_greatest [of error j 2034] by (simp add: n_def)
  have len: "length (truncate_error error) \<le> 2048"
    using n False by (simp add: t length_truncation_marker)
  then have "truncate_error (truncate_error error) = truncate_error error"
    by (subst truncate_error_def) (simp add: max_error_len_def)
  moreover have "utf8 (truncate_error error)"
    unfolding t by (intro utf8_append utf8_take_boundary assms b utf8_truncation_marker)
  moreover have "\<exists>n \<le> length error. 2031 \<le> n \<and> n \<le> 2034 \<and> is_char_boundary error n
      \<and> truncate_error error = take n error @ truncation_marker"
    using False n low b t by (intro exI [of _ n]) simp
  ultimately show ?thesis using False len by simp
qed

text \<open>An instance: 3000 bytes of ASCII.\<close>

lemma utf8_replicate_a: "utf8 (replicate n CHR ''a'')"
  by (induction n) (simp_all add: utf8_def utf8_width_def byte_def)

theorem truncate_error_correct_witness:
  "length (truncate_error (replicate 3000 CHR ''a'')) \<le> 2048
   \<and> (\<exists>n \<le> 3000. 2031 \<le> n \<and> n \<le> 2034
        \<and> truncate_error (replicate 3000 CHR ''a'')
            = take n (replicate 3000 CHR ''a'') @ truncation_marker)"
  using truncate_error_correct [OF utf8_replicate_a, of 3000] by (simp del: take_replicate) blast

end
