(* ===== verification/Retry.thy ===== *)
theory Retry
  imports Outbox_Types
begin

text \<open>
  \<^verbatim>\<open>reliar-outbox/src/retry.rs\<close>: the exponential-backoff retry policy. The 64 random bits behind
  the jitter are an argument of \<open>next_outcome\<close>; a panic of \<^verbatim>\<open>Duration::mul_f64\<close> is \<^const>\<open>None\<close>.
\<close>

record ExponentialBackoff =
  base :: duration
  max_delay :: duration
  max_attempts :: u32
  jitter :: f64

definition backoff_default :: ExponentialBackoff where
  "backoff_default =
     \<lparr>base = from_secs 1, max_delay = from_secs (5 * 60), max_attempts = 10,
      jitter = Fin (f64_round (1/5))\<rparr>"

definition backoff_base :: "duration \<Rightarrow> ExponentialBackoff \<Rightarrow> ExponentialBackoff" where
  "backoff_base d b = b\<lparr>base := d\<rparr>"

definition backoff_max_delay :: "duration \<Rightarrow> ExponentialBackoff \<Rightarrow> ExponentialBackoff" where
  "backoff_max_delay d b = b\<lparr>max_delay := d\<rparr>"

definition backoff_max_attempts :: "u32 \<Rightarrow> ExponentialBackoff \<Rightarrow> ExponentialBackoff" where
  "backoff_max_attempts n b = b\<lparr>max_attempts := n\<rparr>"

definition backoff_jitter :: "f64 \<Rightarrow> ExponentialBackoff \<Rightarrow> ExponentialBackoff" where
  "backoff_jitter j b = b\<lparr>jitter := j\<rparr>"

fun jitter_in_range :: "f64 \<Rightarrow> bool" where
  "jitter_in_range (Fin q) = (0 \<le> q \<and> q < 1)"
| "jitter_in_range _ = False"

definition backoff_validate :: "ExponentialBackoff \<Rightarrow> (unit, ConfigError) result" where
  "backoff_validate self =
     (if \<not> jitter_in_range (jitter self) then Err (InvalidJitter (jitter self))
      else if max_attempts self = 0 then Err ZeroMaxAttempts
      else if base self = 0 then Err ZeroRetryBase
      else Ok ())"

text \<open>\<^verbatim>\<open>jitter.clamp(0.0, 1.0)\<close> of a finite value, \<open>0\<close> of any other.\<close>

fun sane_jitter :: "f64 \<Rightarrow> rat" where
  "sane_jitter (Fin q) = (if q < 0 then 0 else if 1 < q then 1 else q)"
| "sane_jitter _ = 0"

definition unit_fraction :: "nat \<Rightarrow> rat" where
  "unit_fraction entropy = f64_round (f64_round (of_nat entropy) / f64_round (2 ^ 64 - 1))"

definition jitter_factor :: "f64 \<Rightarrow> nat \<Rightarrow> rat" where
  "jitter_factor jit entropy =
     (let j = sane_jitter jit
      in if j \<le> 0 then 1
         else max (f64_round (1 + f64_round
                (j * f64_round (f64_round (2 * unit_fraction entropy) - 1)))) 0)"

text \<open>\<^verbatim>\<open>2u32.saturating_pow(attempts)\<close>.\<close>

definition saturating_pow2 :: "u32 \<Rightarrow> nat" where
  "saturating_pow2 n = (if unat n < 32 then 2 ^ unat n else 2 ^ 32 - 1)"

definition capped_delay :: "ExponentialBackoff \<Rightarrow> u32 \<Rightarrow> duration" where
  "capped_delay self n =
     min (duration_saturating_mul (base self) (saturating_pow2 n)) (max_delay self)"

definition next_outcome ::
    "ExponentialBackoff \<Rightarrow> nat \<Rightarrow> u32 \<Rightarrow> FailureKind \<Rightarrow> FailureOutcome option" where
  "next_outcome self entropy n kind =
     (if kind = Permanent then Some (Dead PermanentError)
      else if saturating_add n 1 \<ge> max_attempts self then Some (Dead AttemptsExhausted)
      else map_option Retry
             (mul_f64 (capped_delay self n) (jitter_factor (jitter self) entropy)))"

section \<open>Lemmas\<close>

lemma backoff_validate_iff:
  "backoff_validate b = Ok () \<longleftrightarrow> jitter_in_range (jitter b) \<and> max_attempts b \<noteq> 0 \<and> base b \<noteq> 0"
  by (simp add: backoff_validate_def)

lemma sane_jitter_range: "0 \<le> sane_jitter j" "sane_jitter j \<le> 1"
  by (cases j; simp)+

lemma unit_fraction_range:
  assumes "entropy < 2 ^ 64"
  shows "0 \<le> unit_fraction entropy" "unit_fraction entropy \<le> 1"
proof -
  have pos: "1 \<le> f64_round (2 ^ 64 - 1)" by (rule f64_round_ge_rep) simp_all
  have "entropy \<le> 2 ^ 64 - 1" using assms by simp
  then have "(of_nat entropy :: rat) \<le> of_nat (2 ^ 64 - 1)" by (simp only: of_nat_le_iff)
  then have "f64_round (of_nat entropy) \<le> f64_round (2 ^ 64 - 1)"
    by (intro f64_round_mono) simp
  with pos have "f64_round (of_nat entropy) / f64_round (2 ^ 64 - 1) \<le> 1" by simp
  then show "unit_fraction entropy \<le> 1"
    unfolding unit_fraction_def by (rule f64_round_le_rep) simp
  show "0 \<le> unit_fraction entropy"
    unfolding unit_fraction_def using pos
    by (intro f64_round_nonneg divide_nonneg_nonneg) (simp_all add: f64_round_nonneg)
qed

lemma centred_range:
  assumes "entropy < 2 ^ 64"
  defines "w \<equiv> f64_round (f64_round (2 * unit_fraction entropy) - 1)"
  shows "-1 \<le> w" "w \<le> 1"
proof -
  from unit_fraction_range [OF assms(1)]
  have "0 \<le> f64_round (2 * unit_fraction entropy)" "f64_round (2 * unit_fraction entropy) \<le> 2"
    by (simp_all add: f64_round_nonneg f64_round_le_rep)
  then show "-1 \<le> w" "w \<le> 1"
    unfolding w_def
    by (intro f64_round_ge_rep f64_round_le_rep; simp add: f64_round_minus)+
qed

lemma jitter_factor_range:
  assumes "entropy < 2 ^ 64" "representable (sane_jitter j)"
  shows "f64_round (1 - sane_jitter j) \<le> jitter_factor j entropy"
    "jitter_factor j entropy \<le> f64_round (1 + sane_jitter j)" "0 \<le> jitter_factor j entropy"
proof -
  define s where "s = sane_jitter j"
  define w where "w = f64_round (f64_round (2 * unit_fraction entropy) - 1)"
  note w = centred_range [OF assms(1), folded w_def]
  have s: "0 \<le> s" "s \<le> 1" "f64_round s = s"
    using sane_jitter_range [of j] assms(2) by (simp_all add: s_def representable_def)
  have "s * -1 \<le> s * w" "s * w \<le> s * 1" using s(1) w by (intro mult_left_mono; simp)+
  then have jw: "- s \<le> f64_round (s * w)" "f64_round (s * w) \<le> s"
    using s(3) by (auto intro!: f64_round_ge_rep f64_round_le_rep simp: f64_round_minus)
  then have "f64_round (1 - s) \<le> f64_round (1 + f64_round (s * w))"
    "f64_round (1 + f64_round (s * w)) \<le> f64_round (1 + s)"
    by (intro f64_round_mono; simp)+
  moreover have "0 \<le> f64_round (1 + s)" "0 \<le> f64_round (1 - s)"
    using s by (intro f64_round_nonneg; simp)+
  ultimately show "f64_round (1 - sane_jitter j) \<le> jitter_factor j entropy"
    "jitter_factor j entropy \<le> f64_round (1 + sane_jitter j)" "0 \<le> jitter_factor j entropy"
    using s by (auto simp: jitter_factor_def Let_def w_def s_def max_def)
qed

lemma saturating_pow2_mono: "a \<le> b \<Longrightarrow> saturating_pow2 a \<le> saturating_pow2 b"
proof -
  assume "a \<le> b"
  then have ab: "unat a \<le> unat b" by (simp add: word_le_nat_alt)
  have "(2::nat) ^ k \<le> 2 ^ 32 - 1" if "k < 32" for k
  proof -
    have "(2::nat) ^ k \<le> 2 ^ 31" using that by (intro power_increasing) simp_all
    then show ?thesis by simp
  qed
  with ab show ?thesis by (auto simp: saturating_pow2_def intro: power_increasing)
qed

lemma capped_delay_mono: "a \<le> b \<Longrightarrow> capped_delay p a \<le> capped_delay p b"
  unfolding capped_delay_def
  by (intro min.mono duration_saturating_mul_mono saturating_pow2_mono) simp_all

lemma capped_delay_le: "capped_delay p n \<le> max_delay p"
  by (simp add: capped_delay_def)

text \<open>No multiplication by at most two of a duration below \<open>2 ^ 52\<close> seconds panics.\<close>

lemma mul_f64_Some:
  assumes "0 \<le> r" "r \<le> 2" "d < from_secs (2 ^ 51)"
  obtains x where "mul_f64 d r = Some x"
proof -
  have "r * as_secs_f64 d \<le> 2 * as_secs_f64 (from_secs (2 ^ 51))"
    using assms by (intro mult_mono as_secs_f64_mono as_secs_f64_nonneg)
      (simp_all add: from_secs_def nanos_per_sec_def)
  moreover have "mul_f64 (from_secs (2 ^ 51)) 2 = Some (from_secs (2 ^ 52))"
    using from_secs_f64_whole [of "2 ^ 52"] as_secs_f64_whole [of "2 ^ 51"] by (simp add: mul_f64_def)
  ultimately show thesis using mul_f64_mono [OF assms(1)] that by metis
qed

lemma saturating_add_ge:
  fixes n m :: u32
  shows "saturating_add n 1 \<ge> m \<longleftrightarrow> unat m \<le> unat n + 1"
  using unsigned_less [of m, where 'a = nat] by (auto simp: word_le_nat_alt unat_saturating_add min_def)

lemma f64_round_power2: "f64_round (2 ^ k) = 2 ^ k"
  using round_scaled_exact [of 1 "k + 1074"] by (simp add: f64_round_def power_add)

lemma f64_round_u64_max: "f64_round (2 ^ 64 - 1) = 2 ^ 64"
proof -
  let ?n = "(2 ^ 64 - 1) * 2 ^ 1074 :: nat"
  have fl: "floorlog 2 ?n = 1138"
  proof (rule antisym)
    have p: "(2::nat) ^ (1138 - 1) = 2 ^ 63 * 2 ^ 1074" "(2::nat) ^ 1138 = 2 ^ 64 * 2 ^ 1074"
      by (simp_all only: power_add [symmetric]) simp_all
    show "floorlog 2 ?n \<le> 1138" unfolding floorlog_le_iff p by simp
    show "1138 \<le> floorlog 2 ?n" by (rule floorlog_geI) (simp_all only: p, simp_all)
  qed
  have t: "(2 ^ 64 - 1) * 2 ^ 1074 = (of_nat ?n :: rat)" by simp
  have eb: "excess_bits ((2 ^ 64 - 1) * 2 ^ 1074) = 1085"
    unfolding excess_bits_def t floor_of_nat nat_int fl by simp
  have p: "(2::rat) ^ 1085 = 2 ^ 11 * 2 ^ 1074" by (simp only: power_add [symmetric]) simp
  have "(2 ^ 64 - 1) * 2 ^ 1074 / (2 ^ 1085 :: rat) = (2 ^ 64 - 1) / 2 ^ 11"
    unfolding p by (rule mult_divide_mult_cancel_right) simp
  moreover have "round_half_even ((2 ^ 64 - 1) / 2 ^ 11) = 2 ^ 53"
    by code_simp
  ultimately have "round_scaled ((2 ^ 64 - 1) * 2 ^ 1074) = 2 ^ 1085 * 2 ^ 53"
    unfolding round_scaled_def Let_def eb by (simp only:)
  moreover have "(2::rat) ^ 1085 * 2 ^ 53 = 2 ^ 64 * 2 ^ 1074"
    by (simp only: power_add [symmetric]) simp
  ultimately show ?thesis
    unfolding f64_round_def by simp
qed

lemma from_secs_f64_overflow: "2 ^ 64 \<le> x \<Longrightarrow> from_secs_f64 x = None"
proof -
  assume x: "2 ^ 64 \<le> x"
  then have "of_int (2 ^ 64 * int nanos_per_sec) \<le> x * of_nat nanos_per_sec"
    by (simp add: nanos_per_sec_def)
  then have "2 ^ 64 * int nanos_per_sec \<le> round_half_even (x * of_nat nanos_per_sec)"
    using round_half_even_mono round_half_even_of_int by metis
  then show ?thesis
    by (simp add: from_secs_f64_def Let_def duration_max_def nanos_per_sec_def)
qed

lemma mul_f64_duration_max: "mul_f64 duration_max 1 = None"
proof -
  have dm: "duration_max div nanos_per_sec = 2 ^ 64 - 1"
    by (simp add: duration_max_def nanos_per_sec_def)
  have u: "f64_round (of_nat (2 ^ 64 - 1)) = 2 ^ 64"
    using f64_round_u64_max by (simp add: of_nat_diff)
  have "2 ^ 64 \<le> as_secs_f64 duration_max"
    unfolding as_secs_f64_def dm u
    by (rule f64_round_ge_rep) (simp_all only: f64_round_power2 le_add_same_cancel1,
      simp add: f64_round_nonneg)
  then have "2 ^ 64 \<le> f64_round (1 * as_secs_f64 duration_max)"
    by (intro f64_round_ge_rep) (simp_all only: f64_round_power2 mult_1)
  then show ?thesis unfolding mul_f64_def by (rule from_secs_f64_overflow)
qed

section \<open>Properties\<close>

text \<open>C18. The retry decision of a validated policy whose cap is below \<open>2 ^ 51\<close> seconds, for every
  random draw: a permanent failure is dead at once; a transient one is dead exactly when this
  attempt reaches \<^verbatim>\<open>max_attempts\<close>; otherwise it is retried, no panic, and the delay lies between
  the capped exponential delay multiplied by \<open>1 - jitter\<close> and by \<open>1 + jitter\<close>.\<close>

theorem next_outcome_correct:
  assumes "backoff_validate p = Ok ()" "jitter p = Fin j" "representable j"
    and "max_delay p < from_secs (2 ^ 51)" "entropy < 2 ^ 64"
  shows "next_outcome p entropy n Permanent = Some (Dead PermanentError)
    \<and> (if unat (max_attempts p) \<le> unat n + 1
       then next_outcome p entropy n Transient = Some (Dead AttemptsExhausted)
       else \<exists>lo d hi. next_outcome p entropy n Transient = Some (Retry d)
              \<and> mul_f64 (capped_delay p n) (f64_round (1 - j)) = Some lo
              \<and> mul_f64 (capped_delay p n) (f64_round (1 + j)) = Some hi
              \<and> lo \<le> d \<and> d \<le> hi)"
proof -
  from assms(1,2) have j: "0 \<le> j" "j < 1" by (simp_all add: backoff_validate_iff)
  then have sj: "sane_jitter (jitter p) = j" using assms(2) by simp
  let ?c = "capped_delay p n" and ?f = "jitter_factor (jitter p) entropy"
  have f: "f64_round (1 - j) \<le> ?f" "?f \<le> f64_round (1 + j)" "0 \<le> ?f"
    using jitter_factor_range [of entropy "jitter p"] assms(3,5) by (simp_all add: sj)
  have lo0: "0 \<le> f64_round (1 - j)" using j by (intro f64_round_nonneg) simp
  have "f64_round (1 + j) \<le> 2" using j by (intro f64_round_le_rep) simp_all
  moreover have "?c < from_secs (2 ^ 51)" using capped_delay_le [of p n] assms(4) by simp
  ultimately obtain hi where hi: "mul_f64 ?c (f64_round (1 + j)) = Some hi"
    using mul_f64_Some f by (metis order_trans)
  have le: "r \<le> r' \<Longrightarrow> r * as_secs_f64 ?c \<le> r' * as_secs_f64 ?c" for r r'
    by (rule mult_right_mono [OF _ as_secs_f64_nonneg])
  obtain d where d: "mul_f64 ?c ?f = Some d" "d \<le> hi"
    using mul_f64_mono [OF f(3) le [OF f(2)] hi] .
  obtain lo where lo: "mul_f64 ?c (f64_round (1 - j)) = Some lo" "lo \<le> d"
    using mul_f64_mono [OF lo0 le [OF f(1)] d(1)] .
  show ?thesis using hi d lo by (simp add: next_outcome_def saturating_add_ge)
qed

text \<open>An instance: the default policy without jitter, on its second attempt and its last.\<close>

lemma representable_0 [simp]: "representable 0"
  by (simp add: representable_def)

theorem next_outcome_correct_witness:
  "next_outcome (backoff_default\<lparr>jitter := Fin 0\<rparr>) 7 9 Transient = Some (Dead AttemptsExhausted)
   \<and> (\<exists>lo d hi. next_outcome (backoff_default\<lparr>jitter := Fin 0\<rparr>) 7 1 Transient = Some (Retry d)
        \<and> mul_f64 (capped_delay (backoff_default\<lparr>jitter := Fin 0\<rparr>) 1) (f64_round (1 - 0)) = Some lo
        \<and> mul_f64 (capped_delay (backoff_default\<lparr>jitter := Fin 0\<rparr>) 1) (f64_round (1 + 0)) = Some hi
        \<and> lo \<le> d \<and> d \<le> hi)"
  using next_outcome_correct [of "backoff_default\<lparr>jitter := Fin 0\<rparr>" 0 7 9]
    next_outcome_correct [of "backoff_default\<lparr>jitter := Fin 0\<rparr>" 0 7 1]
  by (simp add: backoff_validate_iff backoff_default_def from_secs_def nanos_per_sec_def)

text \<open>Without jitter the delay of a policy in whole seconds is exactly
  \<open>min (base * 2 ^ attempts) max_delay\<close>, the power saturating at \<^verbatim>\<open>u32::MAX\<close>: it never decreases
  with the number of attempts, never exceeds the cap and never falls below the smaller of the
  base and the cap.\<close>

lemma next_outcome_without_jitter:
  assumes "backoff_validate p = Ok ()" "jitter p = Fin 0" "unat n + 1 < unat (max_attempts p)"
    and "base p = from_secs b" "max_delay p = from_secs m" "b < 2 ^ 32" "m < 2 ^ 51"
  shows "next_outcome p entropy n Transient =
      Some (Retry (min (from_secs (b * saturating_pow2 n)) (from_secs m)))
    \<and> min (from_secs b) (from_secs m) \<le> min (from_secs (b * saturating_pow2 n)) (from_secs m)"
proof -
  have pow: "1 \<le> saturating_pow2 n" "saturating_pow2 n \<le> 2 ^ 32 - 1"
    using saturating_pow2_mono [of 0 n] saturating_pow2_mono [of n "-1"]
    by (simp_all add: saturating_pow2_def unat_minus_one_word_eq split: if_splits)
  have "from_secs b * saturating_pow2 n \<le> duration_max"
  proof -
    have "b * saturating_pow2 n \<le> 2 ^ 32 * (2 ^ 32 - 1)"
      using assms(6) pow(2) by (intro mult_mono) simp_all
    then show ?thesis by (simp add: from_secs_def duration_max_def nanos_per_sec_def)
  qed
  then have "capped_delay p n = min (from_secs (b * saturating_pow2 n)) (from_secs m)"
    using assms(4,5) by (simp add: capped_delay_def duration_saturating_mul_def from_secs_def mult_ac)
  also have "\<dots> = from_secs (min (b * saturating_pow2 n) m)"
    by (simp add: from_secs_def min_def nanos_per_sec_def)
  finally have "mul_f64 (capped_delay p n) 1
      = Some (min (from_secs (b * saturating_pow2 n)) (from_secs m))"
    using mul_f64_one_whole [of "min (b * saturating_pow2 n) m"] assms(7)
    by (simp add: from_secs_def min_def nanos_per_sec_def)
  moreover have "from_secs b \<le> from_secs (b * saturating_pow2 n)"
    using pow(1) by (simp add: from_secs_def nanos_per_sec_def)
  ultimately show ?thesis
    using assms(2,3)
    by (simp add: next_outcome_def saturating_add_ge jitter_factor_def min.coboundedI1 min.mono)
qed

text \<open>An instance: the fourth failure under the default policy without jitter waits 8 seconds.\<close>

theorem next_outcome_without_jitter_witness:
  "next_outcome (backoff_default\<lparr>jitter := Fin 0\<rparr>) 7 3 Transient = Some (Retry (from_secs 8))"
  using next_outcome_without_jitter [of "backoff_default\<lparr>jitter := Fin 0\<rparr>" 3 1 300 7]
  by (simp add: backoff_validate_iff backoff_default_def saturating_pow2_def from_secs_def
      nanos_per_sec_def)

text \<open>C38. What validation lets through: a policy with a zero \<^verbatim>\<open>max_delay\<close> passes
  \<^verbatim>\<open>ExponentialBackoff::validate\<close> and retries without any delay, and one whose base and cap are
  the largest \<^verbatim>\<open>Duration\<close> passes it and makes \<^verbatim>\<open>next\<close> panic, without jitter, for the capped delay
  rounds up to \<open>2 ^ 64\<close> seconds in binary64.\<close>

theorem validate_admits_zero_delay_and_panic:
  "backoff_validate (backoff_default\<lparr>jitter := Fin 0, max_delay := 0\<rparr>) = Ok ()
   \<and> next_outcome (backoff_default\<lparr>jitter := Fin 0, max_delay := 0\<rparr>) entropy 0 Transient = Some (Retry 0)
   \<and> backoff_validate (backoff_default\<lparr>jitter := Fin 0, base := duration_max, max_delay := duration_max\<rparr>)
       = Ok ()
   \<and> next_outcome (backoff_default\<lparr>jitter := Fin 0, base := duration_max, max_delay := duration_max\<rparr>)
       entropy 0 Transient = None"
proof -
  have "mul_f64 0 1 = Some 0" using mul_f64_one_whole [of 0] by (simp add: from_secs_def)
  moreover have "duration_max \<noteq> 0" by (simp add: duration_max_def nanos_per_sec_def)
  ultimately show ?thesis
    using mul_f64_duration_max
    by (simp add: backoff_validate_iff backoff_default_def next_outcome_def saturating_add_ge
        jitter_factor_def capped_delay_def duration_saturating_mul_def saturating_pow2_def
        from_secs_def nanos_per_sec_def)
qed

end
