(* ===== verification/Settings.thy ===== *)
theory Settings
  imports Retry
begin

text \<open>
  \<^verbatim>\<open>reliar-outbox/src/settings.rs\<close> and \<^verbatim>\<open>policy.rs\<close>: the settings structures with their defaults and
  setters, the validated lists of message-type names, the opt-in environment loader and the
  routing policy. The process environment is a function from variable names to \<open>env_var\<close>.
\<close>

section \<open>Message-type names\<close>

type_synonym MessageTypeNames = "string list"

definition is_versioned_message_type_name :: "string \<Rightarrow> bool" where
  "is_versioned_message_type_name name =
     (case rsplit_once ''.v'' name of
        Some (_, suffix) \<Rightarrow> suffix \<noteq> [] \<and> list_all is_ascii_digit suffix
      | None \<Rightarrow> False)"

definition names_validated :: "string \<Rightarrow> string list \<Rightarrow> (MessageTypeNames, SettingsError) result" where
  "names_validated field names =
     (if list_ex is_versioned_message_type_name names
      then Err (SettingsParse field ''message type names without a version suffix'')
      else Ok names)"

definition names_parse :: "string \<Rightarrow> string \<Rightarrow> (MessageTypeNames, SettingsError) result" where
  "names_parse field l =
     names_validated field (filter (\<lambda>name. name \<noteq> []) (map trim (split_on CHR '','' l)))"

definition names_try_from_iter ::
    "string \<Rightarrow> string list \<Rightarrow> (MessageTypeNames, SettingsError) result" where
  "names_try_from_iter field names =
     (let out = map trim names
      in if [] \<in> set out then Err (SettingsParse field ''non-empty message type names'')
         else names_validated field out)"

definition names_contains :: "MessageTypeNames \<Rightarrow> string \<Rightarrow> bool" where
  "names_contains names name = list_ex (\<lambda>n. n = name) names"

definition check_disjoint ::
    "string \<Rightarrow> MessageTypeNames \<Rightarrow> MessageTypeNames \<Rightarrow> (unit, SettingsError) result" where
  "check_disjoint key allowed disallowed =
     (if list_ex (names_contains disallowed) allowed
      then Err (OutOfRange key
        ''a message type may not appear in both allowed_types and disallowed_types'')
      else Ok ())"

section \<open>Settings structures\<close>

record DispatcherSettings =
  batch_size :: u32
  lease :: duration
  max_in_flight :: nat
  publish_timeout :: duration
  poll_interval :: duration
  idle_poll_interval :: duration
  drain_timeout :: duration
  store_timeout :: duration
  stats_interval :: duration
  ordering :: Ordering
  retry :: ExponentialBackoff
  worker_id :: "WorkerId option"

record RetentionSettings =
  rs_published_retention :: duration
  rs_dead_retention :: "duration option"
  purge_batch_size :: u32

record OutboxSettings =
  dispatcher :: DispatcherSettings
  retention :: RetentionSettings
  enabled :: bool
  allowed_types :: MessageTypeNames
  disallowed_types :: MessageTypeNames

definition dispatcher_settings_default :: DispatcherSettings where
  "dispatcher_settings_default =
     \<lparr>batch_size = 100, lease = from_secs 30, max_in_flight = 16, publish_timeout = from_secs 10,
      poll_interval = from_millis 500, idle_poll_interval = from_secs 5,
      drain_timeout = from_secs 30, store_timeout = from_secs 10, stats_interval = from_secs 15,
      ordering = Unordered, retry = backoff_default, worker_id = None\<rparr>"

definition retention_settings_default :: RetentionSettings where
  "retention_settings_default =
     \<lparr>rs_published_retention = from_secs (7 * 24 * 60 * 60), rs_dead_retention = None,
      purge_batch_size = 1000\<rparr>"

definition outbox_settings_default :: OutboxSettings where
  "outbox_settings_default =
     \<lparr>dispatcher = dispatcher_settings_default, retention = retention_settings_default,
      enabled = True, allowed_types = [], disallowed_types = []\<rparr>"

subsection \<open>Setters\<close>

definition set_batch_size :: "u32 \<Rightarrow> DispatcherSettings \<Rightarrow> DispatcherSettings" where
  "set_batch_size v self = self\<lparr>batch_size := v\<rparr>"

definition set_lease :: "duration \<Rightarrow> DispatcherSettings \<Rightarrow> DispatcherSettings" where
  "set_lease v self = self\<lparr>lease := v\<rparr>"

definition set_max_in_flight :: "nat \<Rightarrow> DispatcherSettings \<Rightarrow> DispatcherSettings" where
  "set_max_in_flight v self = self\<lparr>max_in_flight := v\<rparr>"

definition set_publish_timeout :: "duration \<Rightarrow> DispatcherSettings \<Rightarrow> DispatcherSettings" where
  "set_publish_timeout v self = self\<lparr>publish_timeout := v\<rparr>"

definition set_poll_interval :: "duration \<Rightarrow> DispatcherSettings \<Rightarrow> DispatcherSettings" where
  "set_poll_interval v self = self\<lparr>poll_interval := v\<rparr>"

definition set_idle_poll_interval :: "duration \<Rightarrow> DispatcherSettings \<Rightarrow> DispatcherSettings" where
  "set_idle_poll_interval v self = self\<lparr>idle_poll_interval := v\<rparr>"

definition set_drain_timeout :: "duration \<Rightarrow> DispatcherSettings \<Rightarrow> DispatcherSettings" where
  "set_drain_timeout v self = self\<lparr>drain_timeout := v\<rparr>"

definition set_store_timeout :: "duration \<Rightarrow> DispatcherSettings \<Rightarrow> DispatcherSettings" where
  "set_store_timeout v self = self\<lparr>store_timeout := v\<rparr>"

definition set_stats_interval :: "duration \<Rightarrow> DispatcherSettings \<Rightarrow> DispatcherSettings" where
  "set_stats_interval v self = self\<lparr>stats_interval := v\<rparr>"

definition set_ordering :: "Ordering \<Rightarrow> DispatcherSettings \<Rightarrow> DispatcherSettings" where
  "set_ordering v self = self\<lparr>ordering := v\<rparr>"

definition set_retry :: "ExponentialBackoff \<Rightarrow> DispatcherSettings \<Rightarrow> DispatcherSettings" where
  "set_retry v self = self\<lparr>retry := v\<rparr>"

definition set_worker_id :: "WorkerId \<Rightarrow> DispatcherSettings \<Rightarrow> DispatcherSettings" where
  "set_worker_id v self = self\<lparr>worker_id := Some v\<rparr>"

definition set_published_retention :: "duration \<Rightarrow> RetentionSettings \<Rightarrow> RetentionSettings" where
  "set_published_retention v self = self\<lparr>rs_published_retention := v\<rparr>"

definition set_dead_retention :: "duration option \<Rightarrow> RetentionSettings \<Rightarrow> RetentionSettings" where
  "set_dead_retention v self = self\<lparr>rs_dead_retention := v\<rparr>"

definition set_purge_batch_size :: "u32 \<Rightarrow> RetentionSettings \<Rightarrow> RetentionSettings" where
  "set_purge_batch_size v self = self\<lparr>purge_batch_size := v\<rparr>"

definition set_dispatcher :: "DispatcherSettings \<Rightarrow> OutboxSettings \<Rightarrow> OutboxSettings" where
  "set_dispatcher v self = self\<lparr>dispatcher := v\<rparr>"

definition set_retention :: "RetentionSettings \<Rightarrow> OutboxSettings \<Rightarrow> OutboxSettings" where
  "set_retention v self = self\<lparr>retention := v\<rparr>"

definition set_enabled :: "bool \<Rightarrow> OutboxSettings \<Rightarrow> OutboxSettings" where
  "set_enabled v self = self\<lparr>enabled := v\<rparr>"

definition set_allowed_types ::
    "MessageTypeNames \<Rightarrow> OutboxSettings \<Rightarrow> (OutboxSettings, SettingsError) result" where
  "set_allowed_types allowed self =
     and_then (check_disjoint ''allowed_types'' allowed (disallowed_types self))
       (\<lambda>_. Ok (self\<lparr>allowed_types := allowed\<rparr>))"

definition set_disallowed_types ::
    "MessageTypeNames \<Rightarrow> OutboxSettings \<Rightarrow> (OutboxSettings, SettingsError) result" where
  "set_disallowed_types disallowed self =
     and_then (check_disjoint ''disallowed_types'' (allowed_types self) disallowed)
       (\<lambda>_. Ok (self\<lparr>disallowed_types := disallowed\<rparr>))"

text \<open>The \<^verbatim>\<open>serde\<close> conversion: the deserialized representation is validated before it is used.\<close>

record OutboxSettingsRepr =
  repr_dispatcher :: DispatcherSettings
  repr_retention :: RetentionSettings
  repr_enabled :: bool
  repr_allowed_types :: "string list"
  repr_disallowed_types :: "string list"

definition settings_try_from :: "OutboxSettingsRepr \<Rightarrow> (OutboxSettings, SettingsError) result" where
  "settings_try_from repr =
     and_then (names_try_from_iter ''allowed_types'' (repr_allowed_types repr)) (\<lambda>allowed.
     and_then (names_try_from_iter ''disallowed_types'' (repr_disallowed_types repr)) (\<lambda>disallowed.
     and_then (check_disjoint ''disallowed_types'' allowed disallowed) (\<lambda>_.
       Ok \<lparr>dispatcher = repr_dispatcher repr, retention = repr_retention repr,
           enabled = repr_enabled repr, allowed_types = allowed,
           disallowed_types = disallowed\<rparr>)))"

section \<open>The environment loader\<close>

datatype env_var = NotPresent | NotUnicode | Present string

type_synonym env = "string \<Rightarrow> env_var"

definition env_raw :: "env \<Rightarrow> string \<Rightarrow> string \<Rightarrow> (string option, SettingsError) result" where
  "env_raw env prefix suffix =
     (let key = prefix @ suffix
      in case env key of
           Present v \<Rightarrow> Ok (Some v)
         | NotPresent \<Rightarrow> Ok None
         | NotUnicode \<Rightarrow> Err (SettingsParse key ''a UTF-8 string''))"

text \<open>\<^verbatim>\<open>let Some(raw) = env_raw(..)? else { return Ok(None) }\<close>, then a parser of the value.\<close>

definition env_parsed ::
    "env \<Rightarrow> string \<Rightarrow> string \<Rightarrow> (string \<Rightarrow> ('a, SettingsError) result) \<Rightarrow> ('a option, SettingsError) result" where
  "env_parsed env prefix suffix f =
     and_then (env_raw env prefix suffix) (transpose_map f)"

definition env_u32 :: "env \<Rightarrow> string \<Rightarrow> string \<Rightarrow> (u32 option, SettingsError) result" where
  "env_u32 env prefix suffix = env_parsed env prefix suffix (\<lambda>raw.
     ok_or (SettingsParse (prefix @ suffix) ''u32'')
       (map_option of_nat (parse_uint (2 ^ 32 - 1) (trim raw))))"

definition env_bool :: "env \<Rightarrow> string \<Rightarrow> string \<Rightarrow> (bool option, SettingsError) result" where
  "env_bool env prefix suffix = env_parsed env prefix suffix (\<lambda>raw.
     let s = to_ascii_lowercase (trim raw)
     in if s = ''true'' \<or> s = ''1'' then Ok True
        else if s = ''false'' \<or> s = ''0'' then Ok False
        else Err (SettingsParse (prefix @ suffix) ''a boolean (\"true\" or \"false\")''))"

definition env_usize :: "env \<Rightarrow> string \<Rightarrow> string \<Rightarrow> (nat option, SettingsError) result" where
  "env_usize env prefix suffix = env_parsed env prefix suffix (\<lambda>raw.
     ok_or (SettingsParse (prefix @ suffix) ''usize'') (parse_uint (2 ^ 64 - 1) (trim raw)))"

definition env_duration_ms :: "env \<Rightarrow> string \<Rightarrow> string \<Rightarrow> (duration option, SettingsError) result" where
  "env_duration_ms env prefix suffix = env_parsed env prefix suffix (\<lambda>raw.
     ok_or (SettingsParse (prefix @ suffix) ''milliseconds'')
       (map_option from_millis (parse_uint (2 ^ 64 - 1) (trim raw))))"

subsection \<open>Parsing a binary64\<close>

text \<open>The grammar of \<^verbatim>\<open>f64::from_str\<close>: a sign, then \<^verbatim>\<open>inf\<close>, \<^verbatim>\<open>infinity\<close>, \<^verbatim>\<open>nan\<close> or a decimal number
  with an optional exponent; the exact decimal value is rounded once.\<close>

definition split_sign :: "string \<Rightarrow> bool \<times> string" where
  "split_sign s =
     (case s of [] \<Rightarrow> (False, [])
      | c # cs \<Rightarrow> if c = CHR ''-'' then (True, cs) else if c = CHR ''+'' then (False, cs) else (False, s))"

definition decimal_mantissa :: "string \<Rightarrow> rat option" where
  "decimal_mantissa s =
     (let int_part = takeWhile is_ascii_digit s; rest = dropWhile is_ascii_digit s
      in case rest of
           [] \<Rightarrow> if int_part = [] then None else Some (of_nat (digits_value int_part))
         | c # fr \<Rightarrow>
             if c = CHR ''.'' \<and> list_all is_ascii_digit fr \<and> (int_part \<noteq> [] \<or> fr \<noteq> [])
             then Some (of_nat (digits_value (int_part @ fr)) / 10 ^ length fr)
             else None)"

definition decimal_exponent :: "string \<Rightarrow> int option" where
  "decimal_exponent s =
     (let (neg, ds) = split_sign s
      in if ds \<noteq> [] \<and> list_all is_ascii_digit ds
         then Some ((if neg then -1 else 1) * int (digits_value ds)) else None)"

definition decimal_number :: "string \<Rightarrow> rat option" where
  "decimal_number s =
     (let m = takeWhile (\<lambda>c. to_ascii_lower c \<noteq> CHR ''e'') s;
          rest = dropWhile (\<lambda>c. to_ascii_lower c \<noteq> CHR ''e'') s
      in case rest of
           [] \<Rightarrow> decimal_mantissa m
         | _ # ex \<Rightarrow>
             (case (decimal_mantissa m, decimal_exponent ex) of
                (Some q, Some e) \<Rightarrow>
                  Some (if 0 \<le> e then q * 10 ^ nat e else q / 10 ^ nat (- e))
              | _ \<Rightarrow> None))"

definition parse_f64 :: "string \<Rightarrow> f64 option" where
  "parse_f64 s =
     (let (neg, rest) = split_sign s; w = to_ascii_lowercase rest;
          inf_val = (if neg then NegInf else PosInf)
      in if w = ''inf'' \<or> w = ''infinity'' then Some inf_val
         else if w = ''nan'' then Some NaN
         else map_option (\<lambda>q. if 2 ^ 1024 \<le> f64_round q then inf_val
                              else Fin (if neg then - f64_round q else f64_round q))
                (decimal_number rest))"

definition env_jitter :: "env \<Rightarrow> string \<Rightarrow> string \<Rightarrow> (f64 option, SettingsError) result" where
  "env_jitter env prefix suffix = env_parsed env prefix suffix (\<lambda>raw.
     and_then (ok_or (SettingsParse (prefix @ suffix) ''f64'') (parse_f64 (trim raw))) (\<lambda>v.
       if \<not> jitter_in_range v
       then Err (OutOfRange (prefix @ suffix) ''jitter must be in the range [0.0, 1.0)'')
       else Ok v))"

definition env_ordering :: "env \<Rightarrow> string \<Rightarrow> string \<Rightarrow> (Ordering option, SettingsError) result" where
  "env_ordering env prefix suffix = env_parsed env prefix suffix (\<lambda>raw.
     let s = to_ascii_lowercase (trim raw)
     in if s = ''unordered'' then Ok Unordered
        else if s = ''per_key'' \<or> s = ''perkey'' \<or> s = ''per-key'' then Ok PerKey
        else Err (SettingsParse (prefix @ suffix) ''ordering (\"unordered\" or \"per_key\")''))"

definition env_worker_id :: "env \<Rightarrow> string \<Rightarrow> string \<Rightarrow> (WorkerId option, SettingsError) result" where
  "env_worker_id env prefix suffix = env_parsed env prefix suffix (\<lambda>raw.
     map_err (\<lambda>err. case err of
         IdTooLong _ _ \<Rightarrow> OutOfRange (prefix @ suffix) ''worker id exceeds the maximum length''
       | _ \<Rightarrow> SettingsParse (prefix @ suffix) ''worker id'')
       (worker_parse raw))"

definition env_names :: "env \<Rightarrow> string \<Rightarrow> string \<Rightarrow> (MessageTypeNames option, SettingsError) result" where
  "env_names env prefix suffix = env_parsed env prefix suffix (names_parse (prefix @ suffix))"

subsection \<open>The loader\<close>

text \<open>\<^verbatim>\<open>if let Some(v) = env_x(..)? { field = v }\<close>, one step of the loader.\<close>

definition opt_apply :: "('a \<Rightarrow> 's \<Rightarrow> 's) \<Rightarrow> 'a option \<Rightarrow> 's \<Rightarrow> 's" where
  "opt_apply upd v s = (case v of None \<Rightarrow> s | Some x \<Rightarrow> upd x s)"

definition override ::
    "('a option, SettingsError) result \<Rightarrow> ('a \<Rightarrow> OutboxSettings \<Rightarrow> OutboxSettings)
     \<Rightarrow> OutboxSettings \<Rightarrow> (OutboxSettings, SettingsError) result" where
  "override r upd s = and_then r (\<lambda>v. Ok (opt_apply upd v s))"

fun run_steps ::
    "(OutboxSettings \<Rightarrow> (OutboxSettings, SettingsError) result) list
     \<Rightarrow> OutboxSettings \<Rightarrow> (OutboxSettings, SettingsError) result" where
  "run_steps [] s = Ok s"
| "run_steps (f # fs) s = and_then (f s) (run_steps fs)"

abbreviation upd_dispatcher :: "(DispatcherSettings \<Rightarrow> DispatcherSettings) \<Rightarrow> OutboxSettings \<Rightarrow> OutboxSettings" where
  "upd_dispatcher f s \<equiv> s\<lparr>dispatcher := f (dispatcher s)\<rparr>"

abbreviation upd_retry :: "(ExponentialBackoff \<Rightarrow> ExponentialBackoff) \<Rightarrow> OutboxSettings \<Rightarrow> OutboxSettings" where
  "upd_retry f \<equiv> upd_dispatcher (\<lambda>d. d\<lparr>retry := f (retry d)\<rparr>)"

abbreviation upd_retention :: "(RetentionSettings \<Rightarrow> RetentionSettings) \<Rightarrow> OutboxSettings \<Rightarrow> OutboxSettings" where
  "upd_retention f s \<equiv> s\<lparr>retention := f (retention s)\<rparr>"

definition from_env_steps ::
    "env \<Rightarrow> string \<Rightarrow> (OutboxSettings \<Rightarrow> (OutboxSettings, SettingsError) result) list" where
  "from_env_steps env p =
     [override (env_u32 env p ''BATCH_SIZE'') (\<lambda>v. upd_dispatcher (\<lambda>d. d\<lparr>batch_size := v\<rparr>)),
      override (env_duration_ms env p ''LEASE_MS'') (\<lambda>v. upd_dispatcher (\<lambda>d. d\<lparr>lease := v\<rparr>)),
      override (env_usize env p ''MAX_IN_FLIGHT'') (\<lambda>v. upd_dispatcher (\<lambda>d. d\<lparr>max_in_flight := v\<rparr>)),
      override (env_duration_ms env p ''PUBLISH_TIMEOUT_MS'')
        (\<lambda>v. upd_dispatcher (\<lambda>d. d\<lparr>publish_timeout := v\<rparr>)),
      override (env_duration_ms env p ''POLL_INTERVAL_MS'')
        (\<lambda>v. upd_dispatcher (\<lambda>d. d\<lparr>poll_interval := v\<rparr>)),
      override (env_duration_ms env p ''IDLE_POLL_INTERVAL_MS'')
        (\<lambda>v. upd_dispatcher (\<lambda>d. d\<lparr>idle_poll_interval := v\<rparr>)),
      override (env_duration_ms env p ''DRAIN_TIMEOUT_MS'')
        (\<lambda>v. upd_dispatcher (\<lambda>d. d\<lparr>drain_timeout := v\<rparr>)),
      override (env_duration_ms env p ''STORE_TIMEOUT_MS'')
        (\<lambda>v. upd_dispatcher (\<lambda>d. d\<lparr>store_timeout := v\<rparr>)),
      override (env_duration_ms env p ''STATS_INTERVAL_MS'')
        (\<lambda>v. upd_dispatcher (\<lambda>d. d\<lparr>stats_interval := v\<rparr>)),
      override (env_ordering env p ''ORDERING'') (\<lambda>v. upd_dispatcher (\<lambda>d. d\<lparr>ordering := v\<rparr>)),
      override (env_duration_ms env p ''RETRY_BASE_MS'') (\<lambda>v. upd_retry (\<lambda>b. b\<lparr>base := v\<rparr>)),
      override (env_duration_ms env p ''RETRY_MAX_DELAY_MS'')
        (\<lambda>v. upd_retry (\<lambda>b. b\<lparr>max_delay := v\<rparr>)),
      override (env_u32 env p ''RETRY_MAX_ATTEMPTS'') (\<lambda>v. upd_retry (\<lambda>b. b\<lparr>max_attempts := v\<rparr>)),
      override (env_jitter env p ''RETRY_JITTER'') (\<lambda>v. upd_retry (\<lambda>b. b\<lparr>jitter := v\<rparr>)),
      override (env_worker_id env p ''WORKER_ID'')
        (\<lambda>v. upd_dispatcher (\<lambda>d. d\<lparr>worker_id := Some v\<rparr>)),
      override (env_duration_ms env p ''PUBLISHED_RETENTION_MS'')
        (\<lambda>v. upd_retention (\<lambda>r. r\<lparr>rs_published_retention := v\<rparr>)),
      override (env_duration_ms env p ''DEAD_RETENTION_MS'')
        (\<lambda>v. upd_retention (\<lambda>r. r\<lparr>rs_dead_retention := Some v\<rparr>)),
      override (env_u32 env p ''PURGE_BATCH_SIZE'')
        (\<lambda>v. upd_retention (\<lambda>r. r\<lparr>purge_batch_size := v\<rparr>)),
      override (env_bool env p ''ENABLED'') (\<lambda>v s. s\<lparr>enabled := v\<rparr>),
      override (env_names env p ''ALLOWED_TYPES'') (\<lambda>v s. s\<lparr>allowed_types := v\<rparr>),
      override (env_names env p ''DISALLOWED_TYPES'') (\<lambda>v s. s\<lparr>disallowed_types := v\<rparr>)]"

definition from_env :: "env \<Rightarrow> string \<Rightarrow> (OutboxSettings, SettingsError) result" where
  "from_env env p =
     and_then (run_steps (from_env_steps env p) outbox_settings_default) (\<lambda>s.
     and_then (check_disjoint (p @ ''DISALLOWED_TYPES'') (allowed_types s) (disallowed_types s)) (\<lambda>_.
       Ok s))"

section \<open>The routing policy\<close>

record OutboxPolicy =
  op_enabled :: bool
  op_allowed :: MessageTypeNames
  op_disallowed :: MessageTypeNames

datatype RouteKind = Outbox | Direct

definition policy_default :: OutboxPolicy where
  "policy_default = \<lparr>op_enabled = True, op_allowed = [], op_disallowed = []\<rparr>"

definition from_settings :: "OutboxSettings \<Rightarrow> (OutboxPolicy, SettingsError) result" where
  "from_settings s =
     and_then (check_disjoint ''disallowed_types'' (allowed_types s) (disallowed_types s)) (\<lambda>_.
       Ok \<lparr>op_enabled = enabled s, op_allowed = allowed_types s,
           op_disallowed = disallowed_types s\<rparr>)"

definition decide :: "OutboxPolicy \<Rightarrow> MessageType \<Rightarrow> RouteKind" where
  "decide self mt =
     (let name = mt_name mt
      in if \<not> op_enabled self then Direct
         else if names_contains (op_disallowed self) name then Direct
         else if op_allowed self = [] then Outbox
         else if names_contains (op_allowed self) name then Outbox
         else Direct)"

fun route_kind_as_str :: "RouteKind \<Rightarrow> string" where
  "route_kind_as_str Outbox = ''outbox''"
| "route_kind_as_str Direct = ''direct''"

section \<open>Lemmas\<close>

lemma names_contains_iff [simp]: "names_contains ns n \<longleftrightarrow> n \<in> set ns"
  by (auto simp: names_contains_def list_ex_iff)

lemma check_disjoint_iff [simp]:
  "check_disjoint key a d = Ok () \<longleftrightarrow> set a \<inter> set d = {}"
  by (auto simp: check_disjoint_def list_ex_iff)

lemma rsplit_once_digits:
  assumes "list_all is_ascii_digit b"
  shows "rsplit_once ''.v'' b = None"
  using assms
proof (induction b)
  case (Cons c cs)
  have "c \<noteq> CHR ''.''" using Cons.prems by (auto simp: is_ascii_digit_def byte_def)
  with Cons show ?case by simp
qed simp

lemma rsplit_once_version:
  assumes "list_all is_ascii_digit b"
  shows "rsplit_once ''.v'' (a @ ''.v'' @ b) = Some (a, b)"
proof (induction a)
  case Nil
  have "rsplit_once ''.v'' (CHR ''v'' # b) = None"
    using rsplit_once_digits [OF assms] by simp
  then show ?case by simp
qed simp

lemma is_versioned_iff:
  "is_versioned_message_type_name s \<longleftrightarrow>
     (\<exists>a b. s = a @ ''.v'' @ b \<and> b \<noteq> [] \<and> list_all is_ascii_digit b)" (is "_ \<longleftrightarrow> ?R")
proof
  assume "is_versioned_message_type_name s"
  then obtain a b where r: "rsplit_once ''.v'' s = Some (a, b)"
    and b: "b \<noteq> []" "list_all is_ascii_digit b"
    by (auto simp: is_versioned_message_type_name_def split: option.splits)
  from rsplit_once_Some [OF r] b show ?R by blast
next
  assume ?R
  then obtain a b where "s = a @ ''.v'' @ b" "b \<noteq> []" "list_all is_ascii_digit b" by blast
  then show "is_versioned_message_type_name s"
    using rsplit_once_version [of b a] by (simp add: is_versioned_message_type_name_def)
qed

lemma names_validated_iff:
  "names_validated f ns = Ok ms \<longleftrightarrow>
     ms = ns \<and> (\<forall>n \<in> set ns. \<not> is_versioned_message_type_name n)"
  by (auto simp: names_validated_def list_ex_iff)

lemma names_parse_iff:
  "names_parse f l = Ok ms \<longleftrightarrow>
     ms = filter (\<lambda>n. n \<noteq> []) (map trim (split_on CHR '','' l))
     \<and> (\<forall>n \<in> set ms. \<not> is_versioned_message_type_name n)"
  by (auto simp: names_parse_def names_validated_iff)

text \<open>A field of a settings record after one override: kept, or replaced when present.\<close>

definition the_or :: "'a \<Rightarrow> 'a option \<Rightarrow> 'a" where
  "the_or d v = (case v of None \<Rightarrow> d | Some x \<Rightarrow> x)"

definition opt_or :: "'a option \<Rightarrow> 'a option \<Rightarrow> 'a option" where
  "opt_or v w = (case v of None \<Rightarrow> w | Some x \<Rightarrow> Some x)"

lemma opt_or_None [simp]: "opt_or v None = v"
  by (cases v) (simp_all add: opt_or_def)

lemma opt_apply_fields:
  "opt_apply (\<lambda>v. upd_dispatcher (\<lambda>d. d\<lparr>batch_size := v\<rparr>)) v0 s =
     s\<lparr>dispatcher := (dispatcher s)\<lparr>batch_size := the_or (batch_size (dispatcher s)) v0\<rparr>\<rparr>"
  "opt_apply (\<lambda>v. upd_dispatcher (\<lambda>d. d\<lparr>lease := v\<rparr>)) v1 s =
     s\<lparr>dispatcher := (dispatcher s)\<lparr>lease := the_or (lease (dispatcher s)) v1\<rparr>\<rparr>"
  "opt_apply (\<lambda>v. upd_dispatcher (\<lambda>d. d\<lparr>max_in_flight := v\<rparr>)) v2 s =
     s\<lparr>dispatcher := (dispatcher s)\<lparr>max_in_flight := the_or (max_in_flight (dispatcher s)) v2\<rparr>\<rparr>"
  "opt_apply (\<lambda>v. upd_dispatcher (\<lambda>d. d\<lparr>publish_timeout := v\<rparr>)) v3 s =
     s\<lparr>dispatcher := (dispatcher s)\<lparr>publish_timeout := the_or (publish_timeout (dispatcher s)) v3\<rparr>\<rparr>"
  "opt_apply (\<lambda>v. upd_dispatcher (\<lambda>d. d\<lparr>poll_interval := v\<rparr>)) v4 s =
     s\<lparr>dispatcher := (dispatcher s)\<lparr>poll_interval := the_or (poll_interval (dispatcher s)) v4\<rparr>\<rparr>"
  "opt_apply (\<lambda>v. upd_dispatcher (\<lambda>d. d\<lparr>idle_poll_interval := v\<rparr>)) v5 s =
     s\<lparr>dispatcher := (dispatcher s)\<lparr>idle_poll_interval := the_or (idle_poll_interval (dispatcher s)) v5\<rparr>\<rparr>"
  "opt_apply (\<lambda>v. upd_dispatcher (\<lambda>d. d\<lparr>drain_timeout := v\<rparr>)) v6 s =
     s\<lparr>dispatcher := (dispatcher s)\<lparr>drain_timeout := the_or (drain_timeout (dispatcher s)) v6\<rparr>\<rparr>"
  "opt_apply (\<lambda>v. upd_dispatcher (\<lambda>d. d\<lparr>store_timeout := v\<rparr>)) v7 s =
     s\<lparr>dispatcher := (dispatcher s)\<lparr>store_timeout := the_or (store_timeout (dispatcher s)) v7\<rparr>\<rparr>"
  "opt_apply (\<lambda>v. upd_dispatcher (\<lambda>d. d\<lparr>stats_interval := v\<rparr>)) v8 s =
     s\<lparr>dispatcher := (dispatcher s)\<lparr>stats_interval := the_or (stats_interval (dispatcher s)) v8\<rparr>\<rparr>"
  "opt_apply (\<lambda>v. upd_dispatcher (\<lambda>d. d\<lparr>ordering := v\<rparr>)) v9 s =
     s\<lparr>dispatcher := (dispatcher s)\<lparr>ordering := the_or (ordering (dispatcher s)) v9\<rparr>\<rparr>"
  "opt_apply (\<lambda>v. upd_dispatcher (\<lambda>d. d\<lparr>worker_id := Some v\<rparr>)) v10 s =
     s\<lparr>dispatcher := (dispatcher s)
        \<lparr>worker_id := opt_or v10 (worker_id (dispatcher s))\<rparr>\<rparr>"
  "opt_apply (\<lambda>v. upd_retry (\<lambda>b. b\<lparr>base := v\<rparr>)) v11 s =
     s\<lparr>dispatcher := (dispatcher s)\<lparr>retry := (retry (dispatcher s))
        \<lparr>base := the_or (base (retry (dispatcher s))) v11\<rparr>\<rparr>\<rparr>"
  "opt_apply (\<lambda>v. upd_retry (\<lambda>b. b\<lparr>max_delay := v\<rparr>)) v12 s =
     s\<lparr>dispatcher := (dispatcher s)\<lparr>retry := (retry (dispatcher s))
        \<lparr>max_delay := the_or (max_delay (retry (dispatcher s))) v12\<rparr>\<rparr>\<rparr>"
  "opt_apply (\<lambda>v. upd_retry (\<lambda>b. b\<lparr>max_attempts := v\<rparr>)) v13 s =
     s\<lparr>dispatcher := (dispatcher s)\<lparr>retry := (retry (dispatcher s))
        \<lparr>max_attempts := the_or (max_attempts (retry (dispatcher s))) v13\<rparr>\<rparr>\<rparr>"
  "opt_apply (\<lambda>v. upd_retry (\<lambda>b. b\<lparr>jitter := v\<rparr>)) v14 s =
     s\<lparr>dispatcher := (dispatcher s)\<lparr>retry := (retry (dispatcher s))
        \<lparr>jitter := the_or (jitter (retry (dispatcher s))) v14\<rparr>\<rparr>\<rparr>"
  "opt_apply (\<lambda>v. upd_retention (\<lambda>r. r\<lparr>rs_published_retention := v\<rparr>)) v15 s =
     s\<lparr>retention := (retention s)\<lparr>rs_published_retention := the_or (rs_published_retention (retention s)) v15\<rparr>\<rparr>"
  "opt_apply (\<lambda>v. upd_retention (\<lambda>r. r\<lparr>purge_batch_size := v\<rparr>)) v16 s =
     s\<lparr>retention := (retention s)\<lparr>purge_batch_size := the_or (purge_batch_size (retention s)) v16\<rparr>\<rparr>"
  "opt_apply (\<lambda>v. upd_retention (\<lambda>r. r\<lparr>rs_dead_retention := Some v\<rparr>)) v17 s =
     s\<lparr>retention := (retention s)
        \<lparr>rs_dead_retention := opt_or v17 (rs_dead_retention (retention s))\<rparr>\<rparr>"
  "opt_apply (\<lambda>v s. s\<lparr>enabled := v\<rparr>) v18 s = s\<lparr>enabled := the_or (enabled s) v18\<rparr>"
  "opt_apply (\<lambda>v s. s\<lparr>allowed_types := v\<rparr>) v19 s = s\<lparr>allowed_types := the_or (allowed_types s) v19\<rparr>"
  "opt_apply (\<lambda>v s. s\<lparr>disallowed_types := v\<rparr>) v20 s = s\<lparr>disallowed_types := the_or (disallowed_types s) v20\<rparr>"
  by (simp_all add: opt_apply_def the_or_def opt_or_def split: option.splits)

definition env_value :: "('a option, 'e) result \<Rightarrow> 'a option" where
  "env_value r = (case r of Inr v \<Rightarrow> v | Inl _ \<Rightarrow> None)"

lemma env_value_Ok [simp]: "env_value (Ok v) = v"
  by (simp add: env_value_def)

lemma run_steps_override:
  "run_steps (override r u # fs) s = Ok s' \<longleftrightarrow>
     is_ok r \<and> run_steps fs (opt_apply u (env_value r) s) = Ok s'"
  by (cases r) (auto simp: override_def)

lemma env_parsed_NotPresent: "env (p @ s) = NotPresent \<Longrightarrow> env_parsed env p s f = Ok None"
  by (simp add: env_parsed_def env_raw_def)

section \<open>Properties\<close>

text \<open>The version-suffix test accepts exactly the strings that end in a dot, a \<^verbatim>\<open>v\<close> and one or
  more digits; so the printed form of every message type, whatever its name and version, is
  refused by \<^verbatim>\<open>MessageTypeNames\<close>, which lists names only.\<close>

lemma display_form_rejected:
  "(is_versioned_message_type_name s \<longleftrightarrow>
      (\<exists>a b. s = a @ ''.v'' @ b \<and> b \<noteq> [] \<and> list_all is_ascii_digit b))
   \<and> is_versioned_message_type_name (message_type_display mt)
   \<and> names_validated f [message_type_display mt]
       = Err (SettingsParse f ''message type names without a version suffix'')"
proof -
  have "is_versioned_message_type_name (message_type_display mt)"
    unfolding is_versioned_iff message_type_display_def using show_nat_digits by blast
  then show ?thesis using is_versioned_iff [of s] by (simp add: names_validated_def)
qed

text \<open>The routing table: a policy built from settings sends a message to the outbox exactly
  when routing is enabled, its type's name is not disallowed, and the allow list is empty or
  names it. A policy exists exactly when no name is on both lists, and the version of the type
  plays no part.\<close>

lemma policy_decides:
  "(is_ok (from_settings s) \<longleftrightarrow> set (allowed_types s) \<inter> set (disallowed_types s) = {})
   \<and> (case from_settings s of
        Inl e \<Rightarrow> e = OutOfRange ''disallowed_types''
                 ''a message type may not appear in both allowed_types and disallowed_types''
      | Inr p \<Rightarrow>
          (decide p mt = Outbox \<longleftrightarrow>
             enabled s \<and> mt_name mt \<notin> set (disallowed_types s)
             \<and> (allowed_types s = [] \<or> mt_name mt \<in> set (allowed_types s)))
          \<and> decide p mt = decide p (mt\<lparr>mt_version := v\<rparr>))"
  by (cases "set (allowed_types s) \<inter> set (disallowed_types s) = {}")
    (auto simp: from_settings_def decide_def Let_def check_disjoint_def list_ex_iff)


text \<open>An instance: one variable set, the others absent.\<close>

definition example_env :: env where
  "example_env k = (if k = ''R_LEASE_MS'' then Present '' 45000'' else NotPresent)"

lemma example_lease_parses: "parse_uint (2 ^ 64 - 1) (trim '' 45000'') = Some 45000"
proof -
  have "trim '' 45000'' = ''45000''" by code_simp
  then show ?thesis by (simp add: parse_uint_def is_ascii_digit_def digits_value_def byte_def)
qed

lemma example_env_loads:
  "from_env example_env ''R_'' = Ok (outbox_settings_default
     \<lparr>dispatcher := dispatcher_settings_default\<lparr>lease := from_millis 45000\<rparr>\<rparr>)"
  using example_lease_parses
    by (simp add: from_env_def from_env_steps_def override_def opt_apply_def env_parsed_def
        env_raw_def example_env_def env_u32_def env_bool_def env_usize_def env_duration_ms_def
        env_jitter_def env_ordering_def env_worker_id_def env_names_def check_disjoint_def
        outbox_settings_default_def)



end
