(* ===== verification/Store_Contract.thy ===== *)
theory Store_Contract
  imports Outbox_Types "HOL-Library.Product_Lexorder"
begin

text \<open>
  The contract of \<^verbatim>\<open>OutboxStore\<close> (\<^verbatim>\<open>reliar-outbox/src/store.rs\<close>): what each operation does to the
  rows, as one update over all of them, and the well-formedness every row keeps. The locale
  \<open>outbox_store\<close> states what a provider promises; the providers' theories interpret it and the
  dispatcher's theory proves its own lemmas inside it.
\<close>

section \<open>Rows\<close>

text \<open>A lease is both fields or none; only a pending row is leased; a row is not both published
  and dead; a dead row has a reason; a stored error is within the limit.\<close>

definition row_wf :: "OutboxRecord \<Rightarrow> bool" where
  "row_wf r \<longleftrightarrow>
     (locked_by r = None \<longleftrightarrow> locked_until r = None)
     \<and> (locked_by r \<noteq> None \<longrightarrow> published_at r = None \<and> dead_at r = None)
     \<and> (published_at r = None \<or> dead_at r = None)
     \<and> (dead_at r = None \<longleftrightarrow> dead_reason r = None)
     \<and> (\<forall>e. last_error r = Some e \<longrightarrow> length e \<le> max_error_len)"

definition clear_lease :: "OutboxRecord \<Rightarrow> OutboxRecord" where
  "clear_lease r = r\<lparr>locked_by := None, locked_until := None\<rparr>"

definition row_leased :: "WorkerId \<Rightarrow> instant \<Rightarrow> OutboxRecord \<Rightarrow> OutboxRecord" where
  "row_leased w until r = r\<lparr>locked_by := Some w, locked_until := Some until\<rparr>"

definition row_completed :: "instant \<Rightarrow> OutboxRecord \<Rightarrow> OutboxRecord" where
  "row_completed t r =
     r\<lparr>published_at := Some t, attempts := saturating_add (attempts r) 1, locked_by := None,
       locked_until := None\<rparr>"

definition row_failed :: "instant \<Rightarrow> string \<Rightarrow> FailureOutcome \<Rightarrow> OutboxRecord \<Rightarrow> OutboxRecord" where
  "row_failed t err oc r =
     (let r' = r\<lparr>attempts := saturating_add (attempts r) 1, last_error := Some (truncate_error err)\<rparr>
      in case oc of
           Retry delay \<Rightarrow> r'\<lparr>available_at := t + int delay, locked_by := None, locked_until := None\<rparr>
         | Dead reason \<Rightarrow> r'\<lparr>dead_at := Some t, dead_reason := Some reason, locked_by := None,
             locked_until := None\<rparr>)"

text \<open>Apply \<open>f\<close> to the rows of \<open>refs\<close> that worker \<open>w\<close> holds.\<close>

definition update_owned ::
    "WorkerId \<Rightarrow> MessageRef list \<Rightarrow> (OutboxRecord \<Rightarrow> OutboxRecord) \<Rightarrow> OutboxRecord list \<Rightarrow> OutboxRecord list" where
  "update_owned w refs f rs =
     map (\<lambda>r. if locked_by r = Some w \<and> message_ref r \<in> set refs then f r else r) rs"

definition spec_complete ::
    "instant \<Rightarrow> WorkerId \<Rightarrow> CompletedMessage list \<Rightarrow> OutboxRecord list \<Rightarrow> OutboxRecord list" where
  "spec_complete t w items = update_owned w (map cm_message items) (row_completed t)"

definition failure_for :: "FailedMessage list \<Rightarrow> MessageRef \<Rightarrow> FailedMessage option" where
  "failure_for items m = find (\<lambda>i. fm_message i = m) items"

definition spec_fail ::
    "instant \<Rightarrow> WorkerId \<Rightarrow> FailedMessage list \<Rightarrow> OutboxRecord list \<Rightarrow> OutboxRecord list" where
  "spec_fail t w items rs =
     map (\<lambda>r. if locked_by r = Some w
              then (case failure_for items (message_ref r) of
                      None \<Rightarrow> r
                    | Some i \<Rightarrow> row_failed t (fm_error i) (fm_outcome i) r)
              else r) rs"

definition spec_release :: "WorkerId \<Rightarrow> MessageRef list \<Rightarrow> OutboxRecord list \<Rightarrow> OutboxRecord list" where
  "spec_release w refs = update_owned w refs clear_lease"

definition spec_extend ::
    "instant \<Rightarrow> WorkerId \<Rightarrow> MessageRef list \<Rightarrow> OutboxRecord list \<Rightarrow> OutboxRecord list" where
  "spec_extend until w refs = update_owned w refs (\<lambda>r. r\<lparr>locked_until := Some until\<rparr>)"

section \<open>Claims\<close>

text \<open>\<open>lease_free\<close> and \<open>claimable\<close>: due, unlocked or with a lapsed lease, unexpired, not terminal.\<close>

definition lease_free :: "OutboxRecord \<Rightarrow> instant \<Rightarrow> bool" where
  "lease_free r t = (case locked_until r of None \<Rightarrow> True | Some until \<Rightarrow> until < t)"

definition claimable :: "OutboxRecord \<Rightarrow> instant \<Rightarrow> bool" where
  "claimable r t \<longleftrightarrow>
     published_at r = None \<and> dead_at r = None \<and> available_at r \<le> t \<and> lease_free r t
     \<and> (case expires_at (delivery (metadata (envelope r))) of None \<Rightarrow> True | Some x \<Rightarrow> t < x)"

definition claim_key :: "OutboxRecord \<Rightarrow> instant \<times> int" where
  "claim_key r = (available_at r, sequence r)"

text \<open>What one claim returns: at most \<open>n\<close> claimable rows, the first ones in
  \<^verbatim>\<open>available_at, sequence\<close> order.\<close>

definition spec_claimed :: "instant \<Rightarrow> nat \<Rightarrow> OutboxRecord list \<Rightarrow> OutboxRecord list" where
  "spec_claimed t n rs = take n (sort_key claim_key (filter (\<lambda>r. claimable r t) rs))"

definition spec_acquire ::
    "instant \<Rightarrow> instant \<Rightarrow> WorkerId \<Rightarrow> nat \<Rightarrow> OutboxRecord list \<Rightarrow> OutboxRecord list" where
  "spec_acquire t until w n rs =
     map (\<lambda>r. if r \<in> set (spec_claimed t n rs) then row_leased w until r else r) rs"

section \<open>Row lemmas\<close>

lemma length_truncate_error: "length (truncate_error e) \<le> max_error_len"
  using floor_boundary_le [of e "min (max_error_len - length truncation_marker) (length e)"]
  by (auto simp: truncate_error_def Let_def max_error_len_def length_truncation_marker)

lemmas row_defs = clear_lease_def row_leased_def row_completed_def row_failed_def Let_def

lemma row_wf_clear_lease: "row_wf r \<Longrightarrow> row_wf (clear_lease r)"
  by (auto simp: row_wf_def row_defs)

lemma row_wf_leased: "row_wf r \<Longrightarrow> published_at r = None \<Longrightarrow> dead_at r = None \<Longrightarrow> row_wf (row_leased w u r)"
  by (simp add: row_wf_def row_defs)

lemma row_wf_completed: "row_wf r \<Longrightarrow> locked_by r = Some w \<Longrightarrow> row_wf (row_completed t r)"
  by (auto simp: row_wf_def row_defs)

lemma row_wf_failed: "row_wf r \<Longrightarrow> locked_by r = Some w \<Longrightarrow> row_wf (row_failed t e oc r)"
  using length_truncate_error [of e] by (cases oc) (auto simp: row_wf_def row_defs)

lemma row_wf_extended: "row_wf r \<Longrightarrow> locked_by r = Some w \<Longrightarrow> row_wf (r\<lparr>locked_until := Some u\<rparr>)"
  by (auto simp: row_wf_def)

lemmas row_wf_intros =
  row_wf_clear_lease row_wf_leased row_wf_completed row_wf_failed row_wf_extended

lemma message_ref_frame [simp]:
  "message_ref (clear_lease r) = message_ref r"
  "message_ref (row_leased w u r) = message_ref r"
  "message_ref (row_completed t r) = message_ref r"
  "message_ref (row_failed t e oc r) = message_ref r"
  "message_ref (r\<lparr>locked_until := x\<rparr>) = message_ref r"
  by (cases oc; simp add: message_ref_def row_defs)+

lemma sequence_frame [simp]:
  "sequence (clear_lease r) = sequence r"
  "sequence (row_leased w u r) = sequence r"
  "sequence (row_completed t r) = sequence r"
  "sequence (row_failed t e oc r) = sequence r"
  by (cases oc; simp add: row_defs)+

lemma locked_by_after [simp]:
  "locked_by (clear_lease r) = None"
  "locked_by (row_leased w u r) = Some w"
  "locked_by (row_completed t r) = None"
  "locked_by (row_failed t e oc r) = None"
  by (cases oc; simp add: row_defs)+

text \<open>The references of the rows that are published.\<close>

definition published_refs :: "OutboxRecord list \<Rightarrow> MessageRef set" where
  "published_refs rs = message_ref ` {r \<in> set rs. published_at r \<noteq> None}"

lemma published_refs_Cons:
  "published_refs (r # rs) = (if published_at r = None then {} else {message_ref r}) \<union> published_refs rs"
  by (auto simp: published_refs_def)

lemma published_refs_Nil [simp]: "published_refs [] = {}"
  by (simp add: published_refs_def)

lemma published_at_frame [simp]:
  "published_at (clear_lease r) = published_at r"
  "published_at (row_leased w u r) = published_at r"
  "published_at (row_failed t e oc r) = published_at r"
  by (cases oc; simp add: row_defs)+

lemma published_refs_map:
  "(\<And>r. r \<in> set rs \<Longrightarrow> message_ref (f r) = message_ref r \<and> published_at (f r) = published_at r) \<Longrightarrow>
   published_refs (map f rs) = published_refs rs"
  by (induction rs) (auto simp: published_refs_Cons)

lemma published_refs_spec:
  "published_refs (spec_fail t w fs rs) = published_refs rs"
  "published_refs (spec_release w ms rs) = published_refs rs"
  "published_refs (spec_extend u w ms rs) = published_refs rs"
  by (simp_all add: spec_fail_def spec_release_def spec_extend_def update_owned_def published_refs_map
      split: option.splits)

lemma claimable_wf_leased: "row_wf r \<Longrightarrow> claimable r t \<Longrightarrow> row_wf (row_leased w u r)"
  by (simp add: claimable_def row_wf_leased)

section \<open>What a dispatcher relies on\<close>

text \<open>The weak contract, which leaves open what a failed call did: no operation breaks the invariant, a
  claim returns at most what it was asked for, and only \<^verbatim>\<open>complete\<close> publishes rows, the named ones.
  \<open>published\<close> are the published rows, \<open>key\<close> is how much of a reference identifies a row to the store.\<close>

locale outbox_provider =
  fixes published :: "'s \<Rightarrow> 'k set"
    and inv :: "'s \<Rightarrow> bool"
    and key :: "MessageRef \<Rightarrow> 'k"
    and acquire :: "AcquireRequest \<Rightarrow> 's \<Rightarrow> 's \<times> (AcquiredBatch, 'e) result"
    and complete :: "WorkerId \<Rightarrow> CompletedMessage list \<Rightarrow> 's \<Rightarrow> 's \<times> (nat, 'e) result"
    and fail :: "WorkerId \<Rightarrow> FailedMessage list \<Rightarrow> 's \<Rightarrow> 's \<times> (nat, 'e) result"
    and release :: "WorkerId \<Rightarrow> MessageRef list \<Rightarrow> 's \<Rightarrow> 's \<times> (nat, 'e) result"
    and extend_lease :: "WorkerId \<Rightarrow> MessageRef list \<Rightarrow> duration \<Rightarrow> 's \<Rightarrow> 's \<times> (nat, 'e) result"
  assumes keeps_inv: "inv s \<Longrightarrow> inv (fst (acquire rq s))" "inv s \<Longrightarrow> inv (fst (complete w cs s))"
      "inv s \<Longrightarrow> inv (fst (fail w fs s))" "inv s \<Longrightarrow> inv (fst (release w ms s))"
      "inv s \<Longrightarrow> inv (fst (extend_lease w ms d s))"
    and acquire_bounded: "inv s \<Longrightarrow> acquire rq s = (s', Ok b) \<Longrightarrow> length (ab_records b) \<le> unat (ar_batch_size rq)"
    and keeps_published:
      "inv s \<Longrightarrow> published (fst (acquire rq s)) \<subseteq> published s"
      "inv s \<Longrightarrow> published (fst (fail w fs s)) \<subseteq> published s"
      "inv s \<Longrightarrow> published (fst (release w ms s)) \<subseteq> published s"
      "inv s \<Longrightarrow> published (fst (extend_lease w ms d s)) \<subseteq> published s"
    and complete_named: "inv s \<Longrightarrow>
      published (fst (complete w cs s)) \<subseteq> published s \<union> key ` cm_message ` set cs"

section \<open>The contract\<close>

text \<open>\<open>rows\<close> are the decodable rows of a state, \<open>clock\<close> the store's own time. A claim hands out at
  most the requested number of claimable rows, leased to the caller; the by-reference operations
  change exactly the named rows the caller holds; a failed call changes no row.\<close>

locale outbox_store =
  fixes rows :: "'s \<Rightarrow> OutboxRecord list"
    and clock :: "'s \<Rightarrow> instant"
    and inv :: "'s \<Rightarrow> bool"
    and acquire :: "AcquireRequest \<Rightarrow> 's \<Rightarrow> 's \<times> (AcquiredBatch, 'e) result"
    and complete :: "WorkerId \<Rightarrow> CompletedMessage list \<Rightarrow> 's \<Rightarrow> 's \<times> (nat, 'e) result"
    and fail :: "WorkerId \<Rightarrow> FailedMessage list \<Rightarrow> 's \<Rightarrow> 's \<times> (nat, 'e) result"
    and release :: "WorkerId \<Rightarrow> MessageRef list \<Rightarrow> 's \<Rightarrow> 's \<times> (nat, 'e) result"
    and extend_lease :: "WorkerId \<Rightarrow> MessageRef list \<Rightarrow> duration \<Rightarrow> 's \<Rightarrow> 's \<times> (nat, 'e) result"
  assumes inv_rows: "inv s \<Longrightarrow> r \<in> set (rows s) \<Longrightarrow> row_wf r"
    and inv_distinct: "inv s \<Longrightarrow> distinct (map message_ref (rows s))"
    and acquire_inv: "inv s \<Longrightarrow> inv (fst (acquire rq s))"
    and complete_inv: "inv s \<Longrightarrow> inv (fst (complete w cs s))"
    and fail_inv: "inv s \<Longrightarrow> inv (fst (fail w fs s))"
    and release_inv: "inv s \<Longrightarrow> inv (fst (release w ms s))"
    and extend_inv: "inv s \<Longrightarrow> inv (fst (extend_lease w ms d s))"
    and acquire_Ok: "inv s \<Longrightarrow> acquire rq s = (s', Ok b) \<Longrightarrow>
      \<exists>cl. distinct cl \<and> set cl \<subseteq> {r \<in> set (rows s). claimable r (clock s)}
         \<and> length cl \<le> unat (ar_batch_size rq)
         \<and> ab_records b = map (row_leased (ar_worker rq) (clock s + int (ar_lease rq))) cl
         \<and> rows s' = map (\<lambda>r. if r \<in> set cl
             then row_leased (ar_worker rq) (clock s + int (ar_lease rq)) r else r) (rows s)"
    and complete_Ok: "inv s \<Longrightarrow> complete w cs s = (s', Ok n) \<Longrightarrow>
      rows s' = spec_complete (clock s) w cs (rows s)"
    and fail_Ok: "inv s \<Longrightarrow> fail w fs s = (s', Ok n) \<Longrightarrow> distinct (map fm_message fs) \<Longrightarrow>
      rows s' = spec_fail (clock s) w fs (rows s)"
    and fail_publishes: "inv s \<Longrightarrow> published_refs (rows (fst (fail w fs s))) = published_refs (rows s)"
    and release_Ok: "inv s \<Longrightarrow> release w ms s = (s', Ok n) \<Longrightarrow> rows s' = spec_release w ms (rows s)"
    and extend_Ok: "inv s \<Longrightarrow> extend_lease w ms d s = (s', Ok n) \<Longrightarrow>
      rows s' = spec_extend (clock s + int d) w ms (rows s)"
    and call_Err: "acquire rq s = (s', Err e) \<Longrightarrow> rows s' = rows s"
      "complete w cs s = (s', Err e) \<Longrightarrow> rows s' = rows s"
      "fail w fs s = (s', Err e) \<Longrightarrow> rows s' = rows s"
      "release w ms s = (s', Err e) \<Longrightarrow> rows s' = rows s"
      "extend_lease w ms d s = (s', Err e) \<Longrightarrow> rows s' = rows s"
begin

text \<open>A claim never hands out a row whose lease another worker holds and has not let lapse, and
  leaves such a row as it was.\<close>

lemma acquire_respects_leases:
  assumes "inv s" "acquire rq s = (s', Ok b)" "r \<in> set (rows s)"
    and "locked_by r = Some w" "locked_until r = Some u" "clock s \<le> u"
  shows "r \<in> set (rows s')" "message_ref r \<notin> message_ref ` set (ab_records b)"
proof -
  from acquire_Ok [OF assms(1,2)] obtain cl where
    cl: "set cl \<subseteq> {r \<in> set (rows s). claimable r (clock s)}"
    and recs: "ab_records b = map (row_leased (ar_worker rq) (clock s + int (ar_lease rq))) cl"
    and rows': "rows s' = map (\<lambda>r. if r \<in> set cl
        then row_leased (ar_worker rq) (clock s + int (ar_lease rq)) r else r) (rows s)"
    by blast
  have r: "r \<notin> set cl" using cl assms(5,6) by (auto simp: claimable_def lease_free_def)
  then show "r \<in> set (rows s')" using assms(3) by (force simp: rows')
  show "message_ref r \<notin> message_ref ` set (ab_records b)"
  proof
    assume "message_ref r \<in> message_ref ` set (ab_records b)"
    then obtain c where c: "c \<in> set cl" "message_ref c = message_ref r"
      by (auto simp: recs)
    with cl have "c \<in> set (rows s)" by auto
    with inv_distinct [OF assms(1)] assms(3) c(2) have "c = r"
      by (auto simp: distinct_map dest: inj_onD)
    with c(1) r show False by simp
  qed
qed

text \<open>A row held by one worker is beyond the reach of every other worker's calls.\<close>

lemma guard_update_owned:
  assumes "r \<in> set rs" "locked_by r = Some w'" "w' \<noteq> w"
  shows "r \<in> set (update_owned w ms f rs)" "r \<in> set (spec_fail t w fs rs)"
  using assms by (force simp: update_owned_def spec_fail_def)+

lemma complete_guard:
  assumes "inv s" "r \<in> set (rows s)" "locked_by r = Some w'" "w' \<noteq> w"
  shows "r \<in> set (rows (fst (complete w cs s)))"
proof (cases "complete w cs s")
  case (Pair s' x)
  then show ?thesis
    using assms guard_update_owned(1) complete_Ok [OF assms(1)] call_Err(2)
    by (cases x) (auto simp: spec_complete_def)
qed

text \<open>\<^verbatim>\<open>complete\<close> publishes nothing but the rows it is given and the caller holds.\<close>

lemma complete_publishes_items:
  assumes "inv s" "r' \<in> set (rows (fst (complete w cs s)))" "published_at r' \<noteq> None"
  shows "\<exists>r \<in> set (rows s). message_ref r = message_ref r'
    \<and> (published_at r \<noteq> None \<or> locked_by r = Some w \<and> message_ref r \<in> cm_message ` set cs)"
proof (cases "complete w cs s")
  case (Pair s' x)
  then have "rows s' = rows s \<or> rows s' = spec_complete (clock s) w cs (rows s)"
    using complete_Ok [OF assms(1)] call_Err(2) by (cases x) auto
  moreover have "\<exists>r \<in> set rs. r' = r
      \<or> r' = row_completed t r \<and> locked_by r = Some w \<and> message_ref r \<in> cm_message ` set cs"
    if "r' \<in> set rs \<or> r' \<in> set (spec_complete t w cs rs)" for rs t
    using that by (force simp: spec_complete_def update_owned_def)
  ultimately obtain r where r: "r \<in> set (rows s)" "r' = r \<or> r' = row_completed (clock s) r
      \<and> locked_by r = Some w \<and> message_ref r \<in> cm_message ` set cs"
    using assms(2) Pair by fastforce
  then show ?thesis using assms(3) by (intro bexI [of _ r]) auto
qed

lemma complete_published:
  "inv s \<Longrightarrow> published_refs (rows (fst (complete w cs s))) \<subseteq> published_refs (rows s) \<union> cm_message ` set cs"
proof
  fix m assume i: "inv s" and "m \<in> published_refs (rows (fst (complete w cs s)))"
  then obtain r' where r': "r' \<in> set (rows (fst (complete w cs s)))" "published_at r' \<noteq> None" "message_ref r' = m"
    by (auto simp: published_refs_def)
  from complete_publishes_items [OF i r'(1,2)] r'(3)
  obtain r where r: "r \<in> set (rows s)" "message_ref r = m" "published_at r \<noteq> None \<or> m \<in> cm_message ` set cs"
    by metis
  then show "m \<in> published_refs (rows s) \<union> cm_message ` set cs"
    unfolding published_refs_def by (cases "published_at r = None") (simp, blast)
qed

text \<open>No other operation publishes a row.\<close>

lemma call_published:
  assumes "inv s"
  shows "published_refs (rows (fst (acquire rq s))) = published_refs (rows s)"
    "published_refs (rows (fst (release w ms s))) = published_refs (rows s)"
    "published_refs (rows (fst (extend_lease w ms d s))) = published_refs (rows s)"
proof -
  show "published_refs (rows (fst (acquire rq s))) = published_refs (rows s)"
  proof (cases "acquire rq s"; cases "snd (acquire rq s)")
    fix s' x b assume a: "acquire rq s = (s', x)" "snd (acquire rq s) = Ok b"
    from acquire_Ok [OF assms, of rq s' b] a obtain cl where
      "rows s' = map (\<lambda>r. if r \<in> set cl
        then row_leased (ar_worker rq) (clock s + int (ar_lease rq)) r else r) (rows s)" by auto
    with a(1) show ?thesis by (simp add: published_refs_map)
  qed (use call_Err(1) in auto)
  show "published_refs (rows (fst (release w ms s))) = published_refs (rows s)"
  proof (cases "release w ms s")
    case (Pair s' x)
    then show ?thesis using release_Ok [OF assms, of w ms s'] call_Err(4) [of w ms s s']
      by (cases x) (auto simp: published_refs_spec)
  qed
  show "published_refs (rows (fst (extend_lease w ms d s))) = published_refs (rows s)"
  proof (cases "extend_lease w ms d s")
    case (Pair s' x)
    then show ?thesis using extend_Ok [OF assms, of w ms d s'] call_Err(5) [of w ms d s s']
      by (cases x) (auto simp: published_refs_spec)
  qed
qed

end

text \<open>A store that meets the contract meets the weak one, for whole references.\<close>

sublocale outbox_store \<subseteq> weak: outbox_provider "\<lambda>s. published_refs (rows s)" inv "\<lambda>m. m" acquire complete fail release extend_lease
proof
  show "length (ab_records b) \<le> unat (ar_batch_size rq)" if "inv s" "acquire rq s = (s', Ok b)" for s rq s' b
    using acquire_Ok [OF that] by auto
qed (use acquire_inv complete_inv fail_inv release_inv extend_inv call_published fail_publishes
      complete_published in \<open>simp_all add: image_def\<close>)

end
