(* ===== verification/In_Memory_Store.thy ===== *)
theory In_Memory_Store
  imports Store_Contract
begin

text \<open>
  \<^verbatim>\<open>reliar-outbox/src/test_support/store.rs\<close>: the in-memory \<^verbatim>\<open>OutboxStore\<close> and \<^verbatim>\<open>OutboxDeadLetters\<close>.
  The state behind the mutex is the record \<open>Inner\<close>; every method takes it and returns it with its
  result, the loops over rows as the source writes them. Sequence numbers are integers: an \<^verbatim>\<open>i64\<close>
  that starts at one does not wrap in any run that fits in memory.
\<close>

section \<open>State\<close>

datatype InMemoryStoreError = Injected | InjectedPermanent

fun store_error_kind :: "InMemoryStoreError \<Rightarrow> FailureKind" where
  "store_error_kind Injected = Transient"
| "store_error_kind InjectedPermanent = Permanent"

record Inner =
  im_rows :: "OutboxRecord list"
  next_sequence :: int
  im_now :: instant
  fail_next :: nat
  fail_next_permanent :: nat
  hang_next :: nat
  hang_duration :: duration
  complete_calls :: nat
  fail_next_complete :: nat
  fail_next_enqueue :: nat
  enqueue_calls :: nat

definition inner_default :: Inner where
  "inner_default =
     \<lparr>im_rows = [], next_sequence = 1, im_now = 0, fail_next = 0, fail_next_permanent = 0,
      hang_next = 0, hang_duration = 0, complete_calls = 0, fail_next_complete = 0,
      fail_next_enqueue = 0, enqueue_calls = 0\<rparr>"

definition expired_error_message :: string where
  "expired_error_message = ''reliar: expired before publication''"

section \<open>Inserting\<close>

definition insert_row ::
    "SerializedEnvelope \<Rightarrow> instant option \<Rightarrow> string option \<Rightarrow> Inner \<Rightarrow> Inner \<times> MessageRef" where
  "insert_row e avail key s =
     (let created = im_now s;
          r = builder_available_at (case avail of Some t \<Rightarrow> t | None \<Rightarrow> created)
                (builder_ordering_key key (record_builder e (next_sequence s) created))
      in (s\<lparr>next_sequence := next_sequence s + 1, im_rows := im_rows s @ [r]\<rparr>,
          \<lparr>mr_id = env_id e, mr_created_at = created\<rparr>))"

definition im_insert :: "SerializedEnvelope \<Rightarrow> Inner \<Rightarrow> Inner \<times> MessageRef" where
  "im_insert e s = insert_row e None None s"

definition im_insert_with ::
    "SerializedEnvelope \<Rightarrow> instant \<Rightarrow> string option \<Rightarrow> Inner \<Rightarrow> Inner \<times> MessageRef" where
  "im_insert_with e t key s = insert_row e (Some t) key s"

definition advance :: "duration \<Rightarrow> Inner \<Rightarrow> Inner" where
  "advance d s = s\<lparr>im_now := im_now s + int d\<rparr>"

definition im_records :: "Inner \<Rightarrow> OutboxRecord list" where
  "im_records s = sort_key sequence (im_rows s)"

definition im_record :: "MessageId \<Rightarrow> Inner \<Rightarrow> OutboxRecord option" where
  "im_record i s = find (\<lambda>r. env_id (envelope r) = i) (im_rows s)"

section \<open>Injected failures\<close>

definition arm_fail_next :: "nat \<Rightarrow> Inner \<Rightarrow> Inner" where
  "arm_fail_next n s = s\<lparr>fail_next := n\<rparr>"

definition arm_fail_next_permanent :: "nat \<Rightarrow> Inner \<Rightarrow> Inner" where
  "arm_fail_next_permanent n s = s\<lparr>fail_next_permanent := n\<rparr>"

definition arm_hang_next :: "nat \<Rightarrow> duration \<Rightarrow> Inner \<Rightarrow> Inner" where
  "arm_hang_next n d s = s\<lparr>hang_next := n, hang_duration := d\<rparr>"

definition arm_fail_next_complete :: "nat \<Rightarrow> Inner \<Rightarrow> Inner" where
  "arm_fail_next_complete n s = s\<lparr>fail_next_complete := n\<rparr>"

definition arm_fail_next_enqueue :: "nat \<Rightarrow> Inner \<Rightarrow> Inner" where
  "arm_fail_next_enqueue n s = s\<lparr>fail_next_enqueue := n\<rparr>"

definition take_fail_next_enqueue :: "Inner \<Rightarrow> Inner \<times> bool" where
  "take_fail_next_enqueue s =
     (if fail_next_enqueue s > 0
      then (s\<lparr>fail_next_enqueue := fail_next_enqueue s - 1\<rparr>, True) else (s, False))"

definition take_fail_next_complete :: "Inner \<Rightarrow> Inner \<times> bool" where
  "take_fail_next_complete s =
     (if fail_next_complete s > 0
      then (s\<lparr>fail_next_complete := fail_next_complete s - 1\<rparr>, True) else (s, False))"

definition take_hang :: "Inner \<Rightarrow> Inner \<times> duration option" where
  "take_hang s =
     (if hang_next s > 0 then (s\<lparr>hang_next := hang_next s - 1\<rparr>, Some (hang_duration s))
      else (s, None))"

definition take_injected_failure :: "Inner \<Rightarrow> Inner \<times> InMemoryStoreError option" where
  "take_injected_failure s =
     (if fail_next_permanent s > 0
      then (s\<lparr>fail_next_permanent := fail_next_permanent s - 1\<rparr>, Some InjectedPermanent)
      else if fail_next s > 0 then (s\<lparr>fail_next := fail_next s - 1\<rparr>, Some Injected)
      else (s, None))"

text \<open>\<^verbatim>\<open>if let Some(err) = self.take_injected_failure() { return Err(err); }\<close>\<close>

definition guarded ::
    "(Inner \<Rightarrow> Inner \<times> 'a) \<Rightarrow> Inner \<Rightarrow> Inner \<times> ('a, InMemoryStoreError) result" where
  "guarded f s =
     (case take_injected_failure s of
        (s', Some err) \<Rightarrow> (s', Err err)
      | (s', None) \<Rightarrow> (case f s' of (s'', x) \<Rightarrow> (s'', Ok x)))"

definition try_enqueue ::
    "SerializedEnvelope \<Rightarrow> Inner \<Rightarrow> Inner \<times> (MessageId, InMemoryStoreError) result" where
  "try_enqueue e s =
     (case take_fail_next_enqueue (s\<lparr>enqueue_calls := enqueue_calls s + 1\<rparr>) of
        (s', True) \<Rightarrow> (s', Err Injected)
      | (s', False) \<Rightarrow> (case im_insert e s' of (s'', m) \<Rightarrow> (s'', Ok (mr_id m))))"

section \<open>Store operations\<close>

definition lease_is_free :: "OutboxRecord \<Rightarrow> instant \<Rightarrow> bool" where
  "lease_is_free r t = (case locked_until r of None \<Rightarrow> True | Some until \<Rightarrow> until < t)"

definition is_claimable :: "OutboxRecord \<Rightarrow> instant \<Rightarrow> bool" where
  "is_claimable r t \<longleftrightarrow>
     published_at r = None \<and> dead_at r = None \<and> available_at r \<le> t \<and> lease_is_free r t
     \<and> (case expires_at (delivery (metadata (envelope r))) of None \<Rightarrow> True | Some x \<Rightarrow> t < x)"

text \<open>The predicate of \<^verbatim>\<open>find_owned_mut\<close>.\<close>

definition is_owned :: "WorkerId \<Rightarrow> MessageRef \<Rightarrow> OutboxRecord \<Rightarrow> bool" where
  "is_owned w m r \<longleftrightarrow>
     env_id (envelope r) = mr_id m \<and> created_at r = mr_created_at m \<and> locked_by r = Some w"

text \<open>\<^verbatim>\<open>for item in items { if let Some(row) = find_owned_mut(..) { update; affected += 1; } }\<close>\<close>

fun for_owned ::
    "WorkerId \<Rightarrow> ('i \<Rightarrow> MessageRef) \<Rightarrow> ('i \<Rightarrow> OutboxRecord \<Rightarrow> OutboxRecord) \<Rightarrow> 'i list
     \<Rightarrow> OutboxRecord list \<Rightarrow> OutboxRecord list \<times> nat" where
  "for_owned w ref f [] rs = (rs, 0)"
| "for_owned w ref f (i # is) rs =
     (case update_first (is_owned w (ref i)) (f i) rs of
        (rs', found) \<Rightarrow> (case for_owned w ref f is rs' of
           (rs'', n) \<Rightarrow> (rs'', if found then Suc n else n)))"

definition on_rows :: "(OutboxRecord list \<Rightarrow> OutboxRecord list \<times> nat) \<Rightarrow> Inner \<Rightarrow> Inner \<times> nat" where
  "on_rows f s = (case f (im_rows s) of (rs, n) \<Rightarrow> (s\<lparr>im_rows := rs\<rparr>, n))"

fun claim_indices ::
    "WorkerId \<Rightarrow> instant \<Rightarrow> nat list \<Rightarrow> OutboxRecord list \<Rightarrow> OutboxRecord list \<times> OutboxRecord list" where
  "claim_indices w until [] rs = (rs, [])"
| "claim_indices w until (i # is) rs =
     (let r = (rs ! i)\<lparr>locked_by := Some w, locked_until := Some until\<rparr>
      in case claim_indices w until is (rs[i := r]) of (rs', recs) \<Rightarrow> (rs', r # recs))"

definition claim_order :: "instant \<Rightarrow> nat \<Rightarrow> OutboxRecord list \<Rightarrow> nat list" where
  "claim_order t n rs =
     take n (sort_key (\<lambda>i. (available_at (rs ! i), sequence (rs ! i)))
       (filter (\<lambda>i. is_claimable (rs ! i) t) [0..<length rs]))"

definition try_acquire ::
    "AcquireRequest \<Rightarrow> Inner \<Rightarrow> Inner \<times> (AcquiredBatch, InMemoryStoreError) result" where
  "try_acquire rq = guarded (\<lambda>s.
     let until = im_now s + int (ar_lease rq);
         idx = claim_order (im_now s) (unat (ar_batch_size rq)) (im_rows s)
     in case claim_indices (ar_worker rq) until idx (im_rows s) of
          (rs, recs) \<Rightarrow> (s\<lparr>im_rows := rs\<rparr>, \<lparr>ab_records = recs, ab_poisoned = []\<rparr>))"

definition try_complete ::
    "WorkerId \<Rightarrow> CompletedMessage list \<Rightarrow> Inner \<Rightarrow> Inner \<times> (nat, InMemoryStoreError) result" where
  "try_complete w items s =
     (case take_fail_next_complete (s\<lparr>complete_calls := complete_calls s + 1\<rparr>) of
        (s', True) \<Rightarrow> (s', Err Injected)
      | (s', False) \<Rightarrow> guarded (\<lambda>s.
          on_rows (for_owned w cm_message (\<lambda>_ r.
            r\<lparr>published_at := Some (im_now s), attempts := saturating_add (attempts r) 1,
              locked_by := None, locked_until := None\<rparr>) items) s) s')"

definition try_fail ::
    "WorkerId \<Rightarrow> FailedMessage list \<Rightarrow> Inner \<Rightarrow> Inner \<times> (nat, InMemoryStoreError) result" where
  "try_fail w items = guarded (\<lambda>s.
     on_rows (for_owned w fm_message (\<lambda>item r.
       let r' = r\<lparr>attempts := saturating_add (attempts r) 1,
                 last_error := Some (truncate_error (fm_error item))\<rparr>
       in case fm_outcome item of
            Retry delay \<Rightarrow> r'\<lparr>available_at := im_now s + int delay, locked_by := None,
              locked_until := None\<rparr>
          | Dead reason \<Rightarrow> r'\<lparr>dead_at := Some (im_now s), dead_reason := Some reason,
              locked_by := None, locked_until := None\<rparr>) items) s)"

definition try_release ::
    "WorkerId \<Rightarrow> MessageRef list \<Rightarrow> Inner \<Rightarrow> Inner \<times> (nat, InMemoryStoreError) result" where
  "try_release w items = guarded
     (on_rows (for_owned w (\<lambda>m. m) (\<lambda>_ r. r\<lparr>locked_by := None, locked_until := None\<rparr>) items))"

definition try_extend_lease ::
    "WorkerId \<Rightarrow> MessageRef list \<Rightarrow> duration \<Rightarrow> Inner \<Rightarrow> Inner \<times> (nat, InMemoryStoreError) result" where
  "try_extend_lease w items d = guarded (\<lambda>s.
     on_rows (for_owned w (\<lambda>m. m) (\<lambda>_ r. r\<lparr>locked_until := Some (im_now s + int d)\<rparr>) items) s)"

text \<open>The sweep of \<^verbatim>\<open>try_purge\<close>: \<open>k\<close> counts down from the batch size.\<close>

fun sweep_expired :: "nat \<Rightarrow> instant \<Rightarrow> OutboxRecord list \<Rightarrow> OutboxRecord list \<times> nat" where
  "sweep_expired k t [] = ([], 0)"
| "sweep_expired k t (r # rs) =
     (if k = 0 then (r # rs, 0)
      else if published_at r \<noteq> None \<or> dead_at r \<noteq> None \<or> \<not> lease_is_free r t
      then (case sweep_expired k t rs of (rs', n) \<Rightarrow> (r # rs', n))
      else (case expires_at (delivery (metadata (envelope r))) of
              None \<Rightarrow> (case sweep_expired k t rs of (rs', n) \<Rightarrow> (r # rs', n))
            | Some x \<Rightarrow>
                if x \<le> t
                then (case sweep_expired (k - 1) t rs of (rs', n) \<Rightarrow>
                  (r\<lparr>dead_at := Some t, dead_reason := Some Expired, locked_by := None,
                     locked_until := None, last_error := Some expired_error_message\<rparr> # rs', Suc n))
                else (case sweep_expired k t rs of (rs', n) \<Rightarrow> (r # rs', n))))"

definition older_than :: "instant option \<Rightarrow> instant \<Rightarrow> bool" where
  "older_than a before = (case a of None \<Rightarrow> False | Some t \<Rightarrow> t < before)"

definition try_purge ::
    "PurgeRequest \<Rightarrow> Inner \<Rightarrow> Inner \<times> (PurgeReport, InMemoryStoreError) result" where
  "try_purge rq = guarded (\<lambda>s.
     let k = unat (pq_batch_size rq); t = im_now s;
         (rs1, swept) = sweep_expired k t (im_rows s);
         (rs2, pub) = (case published_retention rq of
            None \<Rightarrow> (rs1, 0)
          | Some d \<Rightarrow> retain_upto k (\<lambda>r. older_than (published_at r) (t - int d)) rs1);
         (rs3, dd) = (case dead_retention rq of
            None \<Rightarrow> (rs2, 0)
          | Some d \<Rightarrow> retain_upto k (\<lambda>r. older_than (dead_at r) (t - int d)) rs2)
     in (s\<lparr>im_rows := rs3\<rparr>,
         \<lparr>published_deleted = pub, dead_deleted = dd, expired_to_dead = swept\<rparr>))"

fun stats_row :: "instant \<Rightarrow> OutboxRecord \<Rightarrow> OutboxStats \<Rightarrow> OutboxStats" where
  "stats_row t r st =
     (if dead_at r \<noteq> None then st\<lparr>dead := dead st + 1\<rparr>
      else if published_at r \<noteq> None then st
      else if (case expires_at (delivery (metadata (envelope r))) of None \<Rightarrow> False | Some x \<Rightarrow> x \<le> t)
      then st\<lparr>expired_pending := expired_pending st + 1\<rparr>
      else if is_claimable r t
      then st\<lparr>pending := pending st + 1,
             oldest_pending_available_at := Some
               (case oldest_pending_available_at st of
                  Some current \<Rightarrow> if current \<le> available_at r then current else available_at r
                | None \<Rightarrow> available_at r)\<rparr>
      else st)"

definition try_stats :: "Inner \<Rightarrow> Inner \<times> (OutboxStats, InMemoryStoreError) result" where
  "try_stats = guarded (\<lambda>s.
     (s, fold (stats_row (im_now s)) (im_rows s)
        \<lparr>pending = 0, dead = 0, expired_pending = 0, oldest_pending_available_at = None,
         as_of = im_now s\<rparr>))"

section \<open>Hangs\<close>

text \<open>\<^verbatim>\<open>complete\<close> and \<^verbatim>\<open>fail\<close> run at the call, or, with a hang armed, after the sleep.\<close>

datatype 'a HangState = Eager 'a | Deferred duration

definition im_complete ::
    "WorkerId \<Rightarrow> CompletedMessage list \<Rightarrow> Inner \<Rightarrow> Inner \<times> (nat, InMemoryStoreError) result HangState" where
  "im_complete w items s =
     (case take_hang s of
        (s', None) \<Rightarrow> (case try_complete w items s' of (s'', x) \<Rightarrow> (s'', Eager x))
      | (s', Some d) \<Rightarrow> (s', Deferred d))"

definition im_fail ::
    "WorkerId \<Rightarrow> FailedMessage list \<Rightarrow> Inner \<Rightarrow> Inner \<times> (nat, InMemoryStoreError) result HangState" where
  "im_fail w items s =
     (case take_hang s of
        (s', None) \<Rightarrow> (case try_fail w items s' of (s'', x) \<Rightarrow> (s'', Eager x))
      | (s', Some d) \<Rightarrow> (s', Deferred d))"

section \<open>Dead letters\<close>

definition dead_matches :: "DeadQuery \<Rightarrow> OutboxRecord \<Rightarrow> bool" where
  "dead_matches q r \<longleftrightarrow>
     dead_at r \<noteq> None
     \<and> (case dq_message_type q of None \<Rightarrow> True | Some ty \<Rightarrow> mt_name (message_type (envelope r)) = ty)
     \<and> (case dq_tenant_id q of None \<Rightarrow> True | Some tn \<Rightarrow> tenant_id (metadata (envelope r)) = Some tn)
     \<and> (case dead_before q of None \<Rightarrow> True | Some before \<Rightarrow> older_than (dead_at r) before)
     \<and> (case after_sequence q of None \<Rightarrow> True | Some after \<Rightarrow> sequence r > after)"

definition list_dead :: "DeadQuery \<Rightarrow> Inner \<Rightarrow> DeadLetterPage" where
  "list_dead q s =
     (let page = take (unat (limit q)) (sort_key sequence (filter (dead_matches q) (im_rows s)));
          nxt = (if length page = unat (limit q) \<and> page \<noteq> [] then Some (sequence (last page)) else None)
      in \<lparr>dl_records = page, dl_poisoned = [], next_after_sequence = nxt\<rparr>)"

definition dead_ref_matches :: "MessageRef \<Rightarrow> OutboxRecord \<Rightarrow> bool" where
  "dead_ref_matches m r \<longleftrightarrow> env_id (envelope r) = mr_id m \<and> created_at r = mr_created_at m"

fun retry_dead_rows :: "instant \<Rightarrow> MessageRef list \<Rightarrow> OutboxRecord list \<Rightarrow> OutboxRecord list \<times> nat" where
  "retry_dead_rows t [] rs = (rs, 0)"
| "retry_dead_rows t (m # ms) rs =
     (case update_first (\<lambda>r. dead_ref_matches m r \<and> dead_at r \<noteq> None)
             (\<lambda>r. r\<lparr>dead_at := None, dead_reason := None, available_at := t, attempts := 0\<rparr>) rs of
        (rs', found) \<Rightarrow> (case retry_dead_rows t ms rs' of
           (rs'', n) \<Rightarrow> (rs'', if found then Suc n else n)))"

definition retry_dead :: "MessageRef list \<Rightarrow> Inner \<Rightarrow> Inner \<times> nat" where
  "retry_dead refs s = on_rows (retry_dead_rows (im_now s) refs) s"

definition purge_dead :: "MessageRef list \<Rightarrow> Inner \<Rightarrow> Inner \<times> nat" where
  "purge_dead refs s =
     (let hit = (\<lambda>r. dead_at r \<noteq> None \<and> list_ex (\<lambda>m. dead_ref_matches m r) refs)
      in (s\<lparr>im_rows := filter (\<lambda>r. \<not> hit r) (im_rows s)\<rparr>, length (filter hit (im_rows s))))"

section \<open>The loops as updates over all rows\<close>

lemma is_owned_iff: "is_owned w m r \<longleftrightarrow> locked_by r = Some w \<and> message_ref r = m"
  by (cases m) (auto simp: is_owned_def message_ref_def)

lemma is_claimable_eq [simp]: "is_claimable r t = claimable r t"
  by (simp add: is_claimable_def claimable_def lease_is_free_def lease_free_def)

lemma update_first_owned:
  "distinct (map message_ref rs) \<Longrightarrow>
   fst (update_first (is_owned w m) f rs) = map (\<lambda>r. if is_owned w m r then f r else r) rs"
  by (rule update_first_unique [where key = message_ref]) (simp_all add: is_owned_iff)

lemma for_owned_Cons:
  "fst (for_owned w ref f (i # is) rs)
     = fst (for_owned w ref f is (fst (update_first (is_owned w (ref i)) (f i) rs)))"
  by (simp split: prod.splits)

lemma for_owned_all:
  assumes "\<forall>r \<in> set rs. P r" "\<And>i r. P r \<Longrightarrow> locked_by r = Some w \<Longrightarrow> P (f i r)"
  shows "\<forall>r \<in> set (fst (for_owned w ref f is rs)). P r"
  using assms(1)
proof (induction "is" arbitrary: rs)
  case (Cons i "is")
  have "\<forall>r \<in> set (fst (update_first (is_owned w (ref i)) (f i) rs)). P r"
    by (rule update_first_all [OF Cons.prems]) (simp add: is_owned_iff assms(2))
  then show ?case unfolding for_owned_Cons by (rule Cons.IH)
qed simp

lemma for_owned_map:
  assumes "\<And>i r. g (f i r) = g r"
  shows "map g (fst (for_owned w ref f is rs)) = map g rs"
  by (induction "is" arbitrary: rs) (simp_all add: for_owned_Cons update_first_map assms del: for_owned.simps(2))

text \<open>An update that gives up the lease is applied once to each row the worker holds, with the
  first item that names it.\<close>

definition owned_update ::
    "WorkerId \<Rightarrow> ('i \<Rightarrow> MessageRef) \<Rightarrow> ('i \<Rightarrow> OutboxRecord \<Rightarrow> OutboxRecord) \<Rightarrow> 'i list \<Rightarrow> OutboxRecord \<Rightarrow> OutboxRecord" where
  "owned_update w ref f is r =
     (if locked_by r = Some w
      then (case find (\<lambda>i. ref i = message_ref r) is of None \<Rightarrow> r | Some i \<Rightarrow> f i r)
      else r)"

lemma for_owned_releasing:
  assumes "\<And>i r. locked_by (f i r) = None" "\<And>i r. message_ref (f i r) = message_ref r"
    and "distinct (map message_ref rs)"
  shows "fst (for_owned w ref f is rs) = map (owned_update w ref f is) rs"
  using assms(3)
proof (induction "is" arbitrary: rs)
  case Nil
  show ?case by (simp add: owned_update_def map_idI)
next
  case (Cons i "is")
  let ?rs = "map (\<lambda>r. if is_owned w (ref i) r then f i r else r) rs"
  have "map message_ref ?rs = map message_ref rs" by (simp add: assms(2))
  then have "fst (for_owned w ref f (i # is) rs) = map (owned_update w ref f is) ?rs"
    using Cons.IH [of ?rs] Cons.prems by (simp only: for_owned_Cons update_first_owned)
  also have "\<dots> = map (owned_update w ref f (i # is)) rs"
    using assms(1) by (auto simp: owned_update_def is_owned_iff)
  finally show ?case .
qed

lemma for_owned_idempotent:
  assumes "\<And>r. locked_by (f r) = locked_by r" "\<And>r. message_ref (f r) = message_ref r"
    and "\<And>r. f (f r) = f r" "distinct (map message_ref rs)"
  shows "fst (for_owned w (\<lambda>m. m) (\<lambda>_. f) ms rs) = update_owned w ms f rs"
  using assms(4)
proof (induction ms arbitrary: rs)
  case Nil
  show ?case by (simp add: update_owned_def)
next
  case (Cons m ms)
  let ?rs = "map (\<lambda>r. if is_owned w m r then f r else r) rs"
  have "map message_ref ?rs = map message_ref rs" by (simp add: assms(2))
  then have "fst (for_owned w (\<lambda>m. m) (\<lambda>_. f) (m # ms) rs) = update_owned w ms f ?rs"
    using Cons.IH [of ?rs] Cons.prems by (simp only: for_owned_Cons update_first_owned)
  also have "\<dots> = update_owned w (m # ms) f rs"
    using assms(1,2,3) by (auto simp: update_owned_def is_owned_iff)
  finally show ?case .
qed

lemma find_in_map: "find (\<lambda>i. ref i = m) is = None \<longleftrightarrow> m \<notin> ref ` set is"
  by (auto simp: find_None_iff)

lemma owned_update_const:
  "map (owned_update w ref (\<lambda>_. f) is) rs = update_owned w (map ref is) f rs"
proof -
  have "owned_update w ref (\<lambda>_. f) is r
      = (if locked_by r = Some w \<and> message_ref r \<in> set (map ref is) then f r else r)" for r
    using find_in_map [of ref "message_ref r" "is"]
    by (cases "find (\<lambda>i. ref i = message_ref r) is") (auto simp: owned_update_def)
  then show ?thesis by (simp add: update_owned_def)
qed

section \<open>Claiming\<close>

lemma claim_indices_correct:
  assumes "distinct is" "\<forall>i \<in> set is. i < length rs"
  shows "claim_indices w u is rs =
    (map (\<lambda>j. if j \<in> set is then row_leased w u (rs ! j) else rs ! j) [0..<length rs],
     map (\<lambda>i. row_leased w u (rs ! i)) is)"
  using assms
proof (induction "is" arbitrary: rs)
  case Nil
  show ?case by (simp add: map_nth)
next
  case (Cons i "is")
  let ?r = "row_leased w u (rs ! i)"
  have IH: "claim_indices w u is (rs[i := ?r]) =
    (map (\<lambda>j. if j \<in> set is then row_leased w u (rs[i := ?r] ! j) else rs[i := ?r] ! j)
        [0..<length rs],
     map (\<lambda>j. row_leased w u (rs[i := ?r] ! j)) is)"
    using Cons.IH [of "rs[i := ?r]"] Cons.prems by simp
  have 1: "map (\<lambda>j. row_leased w u (rs[i := ?r] ! j)) is = map (\<lambda>j. row_leased w u (rs ! j)) is"
    using Cons.prems by (intro map_cong refl) (auto simp: nth_list_update)
  have 2: "map (\<lambda>j. if j \<in> set is then row_leased w u (rs[i := ?r] ! j) else rs[i := ?r] ! j)
        [0..<length rs]
    = map (\<lambda>j. if j \<in> set (i # is) then row_leased w u (rs ! j) else rs ! j) [0..<length rs]"
    using Cons.prems by (intro map_cong refl) (auto simp: nth_list_update)
  show ?case using IH unfolding 1 2 by (simp add: Let_def row_leased_def)
qed

lemma claim_order_props:
  "distinct (claim_order t n rs)" "i \<in> set (claim_order t n rs) \<Longrightarrow> i < length rs"
  "map ((!) rs) (claim_order t n rs) = spec_claimed t n rs"
proof -
  show "distinct (claim_order t n rs)" by (simp add: claim_order_def)
  show "i \<in> set (claim_order t n rs) \<Longrightarrow> i < length rs"
    using set_take_subset by (fastforce simp: claim_order_def)
  show "map ((!) rs) (claim_order t n rs) = spec_claimed t n rs"
    using map_sort_key [of "(!) rs" claim_key "filter (\<lambda>i. claimable (rs ! i) t) [0..<length rs]"]
      map_nth_filter_upt [of rs "\<lambda>r. claimable r t"]
    by (simp add: claim_order_def spec_claimed_def take_map [symmetric] claim_key_def)
qed

lemma claim_correct:
  assumes "distinct rs"
  shows "claim_indices w u (claim_order t n rs) rs =
    (spec_acquire t u w n rs, map (row_leased w u) (spec_claimed t n rs))"
proof -
  let ?is = "claim_order t n rs"
  have mem: "j \<in> set ?is \<longleftrightarrow> rs ! j \<in> set (spec_claimed t n rs)" if "j < length rs" for j
  proof -
    have "set (spec_claimed t n rs) = (!) rs ` set ?is"
      using claim_order_props(3) [of rs t n] by (metis list.set_map)
    then show ?thesis
      using that claim_order_props(2) assms by (auto simp: nth_eq_iff_index_eq)
  qed
  have "map (\<lambda>j. if j \<in> set ?is then row_leased w u (rs ! j) else rs ! j) [0..<length rs]
      = map (\<lambda>r. if r \<in> set (spec_claimed t n rs) then row_leased w u r else r)
          (map ((!) rs) [0..<length rs])"
    by (simp add: mem)
  moreover have "map (\<lambda>i. row_leased w u (rs ! i)) ?is = map (row_leased w u) (map ((!) rs) ?is)"
    by simp
  ultimately show ?thesis
    using claim_indices_correct [OF claim_order_props(1), of t n rs rs w u] claim_order_props(2)
    by (simp only: map_nth claim_order_props(3) spec_acquire_def) blast
qed

section \<open>The invariant\<close>

definition im_inv :: "Inner \<Rightarrow> bool" where
  "im_inv s \<longleftrightarrow>
     (\<forall>r \<in> set (im_rows s). row_wf r \<and> sequence r < next_sequence s)
     \<and> distinct (map sequence (im_rows s))"

text \<open>The invariant of a store in which no message was inserted twice at the same instant.\<close>

definition im_inv_refs :: "Inner \<Rightarrow> bool" where
  "im_inv_refs s \<longleftrightarrow> im_inv s \<and> distinct (map message_ref (im_rows s))"

lemma take_injected_frame [simp]:
  "im_rows (fst (take_injected_failure s)) = im_rows s"
  "next_sequence (fst (take_injected_failure s)) = next_sequence s"
  "im_now (fst (take_injected_failure s)) = im_now s"
  by (simp_all add: take_injected_failure_def)

lemma take_fail_next_complete_frame [simp]:
  "im_rows (fst (take_fail_next_complete s)) = im_rows s"
  "next_sequence (fst (take_fail_next_complete s)) = next_sequence s"
  "im_now (fst (take_fail_next_complete s)) = im_now s"
  by (simp_all add: take_fail_next_complete_def)

lemma take_fail_next_enqueue_frame [simp]:
  "im_rows (fst (take_fail_next_enqueue s)) = im_rows s"
  "next_sequence (fst (take_fail_next_enqueue s)) = next_sequence s"
  "im_now (fst (take_fail_next_enqueue s)) = im_now s"
  by (simp_all add: take_fail_next_enqueue_def)

lemma take_hang_frame [simp]:
  "im_rows (fst (take_hang s)) = im_rows s" "next_sequence (fst (take_hang s)) = next_sequence s"
  "im_now (fst (take_hang s)) = im_now s"
  by (simp_all add: take_hang_def)

text \<open>A guarded operation either fails and changes nothing but a counter, or runs on a state with
  the same rows, clock and next sequence number.\<close>

lemma guarded_cases:
  obtains (err) e s' where "guarded f s = (s', Err e)" "im_rows s' = im_rows s"
      "next_sequence s' = next_sequence s" "im_now s' = im_now s"
    | (ok) s0 where "guarded f s = (fst (f s0), Ok (snd (f s0)))" "im_rows s0 = im_rows s"
      "next_sequence s0 = next_sequence s" "im_now s0 = im_now s"
proof (cases "take_injected_failure s")
  case (Pair s' x)
  then have fr: "im_rows s' = im_rows s" "next_sequence s' = next_sequence s" "im_now s' = im_now s"
    using take_injected_frame [of s] by simp_all
  show thesis
  proof (cases x)
    case None
    then show thesis using ok [OF _ fr] Pair by (simp add: guarded_def split_def)
  next
    case (Some e)
    then show thesis using err [OF _ fr] Pair by (simp add: guarded_def)
  qed
qed

lemma im_inv_rows_change:
  assumes "im_inv s" "\<forall>r \<in> set rs. row_wf r" "map sequence rs = map sequence (im_rows s)"
  shows "im_inv (s\<lparr>im_rows := rs\<rparr>)"
proof -
  have "\<forall>q \<in> set (map sequence rs). q < next_sequence s"
    using assms(1) unfolding assms(3) by (auto simp: im_inv_def)
  then have "\<forall>r \<in> set rs. sequence r < next_sequence s" by simp
  then show ?thesis using assms by (simp add: im_inv_def)
qed

lemma im_inv_same:
  "im_rows s' = im_rows s \<Longrightarrow> next_sequence s' = next_sequence s \<Longrightarrow> im_inv s' = im_inv s"
  by (simp add: im_inv_def)

lemma im_inv_on_rows:
  assumes "im_inv s" "\<And>rs. \<forall>r \<in> set rs. row_wf r \<Longrightarrow> \<forall>r \<in> set (fst (f rs)). row_wf r"
    and "\<And>rs. map sequence (fst (f rs)) = map sequence rs"
  shows "im_inv (fst (on_rows f s))"
  using im_inv_rows_change [OF assms(1), of "fst (f (im_rows s))"] assms
  by (auto simp: on_rows_def im_inv_def split_def)

lemma im_inv_guarded:
  assumes "im_inv s" "\<And>s. im_inv s \<Longrightarrow> im_inv (fst (f s))"
  shows "im_inv (fst (guarded f s))"
proof (cases rule: guarded_cases [of f s])
  case (err e s')
  then show ?thesis using assms(1) im_inv_same [of s' s] by simp
next
  case (ok s0)
  then show ?thesis using assms im_inv_same [of s0 s] by simp
qed

text \<open>The operations with the row updates of the contract.\<close>

lemma try_complete_eq:
  "try_complete w items s =
     (case take_fail_next_complete (s\<lparr>complete_calls := complete_calls s + 1\<rparr>) of
        (s', True) \<Rightarrow> (s', Err Injected)
      | (s', False) \<Rightarrow> guarded (\<lambda>s.
          on_rows (for_owned w cm_message (\<lambda>_. row_completed (im_now s)) items) s) s')"
  unfolding try_complete_def row_completed_def ..

lemma try_fail_eq:
  "try_fail w items = guarded (\<lambda>s.
     on_rows (for_owned w fm_message (\<lambda>i. row_failed (im_now s) (fm_error i) (fm_outcome i)) items) s)"
  unfolding try_fail_def row_failed_def ..

lemma try_release_eq:
  "try_release w items = guarded (on_rows (for_owned w (\<lambda>m. m) (\<lambda>_. clear_lease) items))"
  unfolding try_release_def clear_lease_def ..

lemma for_owned_wf_seq:
  assumes "\<And>i r. row_wf r \<Longrightarrow> locked_by r = Some w \<Longrightarrow> row_wf (f i r)"
    and "\<And>i r. sequence (f i r) = sequence r"
  shows "\<forall>r \<in> set rs. row_wf r \<Longrightarrow> \<forall>r \<in> set (fst (for_owned w ref f is rs)). row_wf r"
    "map sequence (fst (for_owned w ref f is rs)) = map sequence rs"
  using for_owned_all [of rs row_wf w f ref "is"] for_owned_map [of sequence f w ref "is" rs] assms
  by blast+

lemma im_inv_fail: "im_inv s \<Longrightarrow> im_inv (fst (try_fail w items s))"
  unfolding try_fail_eq
  by (intro im_inv_guarded im_inv_on_rows for_owned_wf_seq row_wf_intros) simp_all

lemma im_inv_release: "im_inv s \<Longrightarrow> im_inv (fst (try_release w items s))"
  unfolding try_release_eq
  by (intro im_inv_guarded im_inv_on_rows for_owned_wf_seq row_wf_intros) simp_all

lemma im_inv_extend: "im_inv s \<Longrightarrow> im_inv (fst (try_extend_lease w items d s))"
  unfolding try_extend_lease_def
  by (intro im_inv_guarded im_inv_on_rows for_owned_wf_seq row_wf_intros) simp_all

lemma im_inv_complete: "im_inv s \<Longrightarrow> im_inv (fst (try_complete w items s))"
proof -
  assume s: "im_inv s"
  obtain s' b where t: "take_fail_next_complete (s\<lparr>complete_calls := complete_calls s + 1\<rparr>) = (s', b)"
    by (rule prod.exhaust)
  then have "im_inv s'"
    using s take_fail_next_complete_frame [of "s\<lparr>complete_calls := complete_calls s + 1\<rparr>"]
    by (simp add: im_inv_def)
  moreover have "im_inv (fst (guarded (\<lambda>s. on_rows
      (for_owned w cm_message (\<lambda>_. row_completed (im_now s)) items) s) s'))" if "im_inv s'"
    using that by (intro im_inv_guarded im_inv_on_rows for_owned_wf_seq row_wf_intros) simp_all
  ultimately show ?thesis using t by (cases b) (simp_all add: try_complete_eq)
qed

lemma set_spec_claimed: "r \<in> set (spec_claimed t n rs) \<Longrightarrow> r \<in> set rs \<and> claimable r t"
  using set_take_subset by (fastforce simp: spec_claimed_def)

lemma acquire_body:
  assumes "im_inv s"
  shows "(let until = im_now s + int (ar_lease rq);
              idx = claim_order (im_now s) (unat (ar_batch_size rq)) (im_rows s)
          in case claim_indices (ar_worker rq) until idx (im_rows s) of
               (rs, recs) \<Rightarrow> (s\<lparr>im_rows := rs\<rparr>, \<lparr>ab_records = recs, ab_poisoned = []\<rparr>))
    = (s\<lparr>im_rows := spec_acquire (im_now s) (im_now s + int (ar_lease rq)) (ar_worker rq)
           (unat (ar_batch_size rq)) (im_rows s)\<rparr>,
       \<lparr>ab_records = map (row_leased (ar_worker rq) (im_now s + int (ar_lease rq)))
           (spec_claimed (im_now s) (unat (ar_batch_size rq)) (im_rows s)), ab_poisoned = []\<rparr>)"
proof -
  have "distinct (im_rows s)" using assms by (simp add: im_inv_def distinct_map)
  then show ?thesis by (simp add: claim_correct Let_def)
qed

lemma map_spec_acquire:
  "(\<And>r. g (row_leased w u r) = g r) \<Longrightarrow> map g (spec_acquire t u w n rs) = map g rs"
  by (simp add: spec_acquire_def)

lemma im_inv_acquire: "im_inv s \<Longrightarrow> im_inv (fst (try_acquire rq s))"
  unfolding try_acquire_def
proof (erule im_inv_guarded)
  fix s assume s: "im_inv s"
  have "\<forall>r \<in> set (spec_acquire t u w n (im_rows s)). row_wf r" for t u w n
    using s set_spec_claimed claimable_wf_leased
    by (fastforce simp: spec_acquire_def im_inv_def)
  with s show "im_inv (fst (let until = im_now s + int (ar_lease rq);
              idx = claim_order (im_now s) (unat (ar_batch_size rq)) (im_rows s)
          in case claim_indices (ar_worker rq) until idx (im_rows s) of
               (rs, recs) \<Rightarrow> (s\<lparr>im_rows := rs\<rparr>, \<lparr>ab_records = recs, ab_poisoned = []\<rparr>)))"
    unfolding acquire_body [OF s] fst_conv
    by (intro im_inv_rows_change map_spec_acquire) simp_all
qed

lemma im_inv_insert_row: "im_inv s \<Longrightarrow> im_inv (fst (insert_row e a k s))"
  by (force simp: insert_row_def Let_def im_inv_def row_wf_def builder_available_at_def
      builder_ordering_key_def record_builder_def)

lemma im_inv_enqueue: "im_inv s \<Longrightarrow> im_inv (fst (try_enqueue e s))"
proof -
  assume s: "im_inv s"
  obtain s' b where t: "take_fail_next_enqueue (s\<lparr>enqueue_calls := enqueue_calls s + 1\<rparr>) = (s', b)"
    by (rule prod.exhaust)
  then have "im_inv s'"
    using s take_fail_next_enqueue_frame [of "s\<lparr>enqueue_calls := enqueue_calls s + 1\<rparr>"]
    by (simp add: im_inv_def)
  then show ?thesis
    using t im_inv_insert_row [of s' e None None]
    by (cases b) (simp_all add: try_enqueue_def im_insert_def split_def)
qed

subsection \<open>Purging\<close>

definition row_expired :: "instant \<Rightarrow> OutboxRecord \<Rightarrow> OutboxRecord" where
  "row_expired t r =
     r\<lparr>dead_at := Some t, dead_reason := Some Expired, locked_by := None, locked_until := None,
       last_error := Some expired_error_message\<rparr>"

definition sweepable :: "instant \<Rightarrow> OutboxRecord \<Rightarrow> bool" where
  "sweepable t r \<longleftrightarrow>
     published_at r = None \<and> dead_at r = None \<and> lease_free r t
     \<and> (\<exists>x. expires_at (delivery (metadata (envelope r))) = Some x \<and> x \<le> t)"

text \<open>The sweep is a bounded update of the rows that are expired and unowned.\<close>

lemma sweep_expired_eq:
  "sweep_expired k t (r # rs) =
     (if k = 0 then (r # rs, 0)
      else if sweepable t r
      then (row_expired t r # fst (sweep_expired (k - 1) t rs), Suc (snd (sweep_expired (k - 1) t rs)))
      else (r # fst (sweep_expired k t rs), snd (sweep_expired k t rs)))"
  by (auto simp: sweepable_def row_expired_def lease_is_free_def lease_free_def split_def
      split: option.splits)

lemma sweep_expired_map:
  "(\<And>r. g (row_expired t r) = g r) \<Longrightarrow> map g (fst (sweep_expired k t rs)) = map g rs"
  by (induction rs arbitrary: k) (simp_all add: sweep_expired_eq del: sweep_expired.simps(2))

lemma sweep_expired_all:
  "\<forall>r \<in> set rs. P r \<Longrightarrow> (\<And>r. P r \<Longrightarrow> sweepable t r \<Longrightarrow> P (row_expired t r))
   \<Longrightarrow> \<forall>r \<in> set (fst (sweep_expired k t rs)). P r"
  by (induction rs arbitrary: k) (simp_all add: sweep_expired_eq del: sweep_expired.simps(2))

lemma sweep_expired_bound: "snd (sweep_expired k t rs) \<le> k"
proof (induction rs arbitrary: k)
  case (Cons r rs)
  from Cons [of "k - 1"] Cons [of k] show ?case
    by (auto simp: sweep_expired_eq simp del: sweep_expired.simps(2))
qed simp

lemma not_sweepable_expired: "\<not> sweepable t (row_expired t r)"
  by (simp add: sweepable_def row_expired_def)

lemma sweep_expired_complete:
  "snd (sweep_expired k t rs) < k \<Longrightarrow> \<forall>r \<in> set (fst (sweep_expired k t rs)). \<not> sweepable t r"
proof (induction rs arbitrary: k)
  case (Cons r rs)
  from Cons.IH [of "k - 1"] Cons.IH [of k] Cons.prems show ?case
    by (auto simp: sweep_expired_eq not_sweepable_expired simp del: sweep_expired.simps(2) split: if_splits)
qed simp

lemma row_wf_expired: "row_wf r \<Longrightarrow> sweepable t r \<Longrightarrow> row_wf (row_expired t r)"
  by (simp add: row_wf_def sweepable_def row_expired_def expired_error_message_def max_error_len_def)

definition purge_rows :: "PurgeRequest \<Rightarrow> instant \<Rightarrow> OutboxRecord list \<Rightarrow> OutboxRecord list \<times> PurgeReport" where
  "purge_rows rq t rs0 =
     (let k = unat (pq_batch_size rq);
          (rs1, swept) = sweep_expired k t rs0;
          (rs2, pub) = (case published_retention rq of
             None \<Rightarrow> (rs1, 0)
           | Some d \<Rightarrow> retain_upto k (\<lambda>r. older_than (published_at r) (t - int d)) rs1);
          (rs3, dd) = (case dead_retention rq of
             None \<Rightarrow> (rs2, 0)
           | Some d \<Rightarrow> retain_upto k (\<lambda>r. older_than (dead_at r) (t - int d)) rs2)
      in (rs3, \<lparr>published_deleted = pub, dead_deleted = dd, expired_to_dead = swept\<rparr>))"

lemma try_purge_eq:
  "try_purge rq = guarded (\<lambda>s. (s\<lparr>im_rows := fst (purge_rows rq (im_now s) (im_rows s))\<rparr>,
     snd (purge_rows rq (im_now s) (im_rows s))))"
  by (simp add: try_purge_def purge_rows_def Let_def split_def)

lemma purge_rows_wf:
  assumes "\<forall>r \<in> set rs. row_wf r \<and> sequence r < q" "distinct (map sequence rs)"
  shows "(\<forall>r \<in> set (fst (purge_rows rq t rs)). row_wf r \<and> sequence r < q)
    \<and> distinct (map sequence (fst (purge_rows rq t rs)))"
proof -
  let ?rs1 = "fst (sweep_expired (unat (pq_batch_size rq)) t rs)"
  have 1: "\<forall>r \<in> set ?rs1. row_wf r \<and> sequence r < q"
    using assms(1) by (rule sweep_expired_all) (simp_all add: row_wf_expired, simp add: row_expired_def)
  have 2: "distinct (map sequence ?rs1)"
    using assms(2) by (subst sweep_expired_map) (simp_all add: row_expired_def)
  have keep: "(\<forall>r \<in> set (fst (retain_upto k p xs)). row_wf r \<and> sequence r < q)
      \<and> distinct (map sequence (fst (retain_upto k p xs)))"
    if "\<forall>r \<in> set xs. row_wf r \<and> sequence r < q" "distinct (map sequence xs)" for k p xs
    using that(1) retain_upto_subset [of k p xs] retain_upto_distinct [OF that(2), of k p] by blast
  note keep1 = keep [OF 1 2]
  show ?thesis
    using 1 2 keep1 keep [OF keep1 [THEN conjunct1] keep1 [THEN conjunct2]]
    by (cases "published_retention rq"; cases "dead_retention rq")
      (simp_all only: purge_rows_def Let_def split_def option.case fst_conv)
qed

lemma im_inv_purge: "im_inv s \<Longrightarrow> im_inv (fst (try_purge rq s))"
  unfolding try_purge_eq
proof (erule im_inv_guarded)
  fix s assume s: "im_inv s"
  let ?rs = "fst (purge_rows rq (im_now s) (im_rows s))"
  have "(\<forall>r \<in> set ?rs. row_wf r \<and> sequence r < next_sequence s) \<and> distinct (map sequence ?rs)"
    using s by (intro purge_rows_wf) (simp_all add: im_inv_def)
  then show "im_inv (fst (s\<lparr>im_rows := ?rs\<rparr>, snd (purge_rows rq (im_now s) (im_rows s))))"
    by (simp add: im_inv_def)
qed

end
