(* ===== verification/In_Memory_Props.thy ===== *)
theory In_Memory_Props
  imports In_Memory_Store
begin

text \<open>
  The in-memory store meets the contract (the interpretation \<open>im\<close> of \<open>outbox_store\<close>), keeps its
  invariant over every sequence of operations (the step relation \<open>im_step\<close>), and pages, purges and
  counts as documented.
\<close>

section \<open>The by-reference operations\<close>

lemma on_rows_simps [simp]:
  "im_rows (fst (on_rows f s)) = fst (f (im_rows s))" "im_now (fst (on_rows f s)) = im_now s"
  "next_sequence (fst (on_rows f s)) = next_sequence s"
  by (simp_all add: on_rows_def split_def)

lemma guarded_Ok:
  assumes "guarded f s = (s', Ok x)"
  obtains s0 where "s' = fst (f s0)" "x = snd (f s0)" "im_rows s0 = im_rows s"
    "next_sequence s0 = next_sequence s" "im_now s0 = im_now s"
proof (cases rule: guarded_cases [of f s])
  case (ok s0)
  with assms have "s' = fst (f s0)" "x = snd (f s0)" by simp_all
  then show thesis using ok(2-4) by (rule that)
qed (use assms in simp)

lemma guarded_Err: "guarded f s = (s', Err e) \<Longrightarrow> im_rows s' = im_rows s"
  by (cases rule: guarded_cases [of f s]) auto

lemma fail_releasing:
  assumes "distinct (map message_ref rs)"
  shows "fst (for_owned w fm_message (\<lambda>i. row_failed t (fm_error i) (fm_outcome i)) items rs)
    = spec_fail t w items rs"
  using assms
  by (subst for_owned_releasing) (simp_all add: spec_fail_def owned_update_def failure_for_def)

lemma complete_releasing:
  "distinct (map message_ref rs) \<Longrightarrow>
   fst (for_owned w cm_message (\<lambda>_. row_completed t) items rs) = spec_complete t w items rs"
  by (subst for_owned_releasing) (simp_all add: spec_complete_def owned_update_const)

lemma release_releasing:
  "distinct (map message_ref rs) \<Longrightarrow>
   fst (for_owned w (\<lambda>m. m) (\<lambda>_. clear_lease) ms rs) = spec_release w ms rs"
  by (subst for_owned_releasing) (simp_all add: spec_release_def owned_update_const)

lemma extend_updates:
  "distinct (map message_ref rs) \<Longrightarrow>
   fst (for_owned w (\<lambda>m. m) (\<lambda>_ r. r\<lparr>locked_until := Some u\<rparr>) ms rs) = spec_extend u w ms rs"
  unfolding spec_extend_def by (rule for_owned_idempotent) simp_all

lemma try_complete_cases:
  obtains (err) s' where "try_complete w items s = (s', Err Injected)" "im_rows s' = im_rows s"
      "im_now s' = im_now s"
    | (run) s0 where "try_complete w items s = guarded (\<lambda>s. on_rows
        (for_owned w cm_message (\<lambda>_. row_completed (im_now s)) items) s) s0"
      "im_rows s0 = im_rows s" "im_now s0 = im_now s"
proof -
  obtain s' b where t: "take_fail_next_complete (s\<lparr>complete_calls := complete_calls s + 1\<rparr>) = (s', b)"
    by (rule prod.exhaust)
  moreover have "im_rows s' = im_rows s" "im_now s' = im_now s"
    using t take_fail_next_complete_frame [of "s\<lparr>complete_calls := complete_calls s + 1\<rparr>"] by simp_all
  ultimately show thesis using err run by (cases b) (simp_all add: try_complete_eq)
qed

lemma try_complete_Ok:
  assumes "distinct (map message_ref (im_rows s))" "try_complete w items s = (s', Ok n)"
  shows "im_rows s' = spec_complete (im_now s) w items (im_rows s)"
proof (cases rule: try_complete_cases [of w items s])
  case (run s0)
  from run(1) assms(2) have "guarded (\<lambda>s. on_rows
        (for_owned w cm_message (\<lambda>_. row_completed (im_now s)) items) s) s0 = (s', Ok n)" by simp
  then show ?thesis
    by (rule guarded_Ok) (use run(2,3) assms(1) in \<open>simp add: complete_releasing\<close>)
qed (use assms in simp)

lemma try_complete_Err: "try_complete w items s = (s', Err e) \<Longrightarrow> im_rows s' = im_rows s"
  by (cases rule: try_complete_cases [of w items s]) (auto dest: guarded_Err)

lemma try_fail_Ok:
  assumes "distinct (map message_ref (im_rows s))" "try_fail w items s = (s', Ok n)"
  shows "im_rows s' = spec_fail (im_now s) w items (im_rows s)"
  using assms(2) unfolding try_fail_eq
  by (rule guarded_Ok) (use assms(1) in \<open>simp add: fail_releasing\<close>)

lemma try_release_Ok:
  assumes "distinct (map message_ref (im_rows s))" "try_release w ms s = (s', Ok n)"
  shows "im_rows s' = spec_release w ms (im_rows s)"
  using assms(2) unfolding try_release_eq
  by (rule guarded_Ok) (use assms(1) in \<open>simp add: release_releasing\<close>)

lemma try_extend_Ok:
  assumes "distinct (map message_ref (im_rows s))" "try_extend_lease w ms d s = (s', Ok n)"
  shows "im_rows s' = spec_extend (im_now s + int d) w ms (im_rows s)"
  using assms(2) unfolding try_extend_lease_def
  by (rule guarded_Ok) (use assms(1) in \<open>simp add: extend_updates\<close>)

lemma try_acquire_Ok:
  assumes "im_inv s" "try_acquire rq s = (s', Ok b)"
  shows "im_rows s' = spec_acquire (im_now s) (im_now s + int (ar_lease rq)) (ar_worker rq)
      (unat (ar_batch_size rq)) (im_rows s)"
    "ab_records b = map (row_leased (ar_worker rq) (im_now s + int (ar_lease rq)))
      (spec_claimed (im_now s) (unat (ar_batch_size rq)) (im_rows s))"
proof -
  obtain s0 where s0: "im_rows s0 = im_rows s" "next_sequence s0 = next_sequence s" "im_now s0 = im_now s"
    and eq: "s' = fst (let until = im_now s0 + int (ar_lease rq);
              idx = claim_order (im_now s0) (unat (ar_batch_size rq)) (im_rows s0)
          in case claim_indices (ar_worker rq) until idx (im_rows s0) of
               (rs, recs) \<Rightarrow> (s0\<lparr>im_rows := rs\<rparr>, \<lparr>ab_records = recs, ab_poisoned = []\<rparr>))"
      "b = snd (let until = im_now s0 + int (ar_lease rq);
              idx = claim_order (im_now s0) (unat (ar_batch_size rq)) (im_rows s0)
          in case claim_indices (ar_worker rq) until idx (im_rows s0) of
               (rs, recs) \<Rightarrow> (s0\<lparr>im_rows := rs\<rparr>, \<lparr>ab_records = recs, ab_poisoned = []\<rparr>))"
    using assms(2) unfolding try_acquire_def by (rule guarded_Ok) metis
  have "im_inv s0" using assms(1) im_inv_same [OF s0(1,2)] by simp
  note body = acquire_body [OF this, of rq]
  show "im_rows s' = spec_acquire (im_now s) (im_now s + int (ar_lease rq)) (ar_worker rq)
      (unat (ar_batch_size rq)) (im_rows s)"
    "ab_records b = map (row_leased (ar_worker rq) (im_now s + int (ar_lease rq)))
      (spec_claimed (im_now s) (unat (ar_batch_size rq)) (im_rows s))"
    using eq unfolding body by (simp_all add: s0)
qed

section \<open>Distinct references\<close>

lemma guarded_map:
  assumes "\<And>s0. im_inv s0 \<Longrightarrow> map g (im_rows (fst (f s0))) = map g (im_rows s0)" "im_inv s"
  shows "map g (im_rows (fst (guarded f s))) = map g (im_rows s)"
proof (cases rule: guarded_cases [of f s])
  case (err e s')
  then show ?thesis by simp
next
  case (ok s0)
  then show ?thesis using assms(1) [of s0] assms(2) im_inv_same [of s0 s] by simp
qed

lemma refs_acquire:
  "im_inv s \<Longrightarrow> map message_ref (im_rows (fst (try_acquire rq s))) = map message_ref (im_rows s)"
  unfolding try_acquire_def
  by (erule guarded_map [rotated], subst acquire_body) (simp_all add: map_spec_acquire)

lemma refs_complete:
  "im_inv s \<Longrightarrow> map message_ref (im_rows (fst (try_complete w cs s))) = map message_ref (im_rows s)"
proof (cases rule: try_complete_cases [of w cs s])
  case (run s0)
  assume "im_inv s"
  have "map message_ref (im_rows (fst (guarded (\<lambda>s. on_rows
      (for_owned w cm_message (\<lambda>_. row_completed (im_now s)) cs) s) s0))) = map message_ref (im_rows s0)"
    by (cases rule: guarded_cases [of "\<lambda>s. on_rows
      (for_owned w cm_message (\<lambda>_. row_completed (im_now s)) cs) s" s0]) (simp_all add: for_owned_map)
  then show ?thesis by (simp add: run)
qed simp

lemma refs_fail:
  "im_inv s \<Longrightarrow> map message_ref (im_rows (fst (try_fail w fs s))) = map message_ref (im_rows s)"
  unfolding try_fail_eq by (rule guarded_map) (simp_all add: for_owned_map)

lemma refs_release:
  "im_inv s \<Longrightarrow> map message_ref (im_rows (fst (try_release w ms s))) = map message_ref (im_rows s)"
  unfolding try_release_eq by (rule guarded_map) (simp_all add: for_owned_map)

lemma refs_extend:
  "im_inv s \<Longrightarrow> map message_ref (im_rows (fst (try_extend_lease w ms d s))) = map message_ref (im_rows s)"
  unfolding try_extend_lease_def by (rule guarded_map) (simp_all add: for_owned_map)

lemmas refs_preserved = refs_acquire refs_complete refs_fail refs_release refs_extend

section \<open>The contract holds\<close>

lemma im_inv_row_wf: "im_inv s \<Longrightarrow> r \<in> set (im_rows s) \<Longrightarrow> row_wf r"
  by (simp add: im_inv_def)

lemma try_Errs:
  "try_acquire rq s = (s', Err e) \<Longrightarrow> im_rows s' = im_rows s"
  "try_complete w cs s = (s', Err e) \<Longrightarrow> im_rows s' = im_rows s"
  "try_fail w fs s = (s', Err e) \<Longrightarrow> im_rows s' = im_rows s"
  "try_release w ms s = (s', Err e) \<Longrightarrow> im_rows s' = im_rows s"
  "try_extend_lease w ms d s = (s', Err e) \<Longrightarrow> im_rows s' = im_rows s"
  by (auto simp: try_acquire_def try_fail_eq try_release_eq try_extend_lease_def
      dest: guarded_Err try_complete_Err)

lemma distinct_spec_claimed: "distinct rs \<Longrightarrow> distinct (spec_claimed t n rs)"
  by (simp add: spec_claimed_def)

lemma length_spec_claimed: "length (spec_claimed t n rs) \<le> n"
  by (simp add: spec_claimed_def)

lemma try_fail_published:
  assumes "im_inv_refs s"
  shows "published_refs (im_rows (fst (try_fail w fs s))) = published_refs (im_rows s)"
proof (cases "try_fail w fs s")
  case (Pair s' x)
  then show ?thesis using assms try_fail_Ok [of s w fs s'] try_Errs(3) [of w fs s s']
    by (cases x) (auto simp: published_refs_spec im_inv_refs_def)
qed

interpretation im: outbox_store im_rows im_now im_inv_refs try_acquire try_complete try_fail
  try_release try_extend_lease
proof unfold_locales
  fix s rq s' b
  assume inv: "im_inv_refs s" and acq: "try_acquire rq s = (s', Ok b)"
  from inv have i: "im_inv s" and d: "distinct (im_rows s)"
    by (simp_all add: im_inv_refs_def distinct_map)
  let ?cl = "spec_claimed (im_now s) (unat (ar_batch_size rq)) (im_rows s)"
  have "set ?cl \<subseteq> {r \<in> set (im_rows s). claimable r (im_now s)}" using set_spec_claimed by blast
  then show "\<exists>cl. distinct cl \<and> set cl \<subseteq> {r \<in> set (im_rows s). claimable r (im_now s)}
         \<and> length cl \<le> unat (ar_batch_size rq)
         \<and> ab_records b = map (row_leased (ar_worker rq) (im_now s + int (ar_lease rq))) cl
         \<and> im_rows s' = map (\<lambda>r. if r \<in> set cl
             then row_leased (ar_worker rq) (im_now s + int (ar_lease rq)) r else r) (im_rows s)"
    using try_acquire_Ok [OF i acq] distinct_spec_claimed [OF d] length_spec_claimed
    by (intro exI [of _ ?cl]) (simp add: spec_acquire_def)
qed (auto simp: im_inv_refs_def refs_preserved im_inv_row_wf try_fail_published [unfolded im_inv_refs_def]
      intro: im_inv_acquire im_inv_complete im_inv_fail im_inv_release im_inv_extend
        try_complete_Ok try_fail_Ok try_release_Ok try_extend_Ok
      dest: try_Errs)

section \<open>Every run keeps the invariant\<close>

inductive im_step :: "Inner \<Rightarrow> Inner \<Rightarrow> bool" where
  step_insert: "im_step s (fst (insert_row e a k s))"
| step_enqueue: "im_step s (fst (try_enqueue e s))"
| step_advance: "im_step s (advance d s)"
| step_fail_next: "im_step s (arm_fail_next n s)"
| step_fail_next_permanent: "im_step s (arm_fail_next_permanent n s)"
| step_hang_next: "im_step s (arm_hang_next n d s)"
| step_fail_next_complete: "im_step s (arm_fail_next_complete n s)"
| step_fail_next_enqueue: "im_step s (arm_fail_next_enqueue n s)"
| step_acquire: "im_step s (fst (try_acquire rq s))"
| step_complete: "im_step s (fst (im_complete w cs s))"
| step_complete_resumed: "im_step s (fst (try_complete w cs s))"
| step_fail: "im_step s (fst (im_fail w fs s))"
| step_fail_resumed: "im_step s (fst (try_fail w fs s))"
| step_release: "im_step s (fst (try_release w ms s))"
| step_extend: "im_step s (fst (try_extend_lease w ms d s))"
| step_purge: "im_step s (fst (try_purge pq s))"
| step_stats: "im_step s (fst (try_stats s))"
| step_retry_dead: "im_step s (fst (retry_dead ms s))"
| step_purge_dead: "im_step s (fst (purge_dead ms s))"

inductive im_reachable :: "Inner \<Rightarrow> bool" where
  reach_init: "im_reachable inner_default"
| reach_step: "im_reachable s \<Longrightarrow> im_step s s' \<Longrightarrow> im_reachable s'"

lemma row_wf_retried:
  "row_wf r \<Longrightarrow> row_wf (r\<lparr>dead_at := None, dead_reason := None, available_at := t, attempts := 0\<rparr>)"
  by (auto simp: row_wf_def)

lemma retry_dead_rows_Cons:
  "fst (retry_dead_rows t (m # ms) rs) = fst (retry_dead_rows t ms
     (fst (update_first (\<lambda>r. dead_ref_matches m r \<and> dead_at r \<noteq> None)
       (\<lambda>r. r\<lparr>dead_at := None, dead_reason := None, available_at := t, attempts := 0\<rparr>) rs)))"
  by (simp split: prod.splits)

lemma retry_dead_rows_keeps:
  "map sequence (fst (retry_dead_rows t ms rs)) = map sequence rs"
  "\<forall>r \<in> set rs. row_wf r \<Longrightarrow> \<forall>r \<in> set (fst (retry_dead_rows t ms rs)). row_wf r"
proof -
  show "map sequence (fst (retry_dead_rows t ms rs)) = map sequence rs"
    by (induction ms arbitrary: rs)
      (simp_all add: retry_dead_rows_Cons update_first_map del: retry_dead_rows.simps(2))
  show "\<forall>r \<in> set rs. row_wf r \<Longrightarrow> \<forall>r \<in> set (fst (retry_dead_rows t ms rs)). row_wf r"
  proof (induction ms arbitrary: rs)
    case (Cons m ms)
    show ?case unfolding retry_dead_rows_Cons
      by (rule Cons.IH, rule update_first_all [OF Cons.prems]) (rule row_wf_retried)
  qed simp
qed

lemma im_inv_retry_dead: "im_inv s \<Longrightarrow> im_inv (fst (retry_dead ms s))"
  unfolding retry_dead_def by (intro im_inv_on_rows retry_dead_rows_keeps)

lemma im_inv_purge_dead: "im_inv s \<Longrightarrow> im_inv (fst (purge_dead ms s))"
  by (auto simp: im_inv_def purge_dead_def Let_def distinct_map intro: inj_on_subset)

lemma im_inv_stats: "im_inv s \<Longrightarrow> im_inv (fst (try_stats s))"
  unfolding try_stats_def by (erule im_inv_guarded) simp

lemma im_inv_hang: "im_inv s \<Longrightarrow> im_inv (fst (take_hang s))"
  by (simp add: im_inv_def)

lemma im_inv_hanging:
  assumes "im_inv s"
  shows "im_inv (fst (im_complete w cs s))" "im_inv (fst (im_fail w fs s))"
  using im_inv_hang [OF assms] im_inv_complete im_inv_fail
  by (cases "take_hang s"; cases "snd (take_hang s)";
      force simp: im_complete_def im_fail_def split_def)+

lemmas arm_defs = arm_fail_next_def arm_fail_next_permanent_def arm_hang_next_def arm_fail_next_complete_def arm_fail_next_enqueue_def

lemma arm_rows:
  "im_rows (arm_fail_next n s) = im_rows s" "im_rows (arm_fail_next_permanent n s) = im_rows s"
  "im_rows (arm_hang_next n d s) = im_rows s" "im_rows (arm_fail_next_complete n s) = im_rows s"
  "im_rows (arm_fail_next_enqueue n s) = im_rows s"
  by (simp_all add: arm_defs)

lemma im_inv_arm:
  "im_inv (arm_fail_next n s) = im_inv s" "im_inv (arm_fail_next_permanent n s) = im_inv s"
  "im_inv (arm_hang_next n d s) = im_inv s" "im_inv (arm_fail_next_complete n s) = im_inv s"
  "im_inv (arm_fail_next_enqueue n s) = im_inv s"
  by (simp_all add: arm_defs im_inv_def)

lemma im_step_inv: "im_step s s' \<Longrightarrow> im_inv s \<Longrightarrow> im_inv s'"
proof (induction rule: im_step.induct)
  case (step_advance s d)
  then show ?case by (simp add: im_inv_def advance_def)
qed (simp_all add: im_inv_arm im_inv_insert_row im_inv_enqueue im_inv_acquire im_inv_complete im_inv_fail
    im_inv_release im_inv_extend im_inv_purge im_inv_stats im_inv_retry_dead im_inv_purge_dead
    im_inv_hanging)

text \<open>C24. In every state the in-memory store can reach, by any sequence of inserts, claims,
  outcome writes, releases, renewals, purges, dead-letter operations, clock advances and injected
  failures or hangs: each row is well formed (a lease names both worker and deadline and only a
  pending row has one, no row is both published and dead, a dead row and only a dead row has a
  reason, a stored error is within its limit), and sequence numbers are unique and below the next
  one to be assigned.\<close>

theorem im_reachable_inv:
  assumes "im_reachable s"
  shows "(\<forall>r \<in> set (im_rows s). row_wf r \<and> sequence r < next_sequence s)
    \<and> distinct (map sequence (im_rows s))"
proof -
  from assms have "im_inv s"
  proof (induction rule: im_reachable.induct)
    case reach_init
    show ?case by (simp add: im_inv_def inner_default_def)
  next
    case (reach_step s s')
    then show ?case by (blast intro: im_step_inv)
  qed
  then show ?thesis by (simp add: im_inv_def)
qed

text \<open>An instance: two messages inserted, one claimed and completed.\<close>

definition example_message :: "uuid \<Rightarrow> SerializedEnvelope" where
  "example_message i = build \<lparr>mt_name = ''orders.created'', mt_version = 1\<rparr> i (builder_new ''{}'')"

definition example_store :: Inner where
  "example_store =
     (let s1 = fst (insert_row (example_message 1) None None inner_default);
          s2 = fst (insert_row (example_message 2) None None s1);
          s3 = fst (try_acquire \<lparr>ar_worker = WorkerId ''w'', ar_batch_size = 1,
                 ar_lease = from_secs 30, ar_ordering = Unordered\<rparr> s2)
      in fst (try_complete (WorkerId ''w'') [\<lparr>cm_message = \<lparr>mr_id = 1, mr_created_at = 0\<rparr>\<rparr>] s3))"

lemma example_store_reachable: "im_reachable example_store"
  unfolding example_store_def Let_def
  by (intro reach_step [OF _ step_complete_resumed] reach_step [OF _ step_acquire]
      reach_step [OF _ step_insert] reach_init)

theorem im_reachable_inv_witness:
  "length (im_rows example_store) = 2
   \<and> map published_at (im_rows example_store) = [Some 0, None]
   \<and> list_all row_wf (im_rows example_store)"
proof -
  have "length (im_rows example_store) = 2"
    "map published_at (im_rows example_store) = [Some 0, None]" by code_simp+
  then show ?thesis using im_reachable_inv [OF example_store_reachable] by (simp add: list_all_iff)
qed

end
