(* ===== verification/In_Memory_Lifecycle.thy ===== *)
theory In_Memory_Lifecycle
  imports In_Memory_Props
begin

text \<open>
  The life cycle of one outbox row over the steps of the in-memory store: what may change, and
  when.
\<close>

text \<open>One step of a row: its message, position and creation time never change; a published row
  never changes again; a dead row changes only by being revived; attempts go down only then, to
  zero; only a leased row becomes published.\<close>

definition row_evolves :: "OutboxRecord \<Rightarrow> OutboxRecord \<Rightarrow> bool" where
  "row_evolves r r' \<longleftrightarrow>
     envelope r' = envelope r \<and> sequence r' = sequence r \<and> created_at r' = created_at r
     \<and> ordering_key r' = ordering_key r
     \<and> (published_at r \<noteq> None \<longrightarrow> r' = r)
     \<and> (dead_at r \<noteq> None \<longrightarrow> r' = r \<or> dead_at r' = None \<and> attempts r' = 0 \<and> last_error r' = last_error r)
     \<and> (attempts r' < attempts r \<longrightarrow> dead_at r \<noteq> None)
     \<and> (published_at r' \<noteq> published_at r \<longrightarrow> locked_by r \<noteq> None)"

definition row_fresh :: "OutboxRecord \<Rightarrow> bool" where
  "row_fresh r \<longleftrightarrow> attempts r = 0 \<and> locked_by r = None \<and> published_at r = None \<and> dead_at r = None
     \<and> last_error r = None"

lemma row_evolves_refl [simp]: "row_evolves r r"
  by (simp add: row_evolves_def)

lemma saturating_add_1_ge: "n \<le> saturating_add n (1::u32)"
  using unsigned_less [of n, where 'a = nat]
  by (simp add: word_le_nat_alt unat_saturating_add)

lemma row_evolves_intros:
  "claimable r t \<Longrightarrow> row_evolves r (row_leased w u r)"
  "row_wf r \<Longrightarrow> locked_by r = Some w \<Longrightarrow> row_evolves r (row_completed t r)"
  "row_wf r \<Longrightarrow> locked_by r = Some w \<Longrightarrow> row_evolves r (row_failed t e oc r)"
  "row_wf r \<Longrightarrow> locked_by r = Some w \<Longrightarrow> row_evolves r (clear_lease r)"
  "row_wf r \<Longrightarrow> locked_by r = Some w \<Longrightarrow> row_evolves r (r\<lparr>locked_until := x\<rparr>)"
  "sweepable t r \<Longrightarrow> row_evolves r (row_expired t r)"
  "row_wf r \<Longrightarrow> dead_at r \<noteq> None \<Longrightarrow>
     row_evolves r (r\<lparr>dead_at := None, dead_reason := None, available_at := t, attempts := 0\<rparr>)"
  using saturating_add_1_ge [of "attempts r"]
  by (cases oc; auto simp: row_evolves_def row_defs row_wf_def claimable_def sweepable_def
      row_expired_def not_less)+

section \<open>Rows through the loops\<close>

lemma update_first_source:
  "x' \<in> set (fst (update_first p f xs)) \<Longrightarrow> x' \<in> set xs \<or> (\<exists>x \<in> set xs. p x \<and> x' = f x)"
  by (induction xs) (auto split: prod.splits if_splits)

lemma for_owned_source:
  assumes "\<And>r. Q r r" "\<And>a b c. Q a b \<Longrightarrow> Q b c \<Longrightarrow> Q a c"
    and "\<And>i r. locked_by r = Some w \<Longrightarrow> Q r (f i r)"
  shows "r' \<in> set (fst (for_owned w ref f is rs)) \<Longrightarrow> \<exists>r \<in> set rs. Q r r'"
proof (induction "is" arbitrary: rs)
  case Nil
  then show ?case using assms(1) by auto
next
  case (Cons i "is")
  from Cons.IH [OF Cons.prems [unfolded for_owned_Cons]] obtain r1 where
    r1: "r1 \<in> set (fst (update_first (is_owned w (ref i)) (f i) rs))" "Q r1 r'" by blast
  from update_first_source [OF r1(1)] show ?case
    using r1(2) assms by (auto simp: is_owned_iff) blast+
qed

lemma for_owned_evolves:
  assumes "\<forall>r \<in> set rs. row_wf r" "\<And>i r. locked_by (f i r) = None"
    and "\<And>i r. row_wf r \<Longrightarrow> locked_by r = Some w \<Longrightarrow> row_evolves r (f i r)"
    and "r' \<in> set (fst (for_owned w ref f is rs))"
  shows "\<exists>r \<in> set rs. row_evolves r r'"
proof -
  have "\<exists>r \<in> set rs. r' = r \<or> locked_by r = Some w \<and> locked_by r' = None \<and> (\<exists>i. r' = f i r)"
    by (rule for_owned_source [OF _ _ _ assms(4)]) (auto simp: assms(2))
  then show ?thesis using assms(1,3) row_evolves_refl by blast
qed

lemma extend_evolves:
  assumes "\<forall>r \<in> set rs. row_wf r"
    and "r' \<in> set (fst (for_owned w ref (\<lambda>_ r. r\<lparr>locked_until := Some u\<rparr>) is rs))"
  shows "\<exists>r \<in> set rs. row_evolves r r'"
proof -
  have "\<exists>r \<in> set rs. r' = r \<or> locked_by r = Some w \<and> r' = r\<lparr>locked_until := Some u\<rparr>"
    by (rule for_owned_source [OF _ _ _ assms(2)]) auto
  then show ?thesis using assms(1) row_evolves_intros(5) row_evolves_refl by blast
qed

lemma retry_dead_source:
  "r' \<in> set (fst (retry_dead_rows t ms rs)) \<Longrightarrow>
   \<exists>r \<in> set rs. r' = r \<or> dead_at r \<noteq> None
     \<and> r' = r\<lparr>dead_at := None, dead_reason := None, available_at := t, attempts := 0\<rparr>"
proof (induction ms arbitrary: rs)
  case (Cons m ms)
  from Cons.IH [OF Cons.prems [unfolded retry_dead_rows_Cons]] obtain r1 where
    r1: "r1 \<in> set (fst (update_first (\<lambda>r. dead_ref_matches m r \<and> dead_at r \<noteq> None)
       (\<lambda>r. r\<lparr>dead_at := None, dead_reason := None, available_at := t, attempts := 0\<rparr>) rs))"
    "r' = r1 \<or> dead_at r1 \<noteq> None
     \<and> r' = r1\<lparr>dead_at := None, dead_reason := None, available_at := t, attempts := 0\<rparr>" by blast
  from update_first_source [OF r1(1)] show ?case using r1(2) by auto
qed auto

lemma sweep_source:
  "r' \<in> set (fst (sweep_expired k t rs)) \<Longrightarrow> \<exists>r \<in> set rs. r' = r \<or> sweepable t r \<and> r' = row_expired t r"
  by (induction rs arbitrary: k)
    (fastforce simp: sweep_expired_eq simp del: sweep_expired.simps(2) split: if_splits)+

lemma purge_evolves:
  assumes "r' \<in> set (fst (purge_rows rq t rs))"
  shows "\<exists>r \<in> set rs. row_evolves r r'"
proof -
  have "r' \<in> set (fst (sweep_expired (unat (pq_batch_size rq)) t rs))"
    using assms
    by (auto simp: purge_rows_def Let_def split_def split: option.splits
        dest!: retain_upto_subset [THEN subsetD])
  from sweep_source [OF this] show ?thesis using row_evolves_intros(6) row_evolves_refl by blast
qed

section \<open>The life cycle\<close>

lemma guarded_evolves:
  assumes "im_inv s" "r' \<in> set (im_rows (fst (guarded f s)))"
    and "\<And>s0 r'. im_inv s0 \<Longrightarrow> r' \<in> set (im_rows (fst (f s0))) \<Longrightarrow>
      \<exists>r \<in> set (im_rows s0). row_evolves r r'"
  shows "\<exists>r \<in> set (im_rows s). row_evolves r r'"
proof (cases rule: guarded_cases [of f s])
  case (err e s')
  then show ?thesis using assms(2) by (intro bexI [of _ r']) simp_all
next
  case (ok s0)
  then show ?thesis using assms(3) [of s0 r'] assms(1,2) im_inv_same [of s0 s] by simp
qed

lemma rows_wf: "im_inv s \<Longrightarrow> \<forall>r \<in> set (im_rows s). row_wf r"
  by (simp add: im_inv_def)

lemma acquire_evolves:
  assumes "im_inv s" "r' \<in> set (im_rows (fst (try_acquire rq s)))"
  shows "\<exists>r \<in> set (im_rows s). row_evolves r r'"
  using assms unfolding try_acquire_def
proof (rule guarded_evolves)
  fix s0 r' assume s0: "im_inv s0"
    and r': "r' \<in> set (im_rows (fst (let until = im_now s0 + int (ar_lease rq);
              idx = claim_order (im_now s0) (unat (ar_batch_size rq)) (im_rows s0)
          in case claim_indices (ar_worker rq) until idx (im_rows s0) of
               (rs, recs) \<Rightarrow> (s0\<lparr>im_rows := rs\<rparr>, \<lparr>ab_records = recs, ab_poisoned = []\<rparr>))))"
  from r' obtain r where "r \<in> set (im_rows s0)"
    "r' = r \<or> claimable r (im_now s0) \<and> r' = row_leased (ar_worker rq) (im_now s0 + int (ar_lease rq)) r"
    unfolding acquire_body [OF s0] using set_spec_claimed
    by (fastforce simp: spec_acquire_def split: if_splits)
  then show "\<exists>r \<in> set (im_rows s0). row_evolves r r'" using row_evolves_intros(1) row_evolves_refl by blast
qed

lemma complete_evolves:
  assumes "im_inv s" "r' \<in> set (im_rows (fst (try_complete w cs s)))"
  shows "\<exists>r \<in> set (im_rows s). row_evolves r r'"
proof (cases rule: try_complete_cases [of w cs s])
  case (err s')
  then show ?thesis using assms(2) by (intro bexI [of _ r']) simp_all
next
  case (run s0)
  show ?thesis
  proof (cases rule: guarded_cases [of "\<lambda>s. on_rows
        (for_owned w cm_message (\<lambda>_. row_completed (im_now s)) cs) s" s0])
    case (err e s')
    then show ?thesis using assms(2) run by (intro bexI [of _ r']) simp_all
  next
    case (ok s1)
    have "r' \<in> set (fst (for_owned w cm_message (\<lambda>_. row_completed (im_now s1)) cs (im_rows s)))"
      using assms(2) run ok by simp
    then show ?thesis
      by (rule for_owned_evolves [OF rows_wf [OF assms(1)], rotated -1])
        (simp_all add: row_evolves_intros)
  qed
qed

lemma fail_evolves:
  assumes "im_inv s" "r' \<in> set (im_rows (fst (try_fail w fs s)))"
  shows "\<exists>r \<in> set (im_rows s). row_evolves r r'"
  using assms unfolding try_fail_eq
  by (rule guarded_evolves) (simp, erule for_owned_evolves [OF rows_wf, rotated -1];
      simp add: row_evolves_intros)

lemma release_evolves:
  assumes "im_inv s" "r' \<in> set (im_rows (fst (try_release w ms s)))"
  shows "\<exists>r \<in> set (im_rows s). row_evolves r r'"
  using assms unfolding try_release_eq
  by (rule guarded_evolves) (simp, erule for_owned_evolves [OF rows_wf, rotated -1];
      simp add: row_evolves_intros)

lemma extend_lease_evolves:
  assumes "im_inv s" "r' \<in> set (im_rows (fst (try_extend_lease w ms d s)))"
  shows "\<exists>r \<in> set (im_rows s). row_evolves r r'"
  using assms unfolding try_extend_lease_def
  by (rule guarded_evolves) (simp add: extend_evolves rows_wf)

lemma hang_evolves:
  assumes "im_inv s"
  shows "r' \<in> set (im_rows (fst (im_complete w cs s))) \<Longrightarrow> \<exists>r \<in> set (im_rows s). row_evolves r r'"
    "r' \<in> set (im_rows (fst (im_fail w fs s))) \<Longrightarrow> \<exists>r \<in> set (im_rows s). row_evolves r r'"
proof -
  obtain s0 x where h: "take_hang s = (s0, x)" by (rule prod.exhaust)
  have s0: "im_rows s0 = im_rows s" "im_inv s0"
    using take_hang_frame [of s] im_inv_hang [OF assms] by (simp_all add: h)
  note ev = complete_evolves [OF s0(2), unfolded s0(1)] fail_evolves [OF s0(2), unfolded s0(1)]
  have c: "fst (im_complete w cs s) = (if x = None then fst (try_complete w cs s0) else s0)"
    by (cases x) (simp_all add: im_complete_def h split_def)
  have f: "fst (im_fail w fs s) = (if x = None then fst (try_fail w fs s0) else s0)"
    by (cases x) (simp_all add: im_fail_def h split_def)
  show "r' \<in> set (im_rows (fst (im_complete w cs s))) \<Longrightarrow> \<exists>r \<in> set (im_rows s). row_evolves r r'"
    unfolding c by (cases "x = None") (simp_all add: ev(1), auto simp: s0(1) intro: row_evolves_refl)
  show "r' \<in> set (im_rows (fst (im_fail w fs s))) \<Longrightarrow> \<exists>r \<in> set (im_rows s). row_evolves r r'"
    unfolding f by (cases "x = None") (simp_all add: ev(2), auto simp: s0(1) intro: row_evolves_refl)
qed

lemma stats_rows: "im_rows (fst (try_stats s)) = im_rows s"
  unfolding try_stats_def
  by (cases rule: guarded_cases [of "\<lambda>s. (s, fold (stats_row (im_now s)) (im_rows s)
        \<lparr>pending = 0, dead = 0, expired_pending = 0, oldest_pending_available_at = None,
         as_of = im_now s\<rparr>)" s]) simp_all

lemma insert_evolves:
  assumes "r' \<in> set (im_rows (fst (insert_row e a k s)))"
  shows "r' \<in> set (im_rows s) \<or> sequence r' = next_sequence s \<and> row_fresh r'"
  using assms
  by (auto simp: insert_row_def Let_def row_fresh_def builder_available_at_def
      builder_ordering_key_def record_builder_def)

lemma enqueue_evolves:
  assumes "r' \<in> set (im_rows (fst (try_enqueue e s)))"
  shows "r' \<in> set (im_rows s) \<or> sequence r' = next_sequence s \<and> row_fresh r'"
proof -
  obtain s0 b where t: "take_fail_next_enqueue (s\<lparr>enqueue_calls := enqueue_calls s + 1\<rparr>) = (s0, b)"
    by (rule prod.exhaust)
  have "im_rows s0 = im_rows s" "next_sequence s0 = next_sequence s"
    using t take_fail_next_enqueue_frame [of "s\<lparr>enqueue_calls := enqueue_calls s + 1\<rparr>"] by simp_all
  with assms t insert_evolves [of r' e None None s0] show ?thesis
    by (cases b) (simp_all add: try_enqueue_def im_insert_def split_def)
qed



end
