(* ===== verification/Dispatcher.thy ===== *)
theory Dispatcher
  imports Settings Store_Contract "HOL-Library.Multiset"
begin

text \<open>
  \<^verbatim>\<open>reliar-outbox/src/dispatcher.rs\<close>: validation and construction of a dispatcher, and the pieces
  of its \<^verbatim>\<open>run\<close> loop. The loop's local variables are the record \<open>Loop\<close>; the store is a record of
  operations on an abstract state; \<open>bounded\<close> is a call under \<^verbatim>\<open>tokio::time::timeout\<close>, where a call
  that times out may or may not have taken effect at the store. \<^verbatim>\<open>Instant::now()\<close> is an argument of
  each handler that reads it. Logging and metrics hooks have no effect on the loop and are left out.
\<close>

section \<open>Configuration\<close>

definition validate_shared :: "DispatcherSettings \<Rightarrow> (unit, ConfigError) result" where
  "validate_shared s =
     (if max_in_flight s = 0 then Err ZeroInFlight
      else if batch_size s = 0 then Err ZeroBatchSize
      else if poll_interval s = 0 then Err (ZeroPollInterval ''poll_interval'')
      else if idle_poll_interval s = 0 then Err (ZeroPollInterval ''idle_poll_interval'')
      else and_then (ordering_validate (ordering s)) (\<lambda>_.
        if lease s \<le> publish_timeout s then Err (LeaseTooShort (lease s) (publish_timeout s))
        else if store_timeout s \<ge> lease s div 2
        then Err (StoreTimeoutTooLong (store_timeout s) (lease s))
        else Ok ()))"

text \<open>A retry policy: the house policy, or the host's own decision function.\<close>

datatype RetryPolicy = Backoff ExponentialBackoff | Custom "u32 \<Rightarrow> FailureKind \<Rightarrow> FailureOutcome"

text \<open>Both \<^verbatim>\<open>build\<close> methods: \<open>None\<close> is the marker \<^verbatim>\<open>DefaultRetry\<close>; \<open>fresh\<close> is the generated worker id.
  The results are the fields of \<^verbatim>\<open>OutboxDispatcher\<close> other than the store, publisher and metrics.\<close>

definition dispatcher_build ::
    "DispatcherSettings \<Rightarrow> RetryPolicy option \<Rightarrow> WorkerId
     \<Rightarrow> (DispatcherSettings \<times> RetryPolicy \<times> WorkerId, ConfigError) result" where
  "dispatcher_build s policy fresh =
     and_then (validate_shared s) (\<lambda>_.
       let worker = (case worker_id s of Some w \<Rightarrow> w | None \<Rightarrow> fresh)
       in case policy of
            None \<Rightarrow> and_then (backoff_validate (retry s)) (\<lambda>_. Ok (s, Backoff (retry s), worker))
          | Some p \<Rightarrow>
              if retry s \<noteq> backoff_default then Err RetryPolicyConflict
              else (case p of
                      Backoff b \<Rightarrow> and_then (backoff_validate b) (\<lambda>_. Ok (s, p, worker))
                    | Custom _ \<Rightarrow> Ok (s, p, worker)))"

text \<open>The builder of \<^verbatim>\<open>OutboxDispatcherBuilder\<close>, without the store, publisher and metrics it carries along.\<close>

record OutboxDispatcherBuilder =
  bd_settings :: DispatcherSettings
  bd_retry :: "RetryPolicy option"

definition dispatcher_builder :: OutboxDispatcherBuilder where
  "dispatcher_builder = \<lparr>bd_settings = dispatcher_settings_default, bd_retry = None\<rparr>"

definition dispatcher_with_settings :: "DispatcherSettings \<Rightarrow> OutboxDispatcherBuilder \<Rightarrow> OutboxDispatcherBuilder" where
  "dispatcher_with_settings s b = b\<lparr>bd_settings := s\<rparr>"

definition dispatcher_with_ordering :: "Ordering \<Rightarrow> OutboxDispatcherBuilder \<Rightarrow> OutboxDispatcherBuilder" where
  "dispatcher_with_ordering k b = b\<lparr>bd_settings := (bd_settings b)\<lparr>ordering := k\<rparr>\<rparr>"

definition dispatcher_with_worker_id :: "WorkerId \<Rightarrow> OutboxDispatcherBuilder \<Rightarrow> OutboxDispatcherBuilder" where
  "dispatcher_with_worker_id w b = b\<lparr>bd_settings := (bd_settings b)\<lparr>worker_id := Some w\<rparr>\<rparr>"

definition dispatcher_with_retry_policy :: "RetryPolicy \<Rightarrow> OutboxDispatcherBuilder \<Rightarrow> OutboxDispatcherBuilder" where
  "dispatcher_with_retry_policy p b = b\<lparr>bd_retry := Some p\<rparr>"

definition dispatcher_builder_build ::
    "OutboxDispatcherBuilder \<Rightarrow> WorkerId \<Rightarrow> (DispatcherSettings \<times> RetryPolicy \<times> WorkerId, ConfigError) result" where
  "dispatcher_builder_build b fresh = dispatcher_build (bd_settings b) (bd_retry b) fresh"

text \<open>Ordering by key is refused, whatever else was set before it.\<close>

lemma dispatcher_per_key_refused:
  assumes "dispatcher_builder_build (dispatcher_with_ordering PerKey b) fresh = Ok d"
  shows False
  using assms by (auto simp: dispatcher_builder_build_def dispatcher_with_ordering_def dispatcher_build_def validate_shared_def
    and_then_eq_Ok_iff ordering_validate_iff split: if_splits)

section \<open>Bounded store calls\<close>

record ('s, 'e) store_ops =
  so_acquire :: "AcquireRequest \<Rightarrow> 's \<Rightarrow> 's \<times> (AcquiredBatch, 'e) result"
  so_complete :: "WorkerId \<Rightarrow> CompletedMessage list \<Rightarrow> 's \<Rightarrow> 's \<times> (nat, 'e) result"
  so_fail :: "WorkerId \<Rightarrow> FailedMessage list \<Rightarrow> 's \<Rightarrow> 's \<times> (nat, 'e) result"
  so_release :: "WorkerId \<Rightarrow> MessageRef list \<Rightarrow> 's \<Rightarrow> 's \<times> (nat, 'e) result"
  so_extend_lease :: "WorkerId \<Rightarrow> MessageRef list \<Rightarrow> duration \<Rightarrow> 's \<Rightarrow> 's \<times> (nat, 'e) result"
  so_kind :: "'e \<Rightarrow> FailureKind"

datatype 'e TimedOut = TStore 'e | TTimeout

text \<open>How a call and its budget turned out: answered in time, or timed out after, or before, it
  took effect.\<close>

datatype timing = InTime | LateApplied | LateLost

fun bounded :: "timing \<Rightarrow> ('s \<Rightarrow> 's \<times> ('a, 'e) result) \<Rightarrow> 's \<Rightarrow> 's \<times> ('a, 'e TimedOut) result" where
  "bounded InTime f s = (case f s of (s', r) \<Rightarrow> (s', map_err TStore r))"
| "bounded LateApplied f s = (fst (f s), Err TTimeout)"
| "bounded LateLost f s = (s, Err TTimeout)"

section \<open>Publish tasks\<close>

record PendingRow =
  pn_message :: MessageRef
  pn_message_type :: MessageType
  pn_attempts_before :: u32
  pn_envelope :: SerializedEnvelope

datatype PublishTaskOutcome =
    Published MessageRef MessageType
  | Failed MessageRef u32 FailureKind string

text \<open>What the permit and the publisher answered, within the publish timeout or not.\<close>

datatype publish_answer =
    PublishOk
  | PublishErr FailureKind string
  | PublishElapsed string
  | SemaphoreClosed

fun publish_one :: "PendingRow \<Rightarrow> publish_answer \<Rightarrow> PublishTaskOutcome" where
  "publish_one job SemaphoreClosed =
     Failed (pn_message job) (pn_attempts_before job) Transient
       ''reliar-outbox: publish semaphore closed unexpectedly''"
| "publish_one job PublishOk = Published (pn_message job) (pn_message_type job)"
| "publish_one job (PublishErr kind err) = Failed (pn_message job) (pn_attempts_before job) kind err"
| "publish_one job (PublishElapsed after) =
     Failed (pn_message job) (pn_attempts_before job) Transient
       (''reliar-outbox: publish timed out after '' @ after)"

text \<open>A spawned task: its job, whether it holds a permit, and what joining it will return once it
  has ended. \<^verbatim>\<open>JoinError\<close> is a panic or an abort.\<close>

datatype task_end = Ended PublishTaskOutcome | Panicked | Aborted

record PublishTask =
  pt_job :: PendingRow
  pt_started :: bool
  pt_end :: "task_end option"

datatype join_result = Joined nat PublishTaskOutcome | JoinError nat bool

section \<open>The loop's variables\<close>

record 'e Loop =
  lp_pending :: "PendingRow list"
  lp_in_flight :: "(nat \<times> PublishTask) list"
  lp_next_task :: nat
  lp_outstanding :: "(nat \<times> MessageRef) list"
  unwritten_complete :: "(instant \<times> CompletedMessage) list"
  unwritten_fail :: "(instant \<times> FailedMessage) list"
  next_poll_at :: instant
  next_outcome_retry_at :: instant
  exit_reason :: "'e option"

definition loop_init :: "instant \<Rightarrow> 'e Loop" where
  "loop_init t =
     \<lparr>lp_pending = [], lp_in_flight = [], lp_next_task = 0, lp_outstanding = [],
      unwritten_complete = [], unwritten_fail = [], next_poll_at = t, next_outcome_retry_at = t,
      exit_reason = None\<rparr>"

definition outstanding_count :: "'e Loop \<Rightarrow> nat" where
  "outstanding_count l =
     length (lp_outstanding l) + length (unwritten_complete l) + length (unwritten_fail l)"

definition has_capacity :: "DispatcherSettings \<Rightarrow> 'e Loop \<Rightarrow> bool" where
  "has_capacity s l \<longleftrightarrow> outstanding_count l < max_in_flight s"

definition has_outstanding :: "'e Loop \<Rightarrow> bool" where
  "has_outstanding l \<longleftrightarrow> outstanding_count l > 0"

definition has_unwritten :: "'e Loop \<Rightarrow> bool" where
  "has_unwritten l \<longleftrightarrow> unwritten_complete l \<noteq> [] \<or> unwritten_fail l \<noteq> []"

definition lease_refs :: "'e Loop \<Rightarrow> MessageRef list" where
  "lease_refs l =
     map snd (lp_outstanding l) @ map (\<lambda>(_, c). cm_message c) (unwritten_complete l)
     @ map (\<lambda>(_, f). fm_message f) (unwritten_fail l)"

definition lease_tick_period :: "DispatcherSettings \<Rightarrow> duration" where
  "lease_tick_period s = max (lease s div 2) (from_millis 1)"

definition outcome_retry_interval :: "DispatcherSettings \<Rightarrow> duration" where
  "outcome_retry_interval s = max (min (poll_interval s) (lease s div 4)) (from_millis 1)"

section \<open>Handlers\<close>

fun spawn_ready :: "PendingRow list \<Rightarrow> 'e Loop \<Rightarrow> 'e Loop" where
  "spawn_ready [] l = l\<lparr>lp_pending := []\<rparr>"
| "spawn_ready (row # rows) l =
     spawn_ready rows (l\<lparr>
       lp_in_flight := lp_in_flight l @ [(lp_next_task l, \<lparr>pt_job = row, pt_started = False, pt_end = None\<rparr>)],
       lp_outstanding := lp_outstanding l @ [(lp_next_task l, pn_message row)],
       lp_next_task := lp_next_task l + 1\<rparr>)"

fun record_publish_result ::
    "instant \<Rightarrow> (u32 \<Rightarrow> FailureKind \<Rightarrow> FailureOutcome) \<Rightarrow> join_result \<Rightarrow> 'e Loop \<Rightarrow> 'e Loop" where
  "record_publish_result now policy (JoinError i panicked) l =
     l\<lparr>lp_outstanding := AList.delete i (lp_outstanding l)\<rparr>"
| "record_publish_result now policy (Joined i (Published m ty)) l =
     l\<lparr>lp_outstanding := AList.delete i (lp_outstanding l),
       unwritten_complete := unwritten_complete l @ [(now, \<lparr>cm_message = m\<rparr>)]\<rparr>"
| "record_publish_result now policy (Joined i (Failed m attempts_before kind err)) l =
     l\<lparr>lp_outstanding := AList.delete i (lp_outstanding l),
       unwritten_fail := unwritten_fail l
         @ [(now, failed_message_new m err (policy attempts_before kind))]\<rparr>"

definition record_publish_results ::
    "instant \<Rightarrow> (u32 \<Rightarrow> FailureKind \<Rightarrow> FailureOutcome) \<Rightarrow> join_result list \<Rightarrow> 'e Loop \<Rightarrow> 'e Loop" where
  "record_publish_results now policy results l =
     fold (record_publish_result now policy) results l"

text \<open>\<^verbatim>\<open>now.saturating_duration_since(since)\<close>.\<close>

definition since_duration :: "instant \<Rightarrow> instant \<Rightarrow> duration" where
  "since_duration now since = nat (now - since)"

definition expire_past_lease :: "instant \<Rightarrow> duration \<Rightarrow> (instant \<times> 'a) list \<Rightarrow> (instant \<times> 'a) list" where
  "expire_past_lease now d unwritten =
     (let expired = length (filter (\<lambda>(since, _). since_duration now since > d) unwritten)
      in if expired > 0 then filter (\<lambda>(since, _). since_duration now since \<le> d) unwritten
         else unwritten)"

record 'e RetryOutcome =
  permanent :: "'e option"
  any_failed :: bool

text \<open>The first half of \<^verbatim>\<open>retry_unwritten_outcomes\<close>, up to the first expiry: the store, the loop,
  and the early return or whether the write failed.\<close>

definition retry_complete ::
    "('s, 'e) store_ops \<Rightarrow> WorkerId \<Rightarrow> duration \<Rightarrow> timing \<Rightarrow> instant \<Rightarrow> 's \<Rightarrow> 'e Loop
     \<Rightarrow> 's \<times> 'e Loop \<times> 'e RetryOutcome" where
  "retry_complete ops w d tm now st l =
     (let expire = (\<lambda>l. l\<lparr>unwritten_complete := expire_past_lease now d (unwritten_complete l)\<rparr>)
      in if unwritten_complete l = [] then (st, expire l, \<lparr>permanent = None, any_failed = False\<rparr>)
         else case bounded tm (so_complete ops w (map snd (unwritten_complete l))) st of
                (st', Inr _) \<Rightarrow>
                  (st', expire (l\<lparr>unwritten_complete := []\<rparr>), \<lparr>permanent = None, any_failed = False\<rparr>)
              | (st', Inl (TStore e)) \<Rightarrow>
                  if so_kind ops e = Permanent then (st', l, \<lparr>permanent = Some e, any_failed = True\<rparr>)
                  else (st', expire l, \<lparr>permanent = None, any_failed = True\<rparr>)
              | (st', Inl TTimeout) \<Rightarrow> (st', expire l, \<lparr>permanent = None, any_failed = True\<rparr>))"

definition retry_fail ::
    "('s, 'e) store_ops \<Rightarrow> WorkerId \<Rightarrow> duration \<Rightarrow> timing \<Rightarrow> instant \<Rightarrow> 's \<Rightarrow> 'e Loop
     \<Rightarrow> 's \<times> 'e Loop \<times> 'e RetryOutcome" where
  "retry_fail ops w d tm now st l =
     (let expire = (\<lambda>l. l\<lparr>unwritten_fail := expire_past_lease now d (unwritten_fail l)\<rparr>)
      in if unwritten_fail l = [] then (st, expire l, \<lparr>permanent = None, any_failed = False\<rparr>)
         else case bounded tm (so_fail ops w (map snd (unwritten_fail l))) st of
                (st', Inr _) \<Rightarrow>
                  (st', expire (l\<lparr>unwritten_fail := []\<rparr>), \<lparr>permanent = None, any_failed = False\<rparr>)
              | (st', Inl (TStore e)) \<Rightarrow>
                  if so_kind ops e = Permanent then (st', l, \<lparr>permanent = Some e, any_failed = True\<rparr>)
                  else (st', expire l, \<lparr>permanent = None, any_failed = True\<rparr>)
              | (st', Inl TTimeout) \<Rightarrow> (st', expire l, \<lparr>permanent = None, any_failed = True\<rparr>))"

definition retry_unwritten_outcomes ::
    "('s, 'e) store_ops \<Rightarrow> WorkerId \<Rightarrow> duration \<Rightarrow> timing \<times> instant \<Rightarrow> timing \<times> instant \<Rightarrow> 's \<Rightarrow> 'e Loop
     \<Rightarrow> 's \<times> 'e Loop \<times> 'e RetryOutcome" where
  "retry_unwritten_outcomes ops w d c f st l =
     (case retry_complete ops w d (fst c) (snd c) st l of
        (st1, l1, r1) \<Rightarrow>
          if permanent r1 \<noteq> None then (st1, l1, r1)
          else (case retry_fail ops w d (fst f) (snd f) st1 l1 of
                  (st2, l2, r2) \<Rightarrow>
                    (st2, l2, \<lparr>permanent = permanent r2, any_failed = any_failed r1 \<or> any_failed r2\<rparr>)))"

text \<open>The branch of \<^verbatim>\<open>select!\<close> that retries: pacing is armed only while something stays unwritten.\<close>

definition on_retry_result ::
    "DispatcherSettings \<Rightarrow> instant \<Rightarrow> 'e RetryOutcome \<Rightarrow> 'e Loop \<Rightarrow> 'e Loop" where
  "on_retry_result s now r l =
     (let l' = l\<lparr>next_outcome_retry_at :=
                  (if any_failed r \<and> has_unwritten l then now + int (outcome_retry_interval s) else now)\<rparr>
      in case permanent r of None \<Rightarrow> l' | Some e \<Rightarrow> l'\<lparr>exit_reason := Some e\<rparr>)"

definition claim_want :: "DispatcherSettings \<Rightarrow> 'e Loop \<Rightarrow> u32" where
  "claim_want s l =
     (let capacity = max_in_flight s - outstanding_count l;
          capacity32 = (if capacity < 2 ^ 32 then of_nat capacity else - 1)
      in min (batch_size s) capacity32)"

definition claim_request :: "DispatcherSettings \<Rightarrow> WorkerId \<Rightarrow> 'e Loop \<Rightarrow> AcquireRequest" where
  "claim_request s w l =
     \<lparr>ar_worker = w, ar_batch_size = claim_want s l, ar_lease = lease s, ar_ordering = ordering s\<rparr>"

definition pending_row :: "OutboxRecord \<Rightarrow> PendingRow" where
  "pending_row r =
     \<lparr>pn_message = message_ref r, pn_message_type = message_type (envelope r),
      pn_attempts_before = attempts r, pn_envelope = envelope r\<rparr>"

definition on_acquired ::
    "('s, 'e) store_ops \<Rightarrow> DispatcherSettings \<Rightarrow> instant \<Rightarrow> (AcquiredBatch, 'e TimedOut) result \<Rightarrow> 'e Loop
     \<Rightarrow> 'e Loop" where
  "on_acquired ops s now r l =
     (case r of
        Inr b \<Rightarrow>
          if ab_records b = [] \<and> ab_poisoned b = []
          then l\<lparr>next_poll_at := now + int (idle_poll_interval s)\<rparr>
          else let l' = l\<lparr>next_poll_at := now + int (poll_interval s),
                          lp_pending := lp_pending l @ map pending_row (ab_records b)\<rparr>
               in spawn_ready (lp_pending l') l'
      | Inl (TStore e) \<Rightarrow>
          if so_kind ops e = Permanent then l\<lparr>exit_reason := Some e\<rparr>
          else l\<lparr>next_poll_at := now + int (idle_poll_interval s)\<rparr>
      | Inl TTimeout \<Rightarrow> l\<lparr>next_poll_at := now + int (idle_poll_interval s)\<rparr>)"

section \<open>Shutdown\<close>

definition task_started :: "'e Loop \<Rightarrow> nat \<Rightarrow> bool" where
  "task_started l i = (case map_of (lp_in_flight l) i of None \<Rightarrow> False | Some t \<Rightarrow> pt_started t)"

text \<open>Tasks without a permit are aborted and their rows released with the rows never spawned.\<close>

definition release_immediately :: "'e Loop \<Rightarrow> MessageRef list" where
  "release_immediately l =
     map pn_message (lp_pending l)
     @ map snd (filter (\<lambda>(i, _). \<not> task_started l i) (lp_outstanding l))"

definition abort_task :: "PublishTask \<Rightarrow> PublishTask" where
  "abort_task t = (case pt_end t of None \<Rightarrow> t\<lparr>pt_end := Some Aborted\<rparr> | Some _ \<Rightarrow> t)"

definition drop_unstarted :: "'e Loop \<Rightarrow> 'e Loop" where
  "drop_unstarted l =
     l\<lparr>lp_pending := [],
       lp_in_flight := map (\<lambda>(i, t). (i, if i \<in> fst ` set (lp_outstanding l) \<and> \<not> pt_started t
                                         then abort_task t else t)) (lp_in_flight l),
       lp_outstanding := filter (\<lambda>(i, _). task_started l i) (lp_outstanding l)\<rparr>"

text \<open>After the drain loop: what is released. Rows whose publish succeeded stay with their lease.\<close>

definition release_now :: "'e Loop \<Rightarrow> MessageRef list" where
  "release_now l = map snd (lp_outstanding l) @ map (\<lambda>(_, f). fm_message f) (unwritten_fail l)"

end
