(* ===== verification/Dispatcher_Run.thy ===== *)
theory Dispatcher_Run
  imports Dispatcher
begin

text \<open>
  \<^verbatim>\<open>OutboxDispatcher::run\<close> as a step relation: one rule per branch of its \<^verbatim>\<open>select!\<close>, the shutdown
  sequence and \<^verbatim>\<open>drain\<close>, interleaved with the publish tasks, the passing of time and what other
  parties do to the store. A log kept beside the program's state records what became of every
  claimed row. The permit flag is read exactly; stats polling changes nothing and has no rule.
\<close>

section \<open>State\<close>

datatype phase = Running | Breaking | Draining instant | DrainBroken | Stopped

record Log =
  lg_claimed :: "MessageRef multiset"
  lg_acked :: "MessageRef multiset"
  lg_written :: "MessageRef multiset"
  lg_released :: "MessageRef multiset"
  lg_abandoned :: "MessageRef multiset"
  lg_lost :: "MessageRef multiset"

definition log_init :: Log where
  "log_init = \<lparr>lg_claimed = {#}, lg_acked = {#}, lg_written = {#}, lg_released = {#},
     lg_abandoned = {#}, lg_lost = {#}\<rparr>"

record ('s, 'e) Config =
  cf_ops :: "('s, 'e) store_ops"
  cf_settings :: DispatcherSettings
  cf_worker :: WorkerId
  cf_policy :: "u32 \<Rightarrow> FailureKind \<Rightarrow> FailureOutcome"

record ('s, 'e) Sys =
  sy_store :: 's
  sy_clock :: instant
  sy_loop :: "'e Loop"
  sy_phase :: phase
  sy_log :: Log

definition sys_init :: "'s \<Rightarrow> instant \<Rightarrow> ('s, 'e) Sys" where
  "sys_init st t =
     \<lparr>sy_store = st, sy_clock = t, sy_loop = loop_init t, sy_phase = Running, sy_log = log_init\<rparr>"

section \<open>Tracked rows\<close>

definition complete_refs :: "'e Loop \<Rightarrow> MessageRef multiset" where
  "complete_refs l = mset (map (\<lambda>(_, c). cm_message c) (unwritten_complete l))"

definition fail_refs :: "'e Loop \<Rightarrow> MessageRef multiset" where
  "fail_refs l = mset (map (\<lambda>(_, f). fm_message f) (unwritten_fail l))"

definition outstanding_refs :: "'e Loop \<Rightarrow> MessageRef multiset" where
  "outstanding_refs l = mset (map snd (lp_outstanding l))"

definition tracked :: "'e Loop \<Rightarrow> MessageRef multiset" where
  "tracked l = mset (map pn_message (lp_pending l)) + outstanding_refs l + complete_refs l + fail_refs l"

text \<open>What an outcome write that was answered in time has settled.\<close>

definition written_complete ::
    "('s, 'e) store_ops \<Rightarrow> WorkerId \<Rightarrow> timing \<Rightarrow> 's \<Rightarrow> 'e Loop \<Rightarrow> MessageRef multiset" where
  "written_complete ops w tm st l =
     (if is_ok (snd (bounded tm (so_complete ops w (map snd (unwritten_complete l))) st))
      then complete_refs l else {#})"

definition written_fail ::
    "('s, 'e) store_ops \<Rightarrow> WorkerId \<Rightarrow> timing \<Rightarrow> 's \<Rightarrow> 'e Loop \<Rightarrow> MessageRef multiset" where
  "written_fail ops w tm st l =
     (if is_ok (snd (bounded tm (so_fail ops w (map snd (unwritten_fail l))) st))
      then fail_refs l else {#})"

definition log_outcomes :: "MessageRef multiset \<Rightarrow> MessageRef multiset \<Rightarrow> Log \<Rightarrow> Log" where
  "log_outcomes written gone g =
     g\<lparr>lg_written := lg_written g + written, lg_abandoned := lg_abandoned g + (gone - written)\<rparr>"

text \<open>One round of \<^verbatim>\<open>retry_unwritten_outcomes\<close> on the whole state, with its log.\<close>

definition retry_round ::
    "('s, 'e) Config \<Rightarrow> timing \<times> instant \<Rightarrow> timing \<times> instant \<Rightarrow> ('s, 'e) Sys \<Rightarrow> ('s, 'e) Sys \<times> 'e RetryOutcome" where
  "retry_round cf c f x =
     (let ops = cf_ops cf; w = cf_worker cf; d = lease (cf_settings cf);
          (st1, l1, r1) = retry_complete ops w d (fst c) (snd c) (sy_store x) (sy_loop x);
          (st2, l2, r2) = retry_unwritten_outcomes ops w d c f (sy_store x) (sy_loop x);
          g1 = log_outcomes (written_complete ops w (fst c) (sy_store x) (sy_loop x))
                 (complete_refs (sy_loop x) - complete_refs l1) (sy_log x);
          g2 = (if permanent r1 \<noteq> None then g1
                else log_outcomes (written_fail ops w (fst f) st1 l1)
                       (fail_refs l1 - fail_refs l2) g1)
      in (x\<lparr>sy_store := st2, sy_loop := l2, sy_log := g2\<rparr>, r2))"

section \<open>Joining tasks\<close>

fun join_result_of :: "nat \<Rightarrow> task_end \<Rightarrow> join_result" where
  "join_result_of i (Ended oc) = Joined i oc"
| "join_result_of i Panicked = JoinError i True"
| "join_result_of i Aborted = JoinError i False"

text \<open>The tasks in \<open>is\<close> have ended: they leave the join set and their results are recorded.\<close>

definition joinable :: "'e Loop \<Rightarrow> nat \<Rightarrow> bool" where
  "joinable l i = (case map_of (lp_in_flight l) i of None \<Rightarrow> False | Some t \<Rightarrow> pt_end t \<noteq> None)"

definition join_results :: "'e Loop \<Rightarrow> nat list \<Rightarrow> join_result list" where
  "join_results l is = map (\<lambda>i. join_result_of i (the (pt_end (the (map_of (lp_in_flight l) i))))) is"

definition join_tasks ::
    "('s, 'e) Config \<Rightarrow> nat list \<Rightarrow> instant \<Rightarrow> 'e Loop \<Rightarrow> 'e Loop" where
  "join_tasks cf is now l =
     record_publish_results now (cf_policy cf) (join_results l is)
       (l\<lparr>lp_in_flight := filter (\<lambda>(i, _). i \<notin> set is) (lp_in_flight l)\<rparr>)"

text \<open>Rows whose task ended without an outcome: their leases lapse.\<close>

definition join_lost :: "nat list \<Rightarrow> 'e Loop \<Rightarrow> MessageRef multiset" where
  "join_lost is l =
     mset (map snd (filter (\<lambda>(i, _). i \<in> set is \<and>
       (case map_of (lp_in_flight l) i of
          Some t \<Rightarrow> pt_end t = Some Panicked \<or> pt_end t = Some Aborted | None \<Rightarrow> False))
       (lp_outstanding l)))"

definition update_task :: "nat \<Rightarrow> (PublishTask \<Rightarrow> PublishTask) \<Rightarrow> 'e Loop \<Rightarrow> 'e Loop" where
  "update_task i f l =
     l\<lparr>lp_in_flight := map (\<lambda>(j, t). (j, if j = i then f t else t)) (lp_in_flight l)\<rparr>"

definition permits_used :: "'e Loop \<Rightarrow> nat" where
  "permits_used l = length (filter (\<lambda>(_, t). pt_started t \<and> pt_end t = None) (lp_in_flight l))"

definition phase_after :: "'e Loop \<Rightarrow> phase" where
  "phase_after l = (if exit_reason l \<noteq> None then Breaking else Running)"

section \<open>Steps\<close>

definition do_record :: "('s, 'e) Config \<Rightarrow> nat list \<Rightarrow> ('s, 'e) Sys \<Rightarrow> ('s, 'e) Sys" where
  "do_record cf is x =
     (let l = join_tasks cf is (sy_clock x) (sy_loop x)
      in x\<lparr>sy_loop := l, sy_log := (sy_log x)\<lparr>lg_lost := lg_lost (sy_log x) + join_lost is (sy_loop x)\<rparr>\<rparr>)"

text \<open>The join branch of \<^verbatim>\<open>select!\<close>: results are recorded, then rows still waiting are spawned.\<close>

definition do_join :: "('s, 'e) Config \<Rightarrow> nat list \<Rightarrow> ('s, 'e) Sys \<Rightarrow> ('s, 'e) Sys" where
  "do_join cf is x =
     (let x' = do_record cf is x
      in x'\<lparr>sy_loop := spawn_ready (lp_pending (sy_loop x')) (sy_loop x')\<rparr>)"

definition do_renew :: "('s, 'e) Config \<Rightarrow> timing \<Rightarrow> ('s, 'e) Sys \<Rightarrow> ('s, 'e) Sys" where
  "do_renew cf tm x =
     x\<lparr>sy_store := fst (bounded tm (so_extend_lease (cf_ops cf) (cf_worker cf) (lease_refs (sy_loop x))
         (lease (cf_settings cf))) (sy_store x))\<rparr>"

definition do_retry ::
    "('s, 'e) Config \<Rightarrow> timing \<times> instant \<Rightarrow> timing \<times> instant \<Rightarrow> ('s, 'e) Sys \<Rightarrow> ('s, 'e) Sys" where
  "do_retry cf c f x =
     (case retry_round cf c f x of (x', r) \<Rightarrow>
        (let l = on_retry_result (cf_settings cf) (sy_clock x') r (sy_loop x')
         in x'\<lparr>sy_loop := l, sy_phase := phase_after l\<rparr>))"

text \<open>The retry future dropped by another branch while its second write was under way: the first
  write's result stands, the second may have reached the store.\<close>

definition do_retry_half ::
    "('s, 'e) Config \<Rightarrow> timing \<times> instant \<Rightarrow> timing \<Rightarrow> ('s, 'e) Sys \<Rightarrow> ('s, 'e) Sys" where
  "do_retry_half cf c tm x =
     (let ops = cf_ops cf; w = cf_worker cf;
          (st1, l1, r1) = retry_complete ops w (lease (cf_settings cf)) (fst c) (snd c) (sy_store x) (sy_loop x)
      in if permanent r1 \<noteq> None \<or> unwritten_fail l1 = [] then x
         else x\<lparr>sy_store := fst (bounded tm (so_fail ops w (map snd (unwritten_fail l1))) st1),
                sy_loop := l1,
                sy_log := log_outcomes (written_complete ops w (fst c) (sy_store x) (sy_loop x))
                  (complete_refs (sy_loop x) - complete_refs l1) (sy_log x)\<rparr>)"

definition do_claim :: "('s, 'e) Config \<Rightarrow> timing \<Rightarrow> ('s, 'e) Sys \<Rightarrow> ('s, 'e) Sys" where
  "do_claim cf tm x =
     (let (st, r) = bounded tm (so_acquire (cf_ops cf)
            (claim_request (cf_settings cf) (cf_worker cf) (sy_loop x))) (sy_store x);
          l = on_acquired (cf_ops cf) (cf_settings cf) (sy_clock x) r (sy_loop x);
          new = (case r of Inr b \<Rightarrow> mset (map message_ref (ab_records b)) | Inl _ \<Rightarrow> {#})
      in x\<lparr>sy_store := st, sy_loop := l, sy_phase := phase_after l,
           sy_log := (sy_log x)\<lparr>lg_claimed := lg_claimed (sy_log x) + new\<rparr>\<rparr>)"

definition release_call ::
    "('s, 'e) Config \<Rightarrow> timing \<Rightarrow> MessageRef list \<Rightarrow> 's \<Rightarrow> 's" where
  "release_call cf tm ms st =
     (if ms = [] then st else fst (bounded tm (so_release (cf_ops cf) (cf_worker cf) ms) st))"

definition do_shutdown :: "('s, 'e) Config \<Rightarrow> timing \<Rightarrow> ('s, 'e) Sys \<Rightarrow> ('s, 'e) Sys" where
  "do_shutdown cf tm x =
     x\<lparr>sy_store := release_call cf tm (release_immediately (sy_loop x)) (sy_store x),
       sy_loop := drop_unstarted (sy_loop x),
       sy_phase := Draining (sy_clock x + int (drain_timeout (cf_settings cf))),
       sy_log := (sy_log x)\<lparr>lg_released := lg_released (sy_log x)
         + mset (release_immediately (sy_loop x))\<rparr>\<rparr>"

definition note_permanent :: "'e option \<Rightarrow> 'e Loop \<Rightarrow> 'e Loop" where
  "note_permanent p l = (if exit_reason l = None then l\<lparr>exit_reason := p\<rparr> else l)"

definition do_drain_join ::
    "('s, 'e) Config \<Rightarrow> nat list \<Rightarrow> timing \<times> instant \<Rightarrow> timing \<times> instant \<Rightarrow> ('s, 'e) Sys \<Rightarrow> ('s, 'e) Sys" where
  "do_drain_join cf is c f x =
     (case retry_round cf c f (do_record cf is x) of (x', r) \<Rightarrow>
        if permanent r = None then x'
        else x'\<lparr>sy_loop := note_permanent (permanent r) (sy_loop x'), sy_phase := DrainBroken\<rparr>)"

text \<open>The end of \<^verbatim>\<open>drain\<close>: release what failed or never resolved; the join set is dropped.\<close>

definition do_stop :: "('s, 'e) Config \<Rightarrow> timing \<Rightarrow> ('s, 'e) Sys \<Rightarrow> ('s, 'e) Sys" where
  "do_stop cf tm x =
     x\<lparr>sy_store := release_call cf tm (release_now (sy_loop x)) (sy_store x),
       sy_loop := (sy_loop x)\<lparr>lp_outstanding := [], unwritten_fail := [], lp_in_flight := []\<rparr>,
       sy_phase := Stopped,
       sy_log := (sy_log x)\<lparr>lg_released := lg_released (sy_log x) + mset (release_now (sy_loop x))\<rparr>\<rparr>"

definition do_drain_end ::
    "('s, 'e) Config \<Rightarrow> timing \<times> instant \<Rightarrow> timing \<times> instant \<Rightarrow> timing \<Rightarrow> ('s, 'e) Sys \<Rightarrow> ('s, 'e) Sys" where
  "do_drain_end cf c f tm x =
     (case retry_round cf c f x of (x', r) \<Rightarrow>
        do_stop cf tm (x'\<lparr>sy_loop := note_permanent (permanent r) (sy_loop x')\<rparr>))"

text \<open>\<open>env\<close> is what the other parties may do to the store between two calls.\<close>

inductive run_step ::
    "('s, 'e) Config \<Rightarrow> ('s \<Rightarrow> 's \<Rightarrow> bool) \<Rightarrow> ('s, 'e) Sys \<Rightarrow> ('s, 'e) Sys \<Rightarrow> bool"
  for cf :: "('s, 'e) Config" and env :: "'s \<Rightarrow> 's \<Rightarrow> bool" where
  rs_tick: "run_step cf env x (x\<lparr>sy_clock := sy_clock x + int d\<rparr>)"
| rs_env: "env (sy_store x) st \<Longrightarrow> run_step cf env x (x\<lparr>sy_store := st\<rparr>)"
| rs_permit: "\<lbrakk>map_of (lp_in_flight (sy_loop x)) i = Some t; \<not> pt_started t; pt_end t = None;
     permits_used (sy_loop x) < max_in_flight (cf_settings cf)\<rbrakk> \<Longrightarrow>
     run_step cf env x (x\<lparr>sy_loop := update_task i (\<lambda>t. t\<lparr>pt_started := True\<rparr>) (sy_loop x)\<rparr>)"
| rs_publish: "\<lbrakk>map_of (lp_in_flight (sy_loop x)) i = Some t; pt_started t; pt_end t = None\<rbrakk> \<Longrightarrow>
     run_step cf env x (x\<lparr>
       sy_loop := update_task i (\<lambda>t. t\<lparr>pt_end := Some (Ended (publish_one (pt_job t) ans))\<rparr>) (sy_loop x),
       sy_log := (sy_log x)\<lparr>lg_acked := lg_acked (sy_log x)
         + (if ans = PublishOk then {#pn_message (pt_job t)#} else {#})\<rparr>\<rparr>)"
| rs_panic: "\<lbrakk>map_of (lp_in_flight (sy_loop x)) i = Some t; pt_end t = None\<rbrakk> \<Longrightarrow>
     run_step cf env x (x\<lparr>sy_loop := update_task i (\<lambda>t. t\<lparr>pt_end := Some Panicked\<rparr>) (sy_loop x)\<rparr>)"
| rs_join: "\<lbrakk>sy_phase x = Running; is \<noteq> []; distinct is; \<forall>i \<in> set is. joinable (sy_loop x) i\<rbrakk> \<Longrightarrow>
     run_step cf env x (do_join cf is x)"
| rs_renew: "\<lbrakk>sy_phase x = Running; has_outstanding (sy_loop x)\<rbrakk> \<Longrightarrow>
     run_step cf env x (do_renew cf tm x)"
| rs_retry: "\<lbrakk>sy_phase x = Running; has_unwritten (sy_loop x);
     next_outcome_retry_at (sy_loop x) \<le> sy_clock x\<rbrakk> \<Longrightarrow>
     run_step cf env x (do_retry cf c f x)"
| rs_retry_dropped: "\<lbrakk>sy_phase x = Running; unwritten_complete (sy_loop x) \<noteq> [];
     next_outcome_retry_at (sy_loop x) \<le> sy_clock x; tm \<noteq> InTime\<rbrakk> \<Longrightarrow>
     run_step cf env x (x\<lparr>sy_store := fst (bounded tm (so_complete (cf_ops cf) (cf_worker cf)
       (map snd (unwritten_complete (sy_loop x)))) (sy_store x))\<rparr>)"
| rs_retry_half: "\<lbrakk>sy_phase x = Running; has_unwritten (sy_loop x);
     next_outcome_retry_at (sy_loop x) \<le> sy_clock x; tm \<noteq> InTime\<rbrakk> \<Longrightarrow>
     run_step cf env x (do_retry_half cf c tm x)"
| rs_claim: "\<lbrakk>sy_phase x = Running; has_capacity (cf_settings cf) (sy_loop x);
     next_poll_at (sy_loop x) \<le> sy_clock x\<rbrakk> \<Longrightarrow>
     run_step cf env x (do_claim cf tm x)"
| rs_cancel: "sy_phase x = Running \<Longrightarrow> run_step cf env x (x\<lparr>sy_phase := Breaking\<rparr>)"
| rs_shutdown: "sy_phase x = Breaking \<Longrightarrow> run_step cf env x (do_shutdown cf tm x)"
| rs_drain_join: "\<lbrakk>sy_phase x = Draining dl; sy_clock x < dl; is \<noteq> []; distinct is;
     \<forall>i \<in> set is. joinable (sy_loop x) i\<rbrakk> \<Longrightarrow>
     run_step cf env x (do_drain_join cf is c f x)"
| rs_drain_end: "\<lbrakk>sy_phase x = Draining dl; lp_in_flight (sy_loop x) = [] \<or> dl \<le> sy_clock x\<rbrakk> \<Longrightarrow>
     run_step cf env x (do_drain_end cf c f tm x)"
| rs_drain_broken: "sy_phase x = DrainBroken \<Longrightarrow> run_step cf env x (do_stop cf tm x)"

inductive run_reachable ::
    "('s, 'e) Config \<Rightarrow> ('s \<Rightarrow> 's \<Rightarrow> bool) \<Rightarrow> 's \<Rightarrow> ('s, 'e) Sys \<Rightarrow> bool"
  for cf :: "('s, 'e) Config" and env :: "'s \<Rightarrow> 's \<Rightarrow> bool" and st0 :: 's where
  rr_init: "run_reachable cf env st0 (sys_init st0 t)"
| rr_step: "run_reachable cf env st0 x \<Longrightarrow> run_step cf env x x' \<Longrightarrow> run_reachable cf env st0 x'"

end
