(* ===== verification/Dispatcher_Props.thy ===== *)
theory Dispatcher_Props
  imports Dispatcher_Run
begin

text \<open>
  The invariants of the dispatcher's \<^verbatim>\<open>run\<close> that hold whatever the store does: the bookkeeping is
  consistent, every claimed row is accounted for, an outcome is written only for a publish that
  ended so, and \<^verbatim>\<open>run\<close> ends in error only on a permanent store error.
\<close>

section \<open>The invariant\<close>

fun outcome_message :: "PublishTaskOutcome \<Rightarrow> MessageRef" where
  "outcome_message (Published m ty) = m"
| "outcome_message (Failed m a k e) = m"

definition task_ok :: "MessageRef multiset \<Rightarrow> PublishTask \<Rightarrow> bool" where
  "task_ok acked t \<longleftrightarrow>
     (\<forall>oc. pt_end t = Some (Ended oc) \<longrightarrow>
        pt_started t \<and> outcome_message oc = pn_message (pt_job t)
        \<and> (\<forall>m ty. oc = Published m ty \<longrightarrow> m \<in># acked))"

definition task_gone :: "PublishTask \<Rightarrow> bool" where
  "task_gone t \<longleftrightarrow> pt_end t = Some Aborted \<or> pt_end t = Some Panicked"

definition loop_inv :: "MessageRef multiset \<Rightarrow> 'e Loop \<Rightarrow> bool" where
  "loop_inv acked l \<longleftrightarrow>
     lp_pending l = [] \<and> distinct (map fst (lp_in_flight l))
     \<and> (\<forall>i \<in> fst ` set (lp_in_flight l). i < lp_next_task l)
     \<and> distinct (map fst (lp_outstanding l))
     \<and> (\<forall>(i, m) \<in> set (lp_outstanding l). \<exists>t. map_of (lp_in_flight l) i = Some t \<and> pn_message (pt_job t) = m)
     \<and> (\<forall>(i, t) \<in> set (lp_in_flight l). task_ok acked t
          \<and> (i \<notin> fst ` set (lp_outstanding l) \<longrightarrow> task_gone t))
     \<and> (\<forall>m \<in># complete_refs l. m \<in># acked)"

definition conserved :: "Log \<Rightarrow> 'e Loop \<Rightarrow> bool" where
  "conserved g l \<longleftrightarrow>
     lg_claimed g = tracked l + lg_written g + lg_released g + lg_abandoned g + lg_lost g"

definition exit_ok :: "('s, 'e) Config \<Rightarrow> 'e Loop \<Rightarrow> bool" where
  "exit_ok cf l \<longleftrightarrow> (\<forall>e. exit_reason l = Some e \<longrightarrow> so_kind (cf_ops cf) e = Permanent)"

definition sys_inv :: "('s, 'e) Config \<Rightarrow> ('s, 'e) Sys \<Rightarrow> bool" where
  "sys_inv cf x \<longleftrightarrow>
     loop_inv (lg_acked (sy_log x)) (sy_loop x) \<and> conserved (sy_log x) (sy_loop x)
     \<and> exit_ok cf (sy_loop x)"

lemmas tracked_defs = tracked_def outstanding_refs_def complete_refs_def fail_refs_def

section \<open>Joining\<close>

lemma mset_delete_snd:
  "distinct (map fst xs) \<Longrightarrow> (i, m) \<in> set xs \<Longrightarrow>
   mset (map snd xs) = add_mset m (mset (map snd (AList.delete i xs)))"
  by (induction xs) (auto simp: delete_id)

lemma map_of_filter_not: "k \<noteq> i \<Longrightarrow> map_of (filter (\<lambda>(j, _). j \<noteq> i) xs) k = map_of xs k"
  by (induction xs) auto

lemma join_single:
  "join_tasks cf [i] now l = record_publish_result now (cf_policy cf)
     (join_result_of i (the (pt_end (the (map_of (lp_in_flight l) i)))))
     (l\<lparr>lp_in_flight := filter (\<lambda>(j, _). j \<noteq> i) (lp_in_flight l)\<rparr>)"
  by (simp add: join_tasks_def join_results_def record_publish_results_def)

lemma record_publish_result_frame [simp]:
  "lp_in_flight (record_publish_result now p r l) = lp_in_flight l"
  "lp_pending (record_publish_result now p r l) = lp_pending l"
  "lp_next_task (record_publish_result now p r l) = lp_next_task l"
  "exit_reason (record_publish_result now p r l) = exit_reason l"
  "next_poll_at (record_publish_result now p r l) = next_poll_at l"
  by (cases "(now, p, r, l)" rule: record_publish_result.cases; simp)+

lemma record_in_flight:
  "record_publish_result now p r (l\<lparr>lp_in_flight := f\<rparr>) = (record_publish_result now p r l)\<lparr>lp_in_flight := f\<rparr>"
  by (cases "(now, p, r, l)" rule: record_publish_result.cases) simp_all

lemma record_results_in_flight:
  "fold (record_publish_result now p) rs (l\<lparr>lp_in_flight := f\<rparr>)
     = (fold (record_publish_result now p) rs l)\<lparr>lp_in_flight := f\<rparr>"
  by (induction rs arbitrary: l) (simp_all add: record_in_flight)

lemma join_tasks_Cons:
  assumes "i \<notin> set is"
  shows "join_tasks cf (i # is) now l = join_tasks cf is now (join_tasks cf [i] now l)"
proof -
  let ?l1 = "join_tasks cf [i] now l"
  have fl: "lp_in_flight ?l1 = filter (\<lambda>(j, _). j \<noteq> i) (lp_in_flight l)" by (simp add: join_single)
  have 1: "join_results ?l1 is = join_results l is"
    unfolding join_results_def fl
    using assms by (intro map_cong refl) (metis map_of_filter_not)
  have 2: "filter (\<lambda>(j, _). j \<notin> set is) (filter (\<lambda>(j, _). j \<noteq> i) (lp_in_flight l))
      = filter (\<lambda>(j, _). j \<notin> set (i # is)) (lp_in_flight l)"
    by (auto intro: filter_cong)
  have l1: "?l1 = (record_publish_result now (cf_policy cf)
     (join_result_of i (the (pt_end (the (map_of (lp_in_flight l) i))))) l)
       \<lparr>lp_in_flight := filter (\<lambda>(j, _). j \<noteq> i) (lp_in_flight l)\<rparr>"
    by (simp only: join_single record_in_flight)
  have "join_tasks cf is now ?l1 = (fold (record_publish_result now (cf_policy cf))
      (join_results l is) ?l1)\<lparr>lp_in_flight := filter (\<lambda>(j, _). j \<notin> set (i # is)) (lp_in_flight l)\<rparr>"
    unfolding join_tasks_def [of cf "is"] record_publish_results_def record_results_in_flight 1 fl 2 ..
  also have "\<dots> = join_tasks cf (i # is) now l"
    unfolding l1 record_results_in_flight
    by (simp add: join_tasks_def join_results_def record_publish_results_def record_in_flight
        record_results_in_flight)
  finally show ?thesis ..
qed

lemma map_of_Some_in: "map_of xs i = Some t \<Longrightarrow> (i, t) \<in> set xs"
  by (rule map_of_SomeD)

lemma join_lost_single:
  "join_lost [i] l = mset (map snd (filter (\<lambda>(j, _). j = i \<and>
     (case map_of (lp_in_flight l) i of
          Some t \<Rightarrow> task_gone t | None \<Rightarrow> False)) (lp_outstanding l)))"
proof -
  have "(\<lambda>(j, _). j \<in> set [i] \<and> (case map_of (lp_in_flight l) j of
          Some t \<Rightarrow> pt_end t = Some Panicked \<or> pt_end t = Some Aborted | None \<Rightarrow> False))
    = (\<lambda>(j, _). j = i \<and> (case map_of (lp_in_flight l) i of Some t \<Rightarrow> task_gone t | None \<Rightarrow> False))"
    by (auto simp: fun_eq_iff task_gone_def split: option.splits)
  then show ?thesis
    unfolding join_lost_def by (rule arg_cong [where f = "\<lambda>p. mset (map snd (filter p (lp_outstanding l)))"])
qed

text \<open>The loop without one of its tasks.\<close>

definition without_task :: "nat \<Rightarrow> 'e Loop \<Rightarrow> 'e Loop" where
  "without_task i l =
     l\<lparr>lp_in_flight := filter (\<lambda>(j, _). j \<noteq> i) (lp_in_flight l), lp_outstanding := AList.delete i (lp_outstanding l)\<rparr>"

lemma without_task_inv:
  assumes inv: "loop_inv acked l"
  shows "loop_inv acked (without_task i l)"
proof -
  let ?fl = "filter (\<lambda>(j, _). j \<noteq> i) (lp_in_flight l)"
  let ?out = "AList.delete i (lp_outstanding l)"
  have "distinct (map fst ?fl)" "\<forall>j \<in> fst ` set ?fl. j < lp_next_task l"
    using inv by (auto simp: loop_inv_def distinct_map inj_on_def)
  moreover have "distinct (map fst ?out)" using inv by (simp add: loop_inv_def distinct_delete)
  moreover have "\<forall>(j, m) \<in> set ?out. \<exists>t. map_of ?fl j = Some t \<and> pn_message (pt_job t) = m"
  proof clarify
    fix j m assume "(j, m) \<in> set ?out"
    then have "(j, m) \<in> set (lp_outstanding l)" "j \<noteq> i" by (auto simp: set_delete)
    with inv map_of_filter_not [of j i "lp_in_flight l"]
    show "\<exists>t. map_of ?fl j = Some t \<and> pn_message (pt_job t) = m"
      by (fastforce simp: loop_inv_def)
  qed
  moreover have "\<forall>(j, t) \<in> set ?fl. task_ok acked t \<and> (j \<notin> fst ` set ?out \<longrightarrow> task_gone t)"
    using inv by (fastforce simp: loop_inv_def set_delete)
  ultimately show ?thesis using inv by (simp add: without_task_def loop_inv_def complete_refs_def)
qed

lemma join_gone:
  assumes "map_of (lp_in_flight l) i = Some t" "task_gone t"
  shows "join_tasks cf [i] now l = without_task i l"
  using assms by (auto simp: join_single task_gone_def without_task_def)

text \<open>One task joined: the bookkeeping stays consistent and the row moves from outstanding to an
  unwritten outcome or, without an outcome, out of sight.\<close>

lemma join_one:
  assumes inv: "loop_inv acked l" and t: "map_of (lp_in_flight l) i = Some t" "pt_end t = Some e"
  shows "loop_inv acked (join_tasks cf [i] now l)"
    "tracked l = tracked (join_tasks cf [i] now l) + join_lost [i] l"
proof -
  have "(i, t) \<in> set (lp_in_flight l)" using t(1) by (rule map_of_SomeD)
  then have d: "distinct (map fst (lp_outstanding l))"
    and ok: "task_ok acked t" "i \<notin> fst ` set (lp_outstanding l) \<Longrightarrow> task_gone t"
    using inv by (auto simp: loop_inv_def)
  note base = without_task_inv [OF inv, of i] and gone = join_gone [OF t(1), of cf now]
  have "loop_inv acked (join_tasks cf [i] now l)
      \<and> tracked l = tracked (join_tasks cf [i] now l) + join_lost [i] l"
  proof (cases "i \<in> fst ` set (lp_outstanding l)")
    case False
    then have g: "task_gone t" by (rule ok(2))
    have "join_lost [i] l = {#}" using False t g by (force simp: join_lost_single filter_empty_conv)
    then show ?thesis
      using base gone [OF g] delete_id [OF False] by (simp add: tracked_defs without_task_def)
  next
    case True
    then obtain m where m: "(i, m) \<in> set (lp_outstanding l)" by auto
    then have msg: "pn_message (pt_job t) = m" using inv t by (fastforce simp: loop_inv_def)
    note mm = mset_delete_snd [OF d m]
    have lost: "join_lost [i] l = (if task_gone t then {#m#} else {#})"
      using t filter_key [OF d m] by (simp add: join_lost_single del: mset_map mset_filter)
    show ?thesis
    proof (cases "task_gone t")
      case True
      then show ?thesis using base gone lost mm by (simp add: tracked_defs without_task_def)
    next
      case False
      with t obtain oc where oc: "pt_end t = Some (Ended oc)" by (cases e) (auto simp: task_gone_def)
      with ok(1) msg have om: "outcome_message oc = m" "\<And>ty. oc = Published m ty \<Longrightarrow> m \<in># acked"
        by (auto simp: task_ok_def)
      show ?thesis
        using base lost mm False t oc om
        by (cases oc) (auto simp: join_single tracked_defs loop_inv_def failed_message_new_def without_task_def)
    qed
  qed
  then show "loop_inv acked (join_tasks cf [i] now l)"
    "tracked l = tracked (join_tasks cf [i] now l) + join_lost [i] l" by blast+
qed

lemma joinable_iff: "joinable l i \<longleftrightarrow> (\<exists>t e. map_of (lp_in_flight l) i = Some t \<and> pt_end t = Some e)"
  by (auto simp: joinable_def split: option.splits)

lemma join_single_in_flight: "lp_in_flight (join_tasks cf [i] now l) = filter (\<lambda>(j, _). j \<noteq> i) (lp_in_flight l)"
  by (simp add: join_single)

lemma record_publish_result_outstanding:
  "lp_outstanding (record_publish_result now p (join_result_of i e) l) = AList.delete i (lp_outstanding l)"
proof (cases e)
  case (Ended oc)
  then show ?thesis by (cases oc) simp_all
qed simp_all

lemma join_single_outstanding:
  "lp_outstanding (join_tasks cf [i] now l) = AList.delete i (lp_outstanding l)"
  by (simp add: join_single record_publish_result_outstanding)

lemma filter_delete: "filter P (AList.delete i xs) = filter (\<lambda>p. P p \<and> fst p \<noteq> i) xs"
  by (induction xs) auto

lemma join_lost_Cons:
  assumes "i \<notin> set is"
  shows "join_lost (i # is) l = join_lost [i] l + join_lost is (join_tasks cf [i] now l)"
proof -
  define gone where "gone j = (case map_of (lp_in_flight l) j of
     Some t \<Rightarrow> pt_end t = Some Panicked \<or> pt_end t = Some Aborted | None \<Rightarrow> False)" for j
  have g: "(case map_of (lp_in_flight (join_tasks cf [i] now l)) j of
     Some t \<Rightarrow> pt_end t = Some Panicked \<or> pt_end t = Some Aborted | None \<Rightarrow> False) = gone j"
    if "j \<in> set is" for j
  proof -
    from that assms have "j \<noteq> i" by auto
    then show ?thesis by (simp only: join_single_in_flight gone_def map_of_filter_not not_False_eq_True)
  qed
  have rest: "join_lost is (join_tasks cf [i] now l)
      = mset (map snd (filter (\<lambda>p. fst p \<in> set is \<and> gone (fst p)) (lp_outstanding l)))"
    unfolding join_lost_def join_single_outstanding filter_delete
    using assms g
    by (intro arg_cong [where f = mset] arg_cong [where f = "map snd"] filter_cong) auto
  have "mset (filter (\<lambda>p. fst p \<in> set (i # is) \<and> gone (fst p)) xs)
      = mset (filter (\<lambda>p. fst p = i \<and> gone (fst p)) xs)
        + mset (filter (\<lambda>p. fst p \<in> set is \<and> gone (fst p)) xs)" for xs :: "(nat \<times> MessageRef) list"
    using assms by (induction xs) auto
  then show ?thesis
    unfolding rest by (simp add: join_lost_def gone_def split_def)
qed

lemma join_many:
  assumes "loop_inv acked l" "distinct is" "\<forall>i \<in> set is. joinable l i"
  shows "loop_inv acked (join_tasks cf is now l)
    \<and> tracked l = tracked (join_tasks cf is now l) + join_lost is l"
  using assms
proof (induction "is" arbitrary: l)
  case Nil
  have "lp_in_flight l = filter (\<lambda>(i, _). i \<notin> set []) (lp_in_flight l)" by (simp add: case_prod_beta')
  with Nil show ?case
    by (simp add: join_tasks_def join_results_def record_publish_results_def join_lost_def)
next
  case (Cons i "is")
  let ?l1 = "join_tasks cf [i] now l"
  from Cons.prems obtain t e where te: "map_of (lp_in_flight l) i = Some t" "pt_end t = Some e"
    by (auto simp: joinable_iff)
  note one = join_one [OF Cons.prems(1) te, of cf now]
  have i: "i \<notin> set is" "distinct is" using Cons.prems by simp_all
  have "joinable ?l1 j" if "j \<in> set is" for j
  proof -
    from that i(1) have "j \<noteq> i" by auto
    moreover from that Cons.prems(3) have "joinable l j" by simp
    ultimately show ?thesis by (simp only: joinable_def join_single_in_flight map_of_filter_not not_False_eq_True)
  qed
  with Cons.IH [OF one(1) i(2)] one(2) show ?case
    unfolding join_tasks_Cons [OF i(1)] join_lost_Cons [OF i(1), of l cf now] by auto
qed

end
