(* ===== verification/Dispatcher_Safety.thy ===== *)
theory Dispatcher_Safety
  imports Dispatcher_Props
begin

text \<open>
  Every step of the dispatcher keeps the invariant of \<open>Dispatcher_Props\<close>: the effect of the outcome
  writes, of a claim, of the task steps and of the shutdown on the tracked rows, and the invariant
  of all reachable states by rule induction.
\<close>

section \<open>Outcome writes\<close>

lemma expire_past_lease_filter:
  "expire_past_lease now d xs = filter (\<lambda>(since, _). since_duration now since \<le> d) xs"
proof (cases "filter (\<lambda>(since, _). since_duration now since > d) xs = []")
  case True
  then have "filter (\<lambda>(since, _). since_duration now since \<le> d) xs = xs"
    by (auto simp: filter_empty_conv filter_id_conv)
  with True show ?thesis by (simp add: expire_past_lease_def)
next
  case False
  then show ?thesis by (simp add: expire_past_lease_def)
qed

lemma filter_refs_subset: "mset (map f (filter P xs)) \<subseteq># mset (map f xs)"
  by (metis mset_filter mset_map image_mset_subseteq_mono multiset_filter_subset)

text \<open>The two loops differ in their unwritten outcomes, their deadlines and the exit reason only.\<close>

definition same_tasks :: "'e Loop \<Rightarrow> 'e Loop \<Rightarrow> bool" where
  "same_tasks l l' \<longleftrightarrow>
     lp_pending l' = lp_pending l \<and> lp_in_flight l' = lp_in_flight l \<and> lp_next_task l' = lp_next_task l
     \<and> lp_outstanding l' = lp_outstanding l"

lemma same_tasks_trans: "same_tasks l1 l2 \<Longrightarrow> same_tasks l2 l3 \<Longrightarrow> same_tasks l1 l3"
  by (simp add: same_tasks_def)

lemma loop_inv_same_tasks:
  assumes "loop_inv acked l" "same_tasks l l'" "complete_refs l' \<subseteq># complete_refs l"
  shows "loop_inv acked l'"
  using assms by (auto simp: loop_inv_def same_tasks_def dest: mset_subset_eqD)

lemma retry_complete_effect:
  assumes "retry_complete ops w d tm now st l = (st1, l1, r1)"
  shows "same_tasks l l1" "unwritten_fail l1 = unwritten_fail l" "exit_reason l1 = exit_reason l"
    "written_complete ops w tm st l + complete_refs l1 \<subseteq># complete_refs l"
    "permanent r1 = Some e \<Longrightarrow> so_kind ops e = Permanent"
  using assms
  by (auto simp: retry_complete_def Let_def same_tasks_def written_complete_def complete_refs_def
      expire_past_lease_filter filter_refs_subset is_ok_def
      split: if_splits prod.splits sum.splits TimedOut.splits
      simp del: mset_map mset_filter)

lemma retry_fail_effect:
  assumes "retry_fail ops w d tm now st l = (st1, l1, r1)"
  shows "same_tasks l l1" "unwritten_complete l1 = unwritten_complete l" "exit_reason l1 = exit_reason l"
    "written_fail ops w tm st l + fail_refs l1 \<subseteq># fail_refs l"
    "permanent r1 = Some e \<Longrightarrow> so_kind ops e = Permanent"
  using assms
  by (auto simp: retry_fail_def Let_def same_tasks_def written_fail_def fail_refs_def
      expire_past_lease_filter filter_refs_subset is_ok_def
      split: if_splits prod.splits sum.splits TimedOut.splits
      simp del: mset_map mset_filter)

lemma account_outcomes:
  assumes "w + c1 \<subseteq># (c :: 'a multiset)"
  shows "c = c1 + w + (c - c1 - w)"
  using assms by (metis add.commute diff_diff_add_mset subset_mset.add_diff_inverse)

text \<open>One whole round: what leaves the two queues was written or is abandoned to its lease.\<close>

lemma retry_round_effect:
  assumes r: "retry_round cf c f x = (x', r)"
    and inv: "loop_inv (lg_acked (sy_log x)) (sy_loop x)" and con: "conserved (sy_log x) (sy_loop x)"
  shows "loop_inv (lg_acked (sy_log x')) (sy_loop x')" "conserved (sy_log x') (sy_loop x')"
    "exit_reason (sy_loop x') = exit_reason (sy_loop x)" "same_tasks (sy_loop x) (sy_loop x')"
    "sy_clock x' = sy_clock x" "sy_phase x' = sy_phase x" "lg_acked (sy_log x') = lg_acked (sy_log x)"
    "permanent r = Some e \<Longrightarrow> so_kind (cf_ops cf) e = Permanent"
proof -
  let ?ops = "cf_ops cf" and ?w = "cf_worker cf" and ?d = "lease (cf_settings cf)" and ?l = "sy_loop x"
  obtain st1 l1 r1 where c: "retry_complete ?ops ?w ?d (fst c) (snd c) (sy_store x) ?l = (st1, l1, r1)"
    by (metis prod_cases3)
  obtain st2 l2 r2 where f: "retry_fail ?ops ?w ?d (fst f) (snd f) st1 l1 = (st2, l2, r2)"
    by (metis prod_cases3)
  note ce = retry_complete_effect [OF c] and fe = retry_fail_effect [OF f]
  have c1: "complete_refs l1 \<subseteq># complete_refs ?l" using ce(4) by (rule subset_mset.order_trans [rotated]) simp
  have t1: "tracked ?l = tracked l1 + written_complete ?ops ?w (fst c) (sy_store x) ?l
      + (complete_refs ?l - complete_refs l1 - written_complete ?ops ?w (fst c) (sy_store x) ?l)"
    using account_outcomes [OF ce(4)] ce(1, 2)
    by (simp add: tracked_def outstanding_refs_def same_tasks_def fail_refs_def add.assoc)
  have t2: "tracked l1 = tracked l2 + written_fail ?ops ?w (fst f) st1 l1
      + (fail_refs l1 - fail_refs l2 - written_fail ?ops ?w (fst f) st1 l1)"
    using account_outcomes [OF fe(4)] fe(1, 2)
    by (simp add: tracked_def outstanding_refs_def same_tasks_def complete_refs_def add.assoc)
  have i1: "loop_inv (lg_acked (sy_log x)) l1" using loop_inv_same_tasks [OF inv ce(1) c1] .
  have i2: "loop_inv (lg_acked (sy_log x)) l2"
    using loop_inv_same_tasks [OF i1 fe(1)] fe(2) by (simp add: complete_refs_def)
  have s2: "same_tasks ?l l2" using ce(1) fe(1) by (rule same_tasks_trans)
  have x': "if permanent r1 \<noteq> None
      then r = r1 \<and> x' = x\<lparr>sy_store := st1, sy_loop := l1,
             sy_log := log_outcomes (written_complete ?ops ?w (fst c) (sy_store x) ?l)
               (complete_refs ?l - complete_refs l1) (sy_log x)\<rparr>
      else r = \<lparr>permanent = permanent r2, any_failed = any_failed r1 \<or> any_failed r2\<rparr> \<and>
        x' = x\<lparr>sy_store := st2, sy_loop := l2,
             sy_log := log_outcomes (written_fail ?ops ?w (fst f) st1 l1) (fail_refs l1 - fail_refs l2)
               (log_outcomes (written_complete ?ops ?w (fst c) (sy_store x) ?l)
                 (complete_refs ?l - complete_refs l1) (sy_log x))\<rparr>"
    using r by (auto simp: retry_round_def retry_unwritten_outcomes_def c f Let_def)
  show "loop_inv (lg_acked (sy_log x')) (sy_loop x')" using x' i1 i2
    by (auto simp: log_outcomes_def split: if_splits)
  show "conserved (sy_log x') (sy_loop x')"
  proof (cases "permanent r1 = None")
    case True
    with x' con show ?thesis unfolding conserved_def t1 t2 by (simp add: log_outcomes_def)
  next
    case False
    with x' con show ?thesis unfolding conserved_def t1 by (simp add: log_outcomes_def)
  qed
  show "exit_reason (sy_loop x') = exit_reason ?l" using x' ce(3) fe(3) by (auto split: if_splits)
  show "same_tasks ?l (sy_loop x')" using x' ce(1) s2 by (auto split: if_splits)
  show "sy_clock x' = sy_clock x" "sy_phase x' = sy_phase x" "lg_acked (sy_log x') = lg_acked (sy_log x)"
    using x' by (auto simp: log_outcomes_def split: if_splits)
  show "permanent r = Some e \<Longrightarrow> so_kind ?ops e = Permanent"
    using x' ce(5) fe(5) by (auto split: if_splits)
qed

section \<open>Claiming\<close>

lemma loop_invD:
  assumes "loop_inv acked l"
  shows "lp_pending l = []" "distinct (map fst (lp_in_flight l))" "distinct (map fst (lp_outstanding l))"
    "(i, t) \<in> set (lp_in_flight l) \<Longrightarrow> i < lp_next_task l"
    "(i, m) \<in> set (lp_outstanding l) \<Longrightarrow> \<exists>t. map_of (lp_in_flight l) i = Some t \<and> pn_message (pt_job t) = m"
    "(i, t) \<in> set (lp_in_flight l) \<Longrightarrow> task_ok acked t"
    "(i, t) \<in> set (lp_in_flight l) \<Longrightarrow> i \<notin> fst ` set (lp_outstanding l) \<Longrightarrow> task_gone t"
    "m \<in># complete_refs l \<Longrightarrow> m \<in># acked"
  using assms by (force simp: loop_inv_def)+

lemma loop_invI:
  assumes "lp_pending l = []" "distinct (map fst (lp_in_flight l))" "distinct (map fst (lp_outstanding l))"
    "\<And>i t. (i, t) \<in> set (lp_in_flight l) \<Longrightarrow> i < lp_next_task l"
    "\<And>i m. (i, m) \<in> set (lp_outstanding l) \<Longrightarrow>
       \<exists>t. map_of (lp_in_flight l) i = Some t \<and> pn_message (pt_job t) = m"
    "\<And>i t. (i, t) \<in> set (lp_in_flight l) \<Longrightarrow> task_ok acked t"
    "\<And>i t. (i, t) \<in> set (lp_in_flight l) \<Longrightarrow> i \<notin> fst ` set (lp_outstanding l) \<Longrightarrow> task_gone t"
    "\<And>m. m \<in># complete_refs l \<Longrightarrow> m \<in># acked"
  shows "loop_inv acked l"
  using assms unfolding loop_inv_def by (auto simp del: set_map)

lemma outstanding_ids_in_flight:
  assumes "loop_inv acked l"
  shows "fst ` set (lp_outstanding l) \<subseteq> fst ` set (lp_in_flight l)"
proof clarsimp
  fix i m assume "(i, m) \<in> set (lp_outstanding l)"
  from loop_invD(5) [OF assms this] show "i \<in> fst ` set (lp_in_flight l)"
    by (metis map_of_SomeD fst_conv image_eqI)
qed

lemma spawn_one_inv:
  assumes inv: "loop_inv acked l" and i: "i = lp_next_task l"
    and new: "pt_job t = r" "pt_end t = None"
  shows "loop_inv acked (l\<lparr>lp_in_flight := lp_in_flight l @ [(i, t)],
    lp_outstanding := lp_outstanding l @ [(i, pn_message r)], lp_next_task := i + 1\<rparr>)"
    (is "loop_inv acked ?l'")
proof -
  have fresh: "i \<notin> fst ` set (lp_in_flight l)" using loop_invD(4) [OF inv] i by force
  then have none: "map_of (lp_in_flight l) i = None" by (simp add: map_of_eq_None_iff)
  have out: "i \<notin> fst ` set (lp_outstanding l)" using fresh outstanding_ids_in_flight [OF inv] by blast
  have link: "\<exists>t'. map_of (lp_in_flight l @ [(i, t)]) j = Some t' \<and> pn_message (pt_job t') = m"
    if jm: "(j, m) \<in> set (lp_outstanding l @ [(i, pn_message r)])" for j m
  proof (cases "j = i")
    case True
    then show ?thesis using jm out none new by (force simp: map_add_def)
  next
    case False
    then show ?thesis using jm loop_invD(5) [OF inv, of j m] by (auto simp: map_add_def)
  qed
  show ?thesis
  proof (rule loop_invI)
    show "lp_pending ?l' = []" using loop_invD(1) [OF inv] by simp
    show "distinct (map fst (lp_in_flight ?l'))" using loop_invD(2) [OF inv] fresh by simp
    show "distinct (map fst (lp_outstanding ?l'))" using loop_invD(3) [OF inv] out by simp
    show "j < lp_next_task ?l'" if "(j, t') \<in> set (lp_in_flight ?l')" for j t'
      using that loop_invD(4) [OF inv, of j t'] i by auto
    show "\<exists>t'. map_of (lp_in_flight ?l') j = Some t' \<and> pn_message (pt_job t') = m"
      if "(j, m) \<in> set (lp_outstanding ?l')" for j m
      using link [of j m] that by simp
    show "task_ok acked t'" if "(j, t') \<in> set (lp_in_flight ?l')" for j t'
      using that loop_invD(6) [OF inv, of j t'] new by (auto simp: task_ok_def)
    show "task_gone t'" if "(j, t') \<in> set (lp_in_flight ?l')" "j \<notin> fst ` set (lp_outstanding ?l')" for j t'
      using that loop_invD(7) [OF inv, of j t'] by auto
    show "m \<in># acked" if "m \<in># complete_refs ?l'" for m
      using that loop_invD(8) [OF inv, of m] by (simp add: complete_refs_def)
  qed
qed

lemma spawn_ready_effect:
  assumes "loop_inv acked (l\<lparr>lp_pending := []\<rparr>)"
  shows "loop_inv acked (spawn_ready rs l)
   \<and> tracked (spawn_ready rs l) = tracked (l\<lparr>lp_pending := []\<rparr>) + mset (map pn_message rs)
   \<and> outstanding_count (spawn_ready rs l) = outstanding_count l + length rs
   \<and> permits_used (spawn_ready rs l) = permits_used l
   \<and> exit_reason (spawn_ready rs l) = exit_reason l"
  using assms
proof (induction rs arbitrary: l)
  case Nil
  then show ?case by (simp add: outstanding_count_def permits_used_def)
next
  case (Cons r rs)
  let ?l1 = "l\<lparr>lp_in_flight := lp_in_flight l
        @ [(lp_next_task l, \<lparr>pt_job = r, pt_started = False, pt_end = None\<rparr>)],
      lp_outstanding := lp_outstanding l @ [(lp_next_task l, pn_message r)],
      lp_next_task := lp_next_task l + 1\<rparr>"
  have "loop_inv acked (?l1\<lparr>lp_pending := []\<rparr>)"
    using spawn_one_inv [OF Cons.prems refl, of "\<lparr>pt_job = r, pt_started = False, pt_end = None\<rparr>" r]
    by (cases l) simp
  from Cons.IH [OF this] show ?case
    by (simp add: tracked_defs outstanding_count_def permits_used_def)
qed

lemma loop_inv_deadline [simp]:
  "loop_inv acked (l\<lparr>next_poll_at := a\<rparr>) = loop_inv acked l"
  "loop_inv acked (l\<lparr>next_outcome_retry_at := a\<rparr>) = loop_inv acked l"
  "loop_inv acked (l\<lparr>exit_reason := e\<rparr>) = loop_inv acked l"
  by (simp_all add: loop_inv_def complete_refs_def)

lemma on_acquired_effect:
  assumes inv: "loop_inv acked l" and ex: "exit_reason l = None"
  shows "loop_inv acked (on_acquired ops s now r l)"
    "tracked (on_acquired ops s now r l) = tracked l
       + (case r of Inr b \<Rightarrow> mset (map message_ref (ab_records b)) | Inl _ \<Rightarrow> {#})"
    "exit_reason (on_acquired ops s now r l) = Some e \<Longrightarrow> so_kind ops e = Permanent"
proof -
  have p: "lp_pending l = []" using inv by (simp add: loop_inv_def)
  show "loop_inv acked (on_acquired ops s now r l)"
    "tracked (on_acquired ops s now r l) = tracked l
       + (case r of Inr b \<Rightarrow> mset (map message_ref (ab_records b)) | Inl _ \<Rightarrow> {#})"
    "exit_reason (on_acquired ops s now r l) = Some e \<Longrightarrow> so_kind ops e = Permanent"
  proof (atomize(full), cases r)
    case (Inl err)
    then show "loop_inv acked (on_acquired ops s now r l) \<and>
      tracked (on_acquired ops s now r l) = tracked l
       + (case r of Inr b \<Rightarrow> mset (map message_ref (ab_records b)) | Inl _ \<Rightarrow> {#}) \<and>
      (exit_reason (on_acquired ops s now r l) = Some e \<longrightarrow> so_kind ops e = Permanent)"
      using inv ex by (cases err) (auto simp: on_acquired_def tracked_defs)
  next
    case (Inr b)
    have "loop_inv acked (l\<lparr>next_poll_at := t, lp_pending := q\<rparr>\<lparr>lp_pending := []\<rparr>)" for t q
      by (rule loop_inv_same_tasks [OF inv]) (simp_all add: same_tasks_def p complete_refs_def)
    note eff = spawn_ready_effect [OF this]
    show "loop_inv acked (on_acquired ops s now r l) \<and>
      tracked (on_acquired ops s now r l) = tracked l
       + (case r of Inr b \<Rightarrow> mset (map message_ref (ab_records b)) | Inl _ \<Rightarrow> {#}) \<and>
      (exit_reason (on_acquired ops s now r l) = Some e \<longrightarrow> so_kind ops e = Permanent)"
      using eff Inr inv ex p
      by (auto simp: on_acquired_def Let_def tracked_defs multiset.map_comp comp_def pending_row_def)
  qed
qed

section \<open>Task steps and shutdown\<close>

lemma map_of_map_keyed: "map_of (map (\<lambda>(k, v). (k, g k v)) xs) j = map_option (g j) (map_of xs j)"
  by (induction xs) auto

lemma map_of_update_task:
  "map_of (lp_in_flight (update_task i f l)) j
     = map_option (\<lambda>t. if j = i then f t else t) (map_of (lp_in_flight l) j)"
  by (simp add: update_task_def map_of_map_keyed)

lemma update_task_frame [simp]:
  "lp_outstanding (update_task i f l) = lp_outstanding l"
  "lp_pending (update_task i f l) = lp_pending l"
  "unwritten_complete (update_task i f l) = unwritten_complete l"
  "unwritten_fail (update_task i f l) = unwritten_fail l"
  "exit_reason (update_task i f l) = exit_reason l"
  "complete_refs (update_task i f l) = complete_refs l"
  "tracked (update_task i f l) = tracked l"
  by (simp_all add: update_task_def tracked_defs)

lemma task_ok_mono: "task_ok acked t \<Longrightarrow> acked \<subseteq># acked' \<Longrightarrow> task_ok acked' t"
  by (auto simp: task_ok_def dest: mset_subset_eqD)

lemma update_task_inv:
  assumes inv: "loop_inv acked l" and t: "map_of (lp_in_flight l) i = Some t"
    and f: "pt_job (f t) = pt_job t" "task_ok acked' (f t)" "task_gone t \<Longrightarrow> task_gone (f t)"
    and acked: "acked \<subseteq># acked'"
  shows "loop_inv acked' (update_task i f l)"
proof (rule loop_invI)
  let ?l' = "update_task i f l"
  have ids: "map fst (lp_in_flight ?l') = map fst (lp_in_flight l)"
    by (auto simp: update_task_def)
  have mem: "\<exists>t0. (j, t0) \<in> set (lp_in_flight l) \<and> t' = (if j = i then f t0 else t0)
      \<and> (j = i \<longrightarrow> t0 = t)" if "(j, t') \<in> set (lp_in_flight ?l')" for j t'
  proof -
    from that obtain t0 where t0: "(j, t0) \<in> set (lp_in_flight l)" "t' = (if j = i then f t0 else t0)"
      by (auto simp: update_task_def)
    moreover have "map_of (lp_in_flight l) j = Some t0" using t0(1) loop_invD(2) [OF inv] by simp
    ultimately show ?thesis using t by auto
  qed
  show "lp_pending ?l' = []" using loop_invD(1) [OF inv] by simp
  show "distinct (map fst (lp_in_flight ?l'))" unfolding ids by (rule loop_invD(2) [OF inv])
  show "distinct (map fst (lp_outstanding ?l'))" using loop_invD(3) [OF inv] by simp
  show "j < lp_next_task ?l'" if "(j, t') \<in> set (lp_in_flight ?l')" for j t'
    using mem [OF that] loop_invD(4) [OF inv] by (auto simp: update_task_def)
  show "\<exists>t'. map_of (lp_in_flight ?l') j = Some t' \<and> pn_message (pt_job t') = m"
    if "(j, m) \<in> set (lp_outstanding ?l')" for j m
    using that loop_invD(5) [OF inv, of j m] t f(1) by (cases "j = i") (auto simp: map_of_update_task)
  show "task_ok acked' t'" if "(j, t') \<in> set (lp_in_flight ?l')" for j t'
    using mem [OF that] loop_invD(6) [OF inv] f(2) task_ok_mono [OF _ acked] by (auto split: if_splits)
  show "task_gone t'" if "(j, t') \<in> set (lp_in_flight ?l')" "j \<notin> fst ` set (lp_outstanding ?l')" for j t'
    using mem [OF that(1)] that(2) loop_invD(7) [OF inv] f(3) by (auto split: if_splits)
  show "m \<in># acked'" if "m \<in># complete_refs ?l'" for m
    using that loop_invD(8) [OF inv, of m] mset_subset_eqD [OF acked] by simp
qed

lemma publish_task_ok:
  "pt_started t \<Longrightarrow> (ans = PublishOk \<Longrightarrow> pn_message (pt_job t) \<in># acked) \<Longrightarrow>
   task_ok acked (t\<lparr>pt_end := Some (Ended (publish_one (pt_job t) ans))\<rparr>)"
  by (cases ans) (auto simp: task_ok_def)

text \<open>Shutdown: the tasks without a permit are aborted; they leave the outstanding rows.\<close>

lemma drop_unstarted_inv:
  assumes inv: "loop_inv acked l"
  shows "loop_inv acked (drop_unstarted l)"
proof (rule loop_invI)
  let ?l' = "drop_unstarted l"
  let ?g = "\<lambda>(i, t). (i, if i \<in> fst ` set (lp_outstanding l) \<and> \<not> pt_started t then abort_task t else t)"
  have fl: "lp_in_flight ?l' = map ?g (lp_in_flight l)" by (simp add: drop_unstarted_def)
  have ids: "map fst (lp_in_flight ?l') = map fst (lp_in_flight l)" unfolding fl by auto
  have find: "map_of (lp_in_flight ?l') j = map_option (\<lambda>t. snd (?g (j, t))) (map_of (lp_in_flight l) j)" for j
    unfolding fl by (simp add: map_of_map_keyed)
  have mem: "\<exists>t0. (j, t0) \<in> set (lp_in_flight l) \<and> t' = snd (?g (j, t0))"
    if "(j, t') \<in> set (lp_in_flight ?l')" for j t'
    using that unfolding fl by auto
  have abort: "task_ok acked (abort_task t)" if "task_ok acked t" for t
    using that by (auto simp: abort_task_def task_ok_def split: option.splits)
  show "lp_pending ?l' = []" by (simp add: drop_unstarted_def)
  show "distinct (map fst (lp_in_flight ?l'))" unfolding ids by (rule loop_invD(2) [OF inv])
  show "distinct (map fst (lp_outstanding ?l'))"
    using loop_invD(3) [OF inv] by (simp add: drop_unstarted_def distinct_map_filter)
  show "j < lp_next_task ?l'" if "(j, t') \<in> set (lp_in_flight ?l')" for j t'
    using mem [OF that] loop_invD(4) [OF inv] by (auto simp: drop_unstarted_def)
  show "\<exists>t'. map_of (lp_in_flight ?l') j = Some t' \<and> pn_message (pt_job t') = m"
    if "(j, m) \<in> set (lp_outstanding ?l')" for j m
  proof -
    from that have jm: "(j, m) \<in> set (lp_outstanding l)" "task_started l j"
      by (auto simp: drop_unstarted_def)
    from loop_invD(5) [OF inv jm(1)] obtain t
      where t: "map_of (lp_in_flight l) j = Some t" "pn_message (pt_job t) = m" by blast
    with jm(2) show ?thesis unfolding find by (intro exI [of _ t]) (simp add: task_started_def)
  qed
  show "task_ok acked t'" if "(j, t') \<in> set (lp_in_flight ?l')" for j t'
    using mem [OF that] loop_invD(6) [OF inv] abort by auto
  show "m \<in># acked" if "m \<in># complete_refs ?l'" for m
    using that loop_invD(8) [OF inv, of m] by (simp add: drop_unstarted_def complete_refs_def)
  show "task_gone t'" if t': "(j, t') \<in> set (lp_in_flight ?l')" "j \<notin> fst ` set (lp_outstanding ?l')" for j t'
  proof -
    obtain t0 where t0: "(j, t0) \<in> set (lp_in_flight l)" "t' = snd (?g (j, t0))" using mem [OF t'(1)] by blast
    have m: "map_of (lp_in_flight l) j = Some t0" using t0(1) loop_invD(2) [OF inv] by simp
    show ?thesis
    proof (cases "j \<in> fst ` set (lp_outstanding l)")
      case False
      then show ?thesis using t0 loop_invD(7) [OF inv t0(1)] by simp
    next
      case True
      then have "\<not> pt_started t0" using t'(2) m by (force simp: drop_unstarted_def task_started_def)
      then show ?thesis using True t0 loop_invD(6) [OF inv t0(1)]
        by (cases "pt_end t0"; cases "the (pt_end t0)") (auto simp: abort_task_def task_gone_def task_ok_def)
    qed
  qed
qed

lemma drop_unstarted_tracked:
  "tracked l = tracked (drop_unstarted l) + mset (release_immediately l)"
proof -
  have "mset (map snd xs) = mset (map snd (filter (\<lambda>(i, _). P i) xs)) + mset (map snd (filter (\<lambda>(i, _). \<not> P i) xs))"
    for xs :: "(nat \<times> MessageRef) list" and P
    by (induction xs) auto
  from this [of "lp_outstanding l" "task_started l"] show ?thesis
    by (simp add: tracked_defs drop_unstarted_def release_immediately_def del: mset_map mset_filter)
qed

section \<open>The invariant of all reachable states\<close>

lemma record_results_exit [simp]:
  "exit_reason (fold (record_publish_result now p) rs l) = exit_reason l"
  by (induction rs arbitrary: l) simp_all

lemma join_tasks_exit [simp]: "exit_reason (join_tasks cf is now l) = exit_reason l"
  by (simp add: join_tasks_def record_publish_results_def)

lemma do_record_phase [simp]: "sy_phase (do_record cf is x) = sy_phase x"
  by (simp add: do_record_def Let_def)

lemma do_record_inv:
  assumes "sys_inv cf x" "distinct is" "\<forall>i \<in> set is. joinable (sy_loop x) i"
  shows "sys_inv cf (do_record cf is x)"
  using assms join_many [of "lg_acked (sy_log x)" "sy_loop x" "is" cf "sy_clock x"]
  by (auto simp: sys_inv_def do_record_def exit_ok_def conserved_def)

lemma do_join_inv:
  assumes "sys_inv cf x" "distinct is" "\<forall>i \<in> set is. joinable (sy_loop x) i"
  shows "sys_inv cf (do_join cf is x)"
proof -
  let ?x' = "do_record cf is x"
  have inv: "sys_inv cf ?x'" using assms by (rule do_record_inv)
  then have "lp_pending (sy_loop ?x') = []" by (simp add: sys_inv_def loop_inv_def)
  then have "do_join cf is x = ?x'" by (simp add: do_join_def Let_def)
  with inv show ?thesis by simp
qed

lemma spawn_ready_exit [simp]: "exit_reason (spawn_ready rs l) = exit_reason l"
  by (induction rs arbitrary: l) simp_all

lemma do_record_loop_exit [simp]: "exit_reason (sy_loop (do_record cf is x)) = exit_reason (sy_loop x)"
  by (simp add: do_record_def Let_def)

lemma retry_round_inv:
  assumes "sys_inv cf x" "retry_round cf c f x = (x', r)"
  shows "sys_inv cf x'" "permanent r = Some e \<Longrightarrow> so_kind (cf_ops cf) e = Permanent"
  using assms retry_round_effect [OF assms(2)] by (auto simp: sys_inv_def exit_ok_def)

lemma sys_inv_frame [simp]:
  "sys_inv cf (x\<lparr>sy_phase := ph\<rparr>) = sys_inv cf x" "sys_inv cf (x\<lparr>sy_store := st\<rparr>) = sys_inv cf x"
  "sys_inv cf (x\<lparr>sy_clock := t\<rparr>) = sys_inv cf x"
  by (simp_all add: sys_inv_def)

lemma sys_inv_exit:
  assumes "sys_inv cf x" "\<And>e. p = Some e \<Longrightarrow> so_kind (cf_ops cf) e = Permanent"
  shows "sys_inv cf (x\<lparr>sy_loop := (sy_loop x)\<lparr>exit_reason := p\<rparr>\<rparr>)"
  using assms by (simp add: sys_inv_def exit_ok_def conserved_def tracked_defs)

lemma do_stop_inv: "sys_inv cf x \<Longrightarrow> sys_inv cf (do_stop cf tm x)"
  by (auto simp: sys_inv_def do_stop_def loop_inv_def exit_ok_def conserved_def tracked_defs release_now_def)

lemma do_drain_end_inv:
  assumes "sys_inv cf x"
  shows "sys_inv cf (do_drain_end cf c f tm x)"
proof -
  obtain x' r where r: "retry_round cf c f x = (x', r)" by fastforce
  note e = retry_round_inv [OF assms r]
  have "sys_inv cf (x'\<lparr>sy_loop := note_permanent (permanent r) (sy_loop x')\<rparr>)"
    using e sys_inv_exit [of cf x' "permanent r"] by (auto simp: note_permanent_def)
  then show ?thesis by (simp add: do_drain_end_def r do_stop_inv)
qed

lemma do_drain_join_inv:
  assumes "sys_inv cf x" "distinct is" "\<forall>i \<in> set is. joinable (sy_loop x) i"
  shows "sys_inv cf (do_drain_join cf is c f x)"
proof -
  obtain x' r where r: "retry_round cf c f (do_record cf is x) = (x', r)" by fastforce
  note e = retry_round_inv [OF do_record_inv [OF assms] r]
  have "sys_inv cf (x'\<lparr>sy_loop := note_permanent (permanent r) (sy_loop x')\<rparr>)"
    using e sys_inv_exit [of cf x' "permanent r"] by (auto simp: note_permanent_def)
  then have "sys_inv cf (x'\<lparr>sy_loop := note_permanent (permanent r) (sy_loop x')\<rparr>\<lparr>sy_phase := DrainBroken\<rparr>)"
    unfolding sys_inv_frame .
  with e(1) show ?thesis by (simp add: do_drain_join_def r)
qed

lemma do_retry_inv:
  assumes "sys_inv cf x"
  shows "sys_inv cf (do_retry cf c f x)"
proof -
  obtain x' r where r: "retry_round cf c f x = (x', r)" by fastforce
  note e = retry_round_inv [OF assms r]
  then show ?thesis
    by (auto simp: do_retry_def r Let_def on_retry_result_def sys_inv_def exit_ok_def conserved_def
        tracked_defs split: option.splits)
qed

lemma do_retry_half_inv:
  assumes "sys_inv cf x"
  shows "sys_inv cf (do_retry_half cf c tm x)"
proof -
  obtain st1 l1 r1 where r: "retry_complete (cf_ops cf) (cf_worker cf) (lease (cf_settings cf)) (fst c) (snd c)
      (sy_store x) (sy_loop x) = (st1, l1, r1)" by (metis prod_cases3)
  note e = retry_complete_effect [OF r]
  have c1: "complete_refs l1 \<subseteq># complete_refs (sy_loop x)"
    using e(4) by (rule subset_mset.order_trans [rotated]) simp
  have "tracked (sy_loop x) = tracked l1
      + written_complete (cf_ops cf) (cf_worker cf) (fst c) (sy_store x) (sy_loop x)
      + (complete_refs (sy_loop x) - complete_refs l1
         - written_complete (cf_ops cf) (cf_worker cf) (fst c) (sy_store x) (sy_loop x))"
    using account_outcomes [OF e(4)] e(1, 2)
    by (simp add: tracked_def outstanding_refs_def same_tasks_def fail_refs_def add.assoc)
  with assms loop_inv_same_tasks [OF _ e(1) c1] e(3) show ?thesis
    by (auto simp: do_retry_half_def r sys_inv_def exit_ok_def conserved_def log_outcomes_def Let_def)
qed

lemma do_claim_inv:
  assumes "sys_inv cf x" "exit_reason (sy_loop x) = None"
  shows "sys_inv cf (do_claim cf tm x)"
proof -
  obtain st r where b: "bounded tm (so_acquire (cf_ops cf)
      (claim_request (cf_settings cf) (cf_worker cf) (sy_loop x))) (sy_store x) = (st, r)" by fastforce
  from assms have "loop_inv (lg_acked (sy_log x)) (sy_loop x)" by (simp add: sys_inv_def)
  note a = on_acquired_effect [OF this assms(2), of "cf_ops cf" "cf_settings cf" "sy_clock x" r]
  from assms a show ?thesis
    by (auto simp: do_claim_def b Let_def sys_inv_def exit_ok_def conserved_def split: sum.splits)
qed

lemma do_shutdown_inv: "sys_inv cf x \<Longrightarrow> sys_inv cf (do_shutdown cf tm x)"
  using drop_unstarted_inv [of "lg_acked (sy_log x)" "sy_loop x"] drop_unstarted_tracked [of "sy_loop x"]
  by (auto simp: sys_inv_def do_shutdown_def exit_ok_def conserved_def drop_unstarted_def)

text \<open>While the loop runs, no exit reason is set.\<close>

definition running_ok :: "('s, 'e) Sys \<Rightarrow> bool" where
  "running_ok x \<longleftrightarrow> (sy_phase x = Running \<longrightarrow> exit_reason (sy_loop x) = None)"

lemma phase_after_running [simp]: "phase_after l = Running \<longleftrightarrow> exit_reason l = None"
  by (simp add: phase_after_def)

lemma retry_round_phase: "retry_round cf c f x = (x', r) \<Longrightarrow> sy_phase x' = sy_phase x"
  by (auto simp: retry_round_def Let_def split: prod.splits)

lemma run_step_running_ok:
  assumes "run_step cf env x x'" "running_ok x"
  shows "running_ok x'"
  using assms
proof (induction rule: run_step.induct)
  case (rs_drain_join x dl "is" c f)
  obtain x1 r where r: "retry_round cf c f (do_record cf is x) = (x1, r)" by fastforce
  from rs_drain_join retry_round_phase [OF r] show ?case
    by (simp add: running_ok_def do_drain_join_def r)
next
  case (rs_retry x c f)
  show ?case
    by (auto simp: running_ok_def do_retry_def Let_def split: prod.splits)
next
  case (rs_retry_half x tm c)
  obtain st1 l1 r1 where r: "retry_complete (cf_ops cf) (cf_worker cf) (lease (cf_settings cf)) (fst c) (snd c)
      (sy_store x) (sy_loop x) = (st1, l1, r1)" by (metis prod_cases3)
  from rs_retry_half retry_complete_effect(3) [OF r] show ?case
    by (auto simp: running_ok_def do_retry_half_def r Let_def)
next
  case (rs_drain_end x dl c f tm)
  show ?case by (auto simp: running_ok_def do_drain_end_def do_stop_def split: prod.splits)
qed (auto simp: running_ok_def do_join_def do_renew_def do_claim_def do_shutdown_def do_stop_def Let_def
      split: prod.splits)

lemma run_step_inv:
  assumes "run_step cf env x x'" "sys_inv cf x" "running_ok x"
  shows "sys_inv cf x'"
  using assms
proof (induction rule: run_step.induct)
  case (rs_permit x i t)
  have "loop_inv (lg_acked (sy_log x)) (update_task i (\<lambda>t. t\<lparr>pt_started := True\<rparr>) (sy_loop x))"
    using rs_permit by (intro update_task_inv [where t = t]) (auto simp: sys_inv_def task_ok_def task_gone_def)
  with rs_permit show ?case by (simp add: sys_inv_def exit_ok_def conserved_def)
next
  case (rs_publish x i t ans)
  let ?acked = "lg_acked (sy_log x) + (if ans = PublishOk then {#pn_message (pt_job t)#} else {#})"
  have "loop_inv ?acked (update_task i (\<lambda>t. t\<lparr>pt_end := Some (Ended (publish_one (pt_job t) ans))\<rparr>) (sy_loop x))"
    using rs_publish publish_task_ok [of t ans ?acked]
    by (intro update_task_inv [where t = t and acked = "lg_acked (sy_log x)"])
      (auto simp: sys_inv_def task_gone_def simp del: publish_one.simps)
  with rs_publish show ?case by (simp add: sys_inv_def exit_ok_def conserved_def)
next
  case (rs_panic x i t)
  have "loop_inv (lg_acked (sy_log x)) (update_task i (\<lambda>t. t\<lparr>pt_end := Some Panicked\<rparr>) (sy_loop x))"
    using rs_panic by (intro update_task_inv [where t = t]) (auto simp: sys_inv_def task_ok_def task_gone_def)
  with rs_panic show ?case by (simp add: sys_inv_def exit_ok_def conserved_def)
next
  case (rs_renew x tm)
  then show ?case by (simp add: do_renew_def)
next
  case (rs_claim x tm)
  then show ?case by (simp add: do_claim_inv running_ok_def)
qed (simp_all add: do_join_inv do_retry_inv do_retry_half_inv do_shutdown_inv do_drain_join_inv
      do_drain_end_inv do_stop_inv)

lemma run_reachable_inv:
  assumes "run_reachable cf env st0 x"
  shows "sys_inv cf x \<and> running_ok x"
  using assms
proof (induction rule: run_reachable.induct)
  case (rr_init t)
  show ?case
    by (simp add: sys_inv_def running_ok_def sys_init_def loop_init_def loop_inv_def conserved_def
        exit_ok_def tracked_defs log_init_def)
next
  case (rr_step x x')
  then show ?case using run_step_inv run_step_running_ok by blast
qed

end
