(* ===== verification/Dead_Letters.thy ===== *)
theory Dead_Letters
  imports Store_Contract
begin

text \<open>
  Listing dead letters page by page, the contract of \<^verbatim>\<open>OutboxDeadLetters::list_dead\<close> in \<^verbatim>\<open>reliar-outbox/src/store.rs\<close>: a page is
  a bounded prefix of the matching rows in sequence order, with the last sequence number it covers as the
  cursor when it is full. Following the cursor then visits every matching row once.
\<close>

lemma filter_after_prefix:
  fixes k :: "'a \<Rightarrow> 'k::linorder"
  assumes "sorted_wrt (\<lambda>a b. k a < k b) xs" "0 < n" "n \<le> length xs"
  shows "filter (\<lambda>x. k (last (take n xs)) < k x) xs = drop n xs"
proof -
  let ?l = "last (take n xs)"
  have xs: "xs = take n xs @ drop n xs" by simp
  have ne: "take n xs \<noteq> []" using assms(2,3) by auto
  have srt: "sorted_wrt (\<lambda>a b. k a < k b) (take n xs @ drop n xs)" using assms(1) by simp
  have "\<forall>x \<in> set (drop n xs). k ?l < k x" using srt ne by (simp only: sorted_wrt_append) simp
  moreover have "\<forall>x \<in> set (take n xs). \<not> k ?l < k x"
  proof
    fix x assume x: "x \<in> set (take n xs)"
    have "take n xs = butlast (take n xs) @ [?l]" using ne by simp
    then have "sorted_wrt (\<lambda>a b. k a < k b) (butlast (take n xs) @ [?l])"
      using srt by (simp only: sorted_wrt_append)
    with x \<open>take n xs = butlast (take n xs) @ [?l]\<close> show "\<not> k ?l < k x"
      by (metis Un_iff in_set_conv_decomp list.set_intros(1) not_less_iff_gr_or_eq set_ConsD
          set_append sorted_wrt_append empty_iff list.set(1))
  qed
  ultimately have "filter (\<lambda>x. k ?l < k x) (take n xs) = []"
    "filter (\<lambda>x. k ?l < k x) (drop n xs) = drop n xs"
    by (simp_all add: filter_empty_conv filter_id_conv)
  then show ?thesis using filter_append [of "\<lambda>x. k ?l < k x" "take n xs" "drop n xs"] by simp
qed

text \<open>A caller that follows the cursor, at most \<open>fuel\<close> pages.\<close>

fun follow_cursor :: "(DeadQuery \<Rightarrow> 'o list \<times> int option) \<Rightarrow> nat \<Rightarrow> DeadQuery \<Rightarrow> 'o list" where
  "follow_cursor page 0 q = []"
| "follow_cursor page (Suc n) q =
     (let (xs, cursor) = page q
      in xs @ (case cursor of None \<Rightarrow> [] | Some c \<Rightarrow> follow_cursor page n (q\<lparr>after_sequence := Some c\<rparr>)))"

text \<open>\<open>matching\<close> are the rows a query selects, \<open>cap\<close> its page size; \<open>out\<close> is what a page shows of them.\<close>

locale dead_letters =
  fixes matching :: "DeadQuery \<Rightarrow> 's \<Rightarrow> 'r list"
    and seq :: "'r \<Rightarrow> int"
    and cap :: "DeadQuery \<Rightarrow> nat"
    and out :: "'r list \<Rightarrow> 'o list"
    and page :: "DeadQuery \<Rightarrow> 's \<Rightarrow> 'o list \<times> int option"
    and inv :: "'s \<Rightarrow> bool"
  assumes out_append: "out (xs @ ys) = out xs @ out ys"
    and matching_sorted: "inv s \<Longrightarrow> sorted_wrt (\<lambda>a b. seq a < seq b) (matching q s)"
    and matching_after: "inv s \<Longrightarrow> r \<in> set (matching q s) \<Longrightarrow>
      matching (q\<lparr>after_sequence := Some (seq r)\<rparr>) s = filter (\<lambda>x. seq r < seq x) (matching q s)"
    and cap_after: "cap (q\<lparr>after_sequence := a\<rparr>) = cap q"
    and page_eq: "inv s \<Longrightarrow> 0 < cap q \<Longrightarrow> page q s = (let xs = take (cap q) (matching q s)
      in (out xs, if length xs = cap q then Some (seq (last xs)) else None))"
begin

lemma next_page:
  assumes "inv s" "0 < cap q" "cap q \<le> length (matching q s)"
  shows "matching (q\<lparr>after_sequence := Some (seq (last (take (cap q) (matching q s))))\<rparr>) s = drop (cap q) (matching q s)"
proof -
  have "take (cap q) (matching q s) \<noteq> []" using assms(2,3) by auto
  then have "last (take (cap q) (matching q s)) \<in> set (matching q s)" by (meson last_in_set in_set_takeD)
  from matching_after [OF assms(1) this] show ?thesis
    by (simp add: filter_after_prefix [OF matching_sorted [OF assms(1)] assms(2,3)])
qed

lemma pages_complete:
  assumes "inv s" "length (matching q s) < fuel" "0 < cap q"
  shows "follow_cursor (\<lambda>q. page q s) fuel q = out (matching q s)"
  using assms(2,3)
proof (induction fuel arbitrary: q)
  case (Suc n)
  let ?xs = "take (cap q) (matching q s)"
  show ?case
  proof (cases "cap q \<le> length (matching q s)")
    case True
    let ?q = "q\<lparr>after_sequence := Some (seq (last ?xs))\<rparr>"
    note rest = next_page [OF assms(1) Suc.prems(2) True]
    have "follow_cursor (\<lambda>q. page q s) n ?q = out (drop (cap q) (matching q s))"
      using Suc.IH [of ?q] Suc.prems True by (simp add: rest cap_after)
    then show ?thesis
      using True Suc.prems(2) by (simp add: page_eq [OF assms(1)] Let_def flip: out_append)
  next
    case False
    then show ?thesis using Suc.prems(2) by (simp add: page_eq [OF assms(1)] Let_def min_def)
  qed
qed simp

end

end
