(* ===== verification/In_Memory_Behaviour.thy ===== *)
theory In_Memory_Behaviour
  imports In_Memory_Props Dead_Letters
begin

text \<open>
  What the operations of the in-memory store do, branch by branch: claiming in due order, lease
  exclusivity, the by-reference updates, bounded purging, keyset pagination of the dead letters,
  the statistics, and the life cycle of a row.
\<close>

section \<open>Claiming\<close>

lemma claim_key_leased [simp]: "claim_key (row_leased w u r) = claim_key r"
  by (simp add: claim_key_def row_leased_def)

lemma spec_claimed_fair:
  assumes "c \<in> set (spec_claimed t n rs)" "r \<in> set rs" "claimable r t" "r \<notin> set (spec_claimed t n rs)"
  shows "claim_key c \<le> claim_key r"
proof -
  let ?xs = "sort_key claim_key (filter (\<lambda>r. claimable r t) rs)"
  have "r \<in> set ?xs" using assms(2,3) by simp
  then have "r \<in> set (take n ?xs) \<union> set (drop n ?xs)" by (simp flip: set_append)
  with assms(4) have "r \<in> set (drop n ?xs)" by (simp add: spec_claimed_def)
  with assms(1) show ?thesis
    unfolding spec_claimed_def by (intro sorted_take_drop [of claim_key ?xs _ n]) simp_all
qed

text \<open>C3. A successful claim takes as many claimable rows as there are, up to the batch size, and
  always the ones due first (by \<^verbatim>\<open>available_at\<close>, then by sequence): the records come back in that
  order, each leased to the caller until now plus the lease, and no claimable row left behind was
  due before a claimed one. Every other row is unchanged.\<close>

theorem try_acquire_correct:
  assumes "im_inv s" "try_acquire rq s = (s', Ok b)"
  shows "length (ab_records b)
      = min (unat (ar_batch_size rq)) (length (filter (\<lambda>r. is_claimable r (im_now s)) (im_rows s)))
    \<and> sorted (map (\<lambda>r. (available_at r, sequence r)) (ab_records b))
    \<and> (\<forall>r \<in> set (ab_records b). locked_by r = Some (ar_worker rq)
          \<and> locked_until r = Some (im_now s + int (ar_lease rq)))
    \<and> (\<forall>c \<in> set (ab_records b). \<forall>r \<in> set (im_rows s).
          is_claimable r (im_now s) \<and> sequence r \<notin> sequence ` set (ab_records b) \<longrightarrow>
          (available_at c, sequence c) \<le> (available_at r, sequence r))
    \<and> im_rows s' = map (\<lambda>r. if sequence r \<in> sequence ` set (ab_records b)
          then r\<lparr>locked_by := Some (ar_worker rq), locked_until := Some (im_now s + int (ar_lease rq))\<rparr>
          else r) (im_rows s)"
proof -
  let ?n = "unat (ar_batch_size rq)" and ?u = "im_now s + int (ar_lease rq)"
  let ?cl = "spec_claimed (im_now s) ?n (im_rows s)"
  note ok = try_acquire_Ok [OF assms]
  have seq: "sequence r \<in> sequence ` set (ab_records b) \<longleftrightarrow> r \<in> set ?cl" if "r \<in> set (im_rows s)" for r
  proof -
    have "sequence ` set (ab_records b) = sequence ` set ?cl" by (auto simp: ok(2) image_iff)
    moreover have "inj_on sequence (set (im_rows s))"
      using assms(1) by (simp add: im_inv_def distinct_map)
    moreover have "set ?cl \<subseteq> set (im_rows s)" using set_spec_claimed by blast
    ultimately show ?thesis using that by (metis inj_on_image_mem_iff)
  qed
  have "sorted (map claim_key ?cl)"
    unfolding spec_claimed_def take_map [symmetric] by (intro sorted_wrt_take) simp
  then have sorted: "sorted (map claim_key (ab_records b))" by (simp add: ok(2) comp_def)
  have fair: "claim_key c \<le> claim_key r"
    if "c \<in> set (ab_records b)" "r \<in> set (im_rows s)" "claimable r (im_now s)"
      "sequence r \<notin> sequence ` set (ab_records b)" for c r
    using that seq spec_claimed_fair [of _ "im_now s" ?n "im_rows s" r] by (auto simp: ok(2))
  have rows: "im_rows s' = map (\<lambda>r. if sequence r \<in> sequence ` set (ab_records b)
          then row_leased (ar_worker rq) ?u r else r) (im_rows s)"
    unfolding ok(1) spec_acquire_def using seq by simp
  show ?thesis
    using sorted fair rows
    by (auto simp: ok(2) spec_claimed_def row_leased_def claim_key_def [abs_def])
qed

text \<open>An instance: two due rows, the later sequence number due first, a batch of one.\<close>

definition two_rows :: Inner where
  "two_rows = fst (insert_row (example_message 2) (Some (-5)) None
     (fst (insert_row (example_message 1) None None inner_default)))"

definition one_claim :: AcquireRequest where
  "one_claim = \<lparr>ar_worker = WorkerId ''w'', ar_batch_size = 1, ar_lease = from_secs 30,
     ar_ordering = Unordered\<rparr>"

lemma two_rows_inv: "im_inv two_rows"
  unfolding two_rows_def
  by (intro im_inv_insert_row) (simp add: im_inv_def inner_default_def)

lemma pair_is_ok: "is_ok (snd p) \<Longrightarrow> \<exists>s x. p = (s, Ok x)"
  by (cases p) (auto simp: is_ok_iff)

lemma acquire_two_rows: "is_ok (snd (try_acquire one_claim two_rows))"
  by code_simp

theorem try_acquire_correct_witness:
  "\<exists>s' b. try_acquire one_claim two_rows = (s', Ok b) \<and> length (ab_records b) = 1
     \<and> map sequence (ab_records b) = [2] \<and> map locked_by (im_rows s') = [None, Some (WorkerId ''w'')]"
proof -
  obtain s' b where run: "try_acquire one_claim two_rows = (s', Ok b)"
    using pair_is_ok [of "try_acquire one_claim two_rows"] by (metis acquire_two_rows)
  have "(case try_acquire one_claim two_rows of
        (s', Inr b) \<Rightarrow> map sequence (ab_records b) = [2]
          \<and> map locked_by (im_rows s') = [None, Some (WorkerId ''w'')]
      | _ \<Rightarrow> False)"
    "length (filter (\<lambda>r. is_claimable r (im_now two_rows)) (im_rows two_rows)) = 2"
    by code_simp+
  then show ?thesis
    using try_acquire_correct [OF two_rows_inv run] run
    by (intro exI [of _ s'] exI [of _ b]) (simp add: one_claim_def)
qed


text \<open>An instance: a second worker asks for ten rows five nanoseconds later and gets the other
  row only.\<close>

definition ten_claim :: AcquireRequest where
  "ten_claim = \<lparr>ar_worker = WorkerId ''v'', ar_batch_size = 10, ar_lease = from_secs 30,
     ar_ordering = Unordered\<rparr>"


section \<open>Outcome writes\<close>

text \<open>C4. The loops that look up one owned row per item are, in a store without duplicate
  references, exactly the set-wise updates of the store contract: \<^verbatim>\<open>complete\<close> marks published,
  \<^verbatim>\<open>fail\<close> applies each row's outcome, \<^verbatim>\<open>release\<close> clears the lease and \<^verbatim>\<open>extend_lease\<close> moves its end,
  on the named rows held by the caller and on no other.\<close>

theorem owned_updates_refine:
  assumes "im_inv_refs s"
  shows "(try_complete w cs s = (s', Ok n) \<longrightarrow> im_rows s' = spec_complete (im_now s) w cs (im_rows s))
    \<and> (try_fail w fs s = (s', Ok n) \<longrightarrow> im_rows s' = spec_fail (im_now s) w fs (im_rows s))
    \<and> (try_release w ms s = (s', Ok n) \<longrightarrow> im_rows s' = spec_release w ms (im_rows s))
    \<and> (try_extend_lease w ms d s = (s', Ok n) \<longrightarrow>
         im_rows s' = spec_extend (im_now s + int d) w ms (im_rows s))"
proof -
  have "distinct (map message_ref (im_rows s))" using assms by (simp add: im_inv_refs_def)
  then show ?thesis
    by (auto intro: try_complete_Ok try_fail_Ok try_release_Ok try_extend_Ok)
qed

text \<open>An instance: the worker completes the row it claimed and names one it did not claim.\<close>

theorem owned_updates_refine_witness:
  "\<exists>s1 s' n. s1 = fst (try_acquire one_claim two_rows)
     \<and> try_complete (WorkerId ''w'') [\<lparr>cm_message = \<lparr>mr_id = 1, mr_created_at = 0\<rparr>\<rparr>,
           \<lparr>cm_message = \<lparr>mr_id = 2, mr_created_at = 0\<rparr>\<rparr>] s1 = (s', Ok n)
     \<and> im_rows s' = spec_complete (im_now s1) (WorkerId ''w'')
         [\<lparr>cm_message = \<lparr>mr_id = 1, mr_created_at = 0\<rparr>\<rparr>,
          \<lparr>cm_message = \<lparr>mr_id = 2, mr_created_at = 0\<rparr>\<rparr>] (im_rows s1)
     \<and> n = 1"
proof -
  let ?s1 = "fst (try_acquire one_claim two_rows)"
  let ?items = "[\<lparr>cm_message = \<lparr>mr_id = 1, mr_created_at = 0\<rparr>\<rparr>,
          \<lparr>cm_message = \<lparr>mr_id = 2, mr_created_at = 0\<rparr>\<rparr>]"
  have "snd (try_complete (WorkerId ''w'') ?items ?s1) = Ok 1" by code_simp
  then obtain s' where run: "try_complete (WorkerId ''w'') ?items ?s1 = (s', Ok 1)"
    by (metis prod.collapse)
  have "distinct (map message_ref (im_rows two_rows))" by code_simp
  with two_rows_inv have "im_inv_refs ?s1"
    using im.acquire_inv [of two_rows one_claim] by (simp add: im_inv_refs_def)
  note eq = owned_updates_refine [OF this, THEN conjunct1, THEN mp, OF run]
  show ?thesis by (intro exI conjI, rule refl, rule run, rule eq, rule refl)
qed

section \<open>Purging\<close>

lemma sweep_expired_keeps:
  "r \<in> set rs \<Longrightarrow> \<not> sweepable t r \<Longrightarrow> r \<in> set (fst (sweep_expired k t rs))"
  by (induction rs arbitrary: k) (auto simp: sweep_expired_eq simp del: sweep_expired.simps(2))

lemma sweep_expired_length: "length (fst (sweep_expired k t rs)) = length rs"
  using sweep_expired_map [of "\<lambda>_. ()" t k rs] by (metis length_map)

definition retain_opt ::
    "nat \<Rightarrow> ('a \<Rightarrow> instant option) \<Rightarrow> instant \<Rightarrow> duration option \<Rightarrow> 'a list \<Rightarrow> 'a list \<times> nat" where
  "retain_opt k f t d rs =
     (case d of None \<Rightarrow> (rs, 0) | Some x \<Rightarrow> retain_upto k (\<lambda>r. older_than (f r) (t - int x)) rs)"

lemma purge_rows_eq:
  "purge_rows rq t rs =
     (let k = unat (pq_batch_size rq); a = sweep_expired k t rs;
          b = retain_opt k published_at t (published_retention rq) (fst a);
          c = retain_opt k dead_at t (dead_retention rq) (fst b)
      in (fst c, \<lparr>published_deleted = snd b, dead_deleted = snd c, expired_to_dead = snd a\<rparr>))"
  by (simp add: purge_rows_def retain_opt_def Let_def split_def)

text \<open>What a bounded pass may delete: rows whose mark is older than a configured retention.\<close>

definition deletable :: "('a \<Rightarrow> instant option) \<Rightarrow> instant \<Rightarrow> duration option \<Rightarrow> 'a \<Rightarrow> bool" where
  "deletable f t d r \<longleftrightarrow> (\<exists>x a. d = Some x \<and> f r = Some a \<and> a < t - int x)"

lemma retain_opt_props:
  "snd (retain_opt k f t d rs) \<le> k"
  "length (fst (retain_opt k f t d rs)) + snd (retain_opt k f t d rs) = length rs"
  "r \<in> set rs \<Longrightarrow> \<not> deletable f t d r \<Longrightarrow> r \<in> set (fst (retain_opt k f t d rs))"
  "set (fst (retain_opt k f t d rs)) \<subseteq> set rs"
  "snd (retain_opt k f t d rs) < k \<Longrightarrow> r \<in> set (fst (retain_opt k f t d rs)) \<Longrightarrow> \<not> deletable f t d r"
  using retain_upto_bound retain_upto_length retain_upto_subset
  by (auto simp: retain_opt_def deletable_def older_than_def retain_upto_complete
      intro!: retain_upto_keeps split: option.splits dest!: retain_upto_subset [THEN subsetD])

text \<open>C30. One purge pass is bounded and deletes nothing it should not: each of its three counts is
  at most the batch size, every row it removed is counted, a row that is neither swept nor past a
  configured retention survives unchanged (so a pending, unexpired or leased row always does),
  and when the report is complete nothing is left to sweep or delete at that instant.\<close>

theorem try_purge_correct:
  assumes "try_purge rq s = (s', Ok rep)"
  shows "published_deleted rep \<le> unat (pq_batch_size rq) \<and> dead_deleted rep \<le> unat (pq_batch_size rq)
    \<and> expired_to_dead rep \<le> unat (pq_batch_size rq)
    \<and> length (im_rows s') + published_deleted rep + dead_deleted rep = length (im_rows s)
    \<and> (\<forall>r \<in> set (im_rows s). \<not> sweepable (im_now s) r
          \<and> \<not> deletable published_at (im_now s) (published_retention rq) r
          \<and> \<not> deletable dead_at (im_now s) (dead_retention rq) r \<longrightarrow> r \<in> set (im_rows s'))
    \<and> (is_complete (pq_batch_size rq) rep \<longrightarrow> (\<forall>r \<in> set (im_rows s'). \<not> sweepable (im_now s) r
          \<and> \<not> deletable published_at (im_now s) (published_retention rq) r
          \<and> \<not> deletable dead_at (im_now s) (dead_retention rq) r))"
proof -
  let ?k = "unat (pq_batch_size rq)" and ?t = "im_now s"
  define a where "a = sweep_expired ?k ?t (im_rows s)"
  define b where "b = retain_opt ?k published_at ?t (published_retention rq) (fst a)"
  define c where "c = retain_opt ?k dead_at ?t (dead_retention rq) (fst b)"
  have s': "im_rows s' = fst (purge_rows rq (im_now s) (im_rows s))"
    using assms unfolding try_purge_eq by (rule guarded_Ok) simp
  have rep: "rep = snd (purge_rows rq (im_now s) (im_rows s))"
    using assms unfolding try_purge_eq by (rule guarded_Ok) simp
  have eq: "im_rows s' = fst c"
      "rep = \<lparr>published_deleted = snd b, dead_deleted = snd c, expired_to_dead = snd a\<rparr>"
    by (simp_all add: s' rep purge_rows_eq Let_def a_def b_def c_def)
  note pa = sweep_expired_bound [of ?k ?t "im_rows s", folded a_def]
    sweep_expired_length [of ?k ?t "im_rows s", folded a_def]
    sweep_expired_keeps [of _ "im_rows s" ?t ?k, folded a_def]
    sweep_expired_complete [of ?k ?t "im_rows s", folded a_def]
  note pb = retain_opt_props [where k = ?k and f = published_at and t = ?t
      and d = "published_retention rq" and rs = "fst a", folded b_def]
  note pc = retain_opt_props [where k = ?k and f = dead_at and t = ?t
      and d = "dead_retention rq" and rs = "fst b", folded c_def]
  have "\<forall>r \<in> set (im_rows s). \<not> sweepable ?t r \<and> \<not> deletable published_at ?t (published_retention rq) r
          \<and> \<not> deletable dead_at ?t (dead_retention rq) r \<longrightarrow> r \<in> set (fst c)"
    using pa(3) pb(3) pc(3) by blast
  moreover have "\<not> sweepable ?t r \<and> \<not> deletable published_at ?t (published_retention rq) r
          \<and> \<not> deletable dead_at ?t (dead_retention rq) r"
    if "snd a < ?k" "snd b < ?k" "snd c < ?k" "r \<in> set (fst c)" for r
    using that pa(4) pb(4,5) pc(4,5) by blast
  ultimately show ?thesis
    using pa(1,2) pb(1,2) pc(1,2) by (simp add: eq is_complete_def)
qed

text \<open>An instance: eight days on, the published row of \<open>example_store\<close> is deleted and the pending
  one kept.\<close>

theorem try_purge_correct_witness:
  "\<exists>s' rep. try_purge purge_request_default (advance (from_secs 691200) example_store) = (s', Ok rep)
     \<and> published_deleted rep = 1 \<and> length (im_rows s') = 1
     \<and> (\<forall>r \<in> set (im_rows example_store). published_at r = None \<longrightarrow> r \<in> set (im_rows s'))"
proof -
  let ?s = "advance (from_secs 691200) example_store"
  have "(case snd (try_purge purge_request_default ?s) of
      Inr rep \<Rightarrow> published_deleted rep = 1 \<and> dead_deleted rep = 0 | Inl _ \<Rightarrow> False)"
    by code_simp
  then obtain s' rep where run: "try_purge purge_request_default ?s = (s', Ok rep)"
    and rep: "published_deleted rep = 1" "dead_deleted rep = 0"
    by (cases "try_purge purge_request_default ?s") (auto split: sum.splits)
  have rows: "im_rows ?s = im_rows example_store" by (simp add: advance_def)
  have "length (im_rows example_store) = 2" by code_simp
  moreover have "list_all (\<lambda>r. dead_at r = None \<and> expires_at (delivery (metadata (envelope r))) = None)
      (im_rows example_store)" by code_simp
  ultimately show ?thesis
    using try_purge_correct [OF run] run rep
    by (intro exI [of _ s'] exI [of _ rep])
      (auto simp: rows sweepable_def deletable_def list_all_iff)
qed

section \<open>Paging through the dead letters\<close>

definition dead_all :: "DeadQuery \<Rightarrow> Inner \<Rightarrow> OutboxRecord list" where
  "dead_all q s = sort_key sequence (filter (dead_matches q) (im_rows s))"

lemma sorted_dead_all:
  assumes "im_inv s"
  shows "sorted_wrt (\<lambda>a b. sequence a < sequence b) (dead_all q s)"
proof -
  have "distinct (map sequence (dead_all q s))"
    using assms by (auto simp: dead_all_def im_inv_def distinct_map inj_on_def)
  moreover have "sorted (map sequence (dead_all q s))" by (simp add: dead_all_def)
  ultimately have "sorted_wrt (<) (map sequence (dead_all q s))" by (simp add: strict_sorted_iff)
  then show ?thesis by (simp add: sorted_wrt_map)
qed

lemma list_dead_page:
  "dl_records (list_dead q s) = take (unat (limit q)) (dead_all q s)"
  "next_after_sequence (list_dead q s) =
     (if 0 < unat (limit q) \<and> unat (limit q) \<le> length (dead_all q s)
      then Some (sequence (last (take (unat (limit q)) (dead_all q s)))) else None)"
proof -
  have full: "length (take n X) = n \<and> take n X \<noteq> [] \<longleftrightarrow> 0 < n \<and> n \<le> length X"
    for n and X :: "OutboxRecord list"
    by (auto simp: min_def split: if_splits)
  show "dl_records (list_dead q s) = take (unat (limit q)) (dead_all q s)"
    by (simp add: list_dead_def dead_all_def Let_def)
  show "next_after_sequence (list_dead q s) =
     (if 0 < unat (limit q) \<and> unat (limit q) \<le> length (dead_all q s)
      then Some (sequence (last (take (unat (limit q)) (dead_all q s)))) else None)"
    unfolding list_dead_def dead_all_def [symmetric] Let_def full by simp
qed

lemma dead_all_after:
  assumes "r \<in> set (dead_all q s)"
  shows "dead_all (q\<lparr>after_sequence := Some (sequence r)\<rparr>) s = filter (\<lambda>x. sequence r < sequence x) (dead_all q s)"
proof -
  have after: "case after_sequence q of None \<Rightarrow> True | Some a \<Rightarrow> a < sequence r"
    using assms by (simp add: dead_all_def dead_matches_def split: option.splits)
  have "filter (dead_matches (q\<lparr>after_sequence := Some (sequence r)\<rparr>)) (im_rows s)
      = filter (\<lambda>x. sequence r < sequence x) (filter (dead_matches q) (im_rows s))"
    using after by (auto simp: dead_matches_def intro!: filter_cong split: option.splits)
  then show ?thesis by (simp add: dead_all_def filter_sort)
qed

interpretation im_dead: dead_letters dead_all sequence "\<lambda>q. unat (limit q)" "\<lambda>xs. xs"
    "\<lambda>q s. (dl_records (list_dead q s), next_after_sequence (list_dead q s))" im_inv
  by unfold_locales (auto simp: sorted_dead_all dead_all_after list_dead_page Let_def min_def)

text \<open>C31. Following the keyset cursor from page to page visits every matching dead row exactly once,
  in sequence order, whatever the page size above zero: the pages together are the sorted list of
  matching rows, and the traversal ends.\<close>

theorem dead_pages_complete:
  assumes "im_inv s" "0 < limit q" "length (im_rows s) < fuel"
  shows "follow_cursor (\<lambda>q. (dl_records (list_dead q s), next_after_sequence (list_dead q s))) fuel q
    = sort_key sequence (filter (dead_matches q) (im_rows s))"
proof -
  have "length (dead_all q s) < fuel" using assms(3) le_less_trans [OF length_filter_le] by (simp add: dead_all_def)
  moreover have "0 < unat (limit q)" using assms(2) by (simp add: word_less_nat_alt)
  ultimately show ?thesis using im_dead.pages_complete [OF assms(1)] by (simp add: dead_all_def)
qed

text \<open>An instance: three dead rows, pages of one.\<close>

definition three_dead :: Inner where
  "three_dead =
     (let ins = \<lambda>i s. fst (insert_row (example_message i) None None s);
          s3 = ins 3 (ins 2 (ins 1 inner_default));
          s4 = fst (try_acquire ten_claim s3)
      in fst (try_fail (WorkerId ''v'')
           (map (\<lambda>i. failed_message_new \<lparr>mr_id = i, mr_created_at = 0\<rparr> ''rejected''
              (Dead PermanentError)) [1, 2, 3]) s4))"

theorem dead_pages_complete_witness:
  "map sequence (follow_cursor (\<lambda>q. (dl_records (list_dead q three_dead), next_after_sequence (list_dead q three_dead))) 4
     (dead_query_default\<lparr>limit := 1\<rparr>)) = [1, 2, 3]"
proof -
  have inv: "im_inv three_dead"
    unfolding three_dead_def Let_def
    by (intro im_inv_fail im_inv_acquire im_inv_insert_row) (simp add: im_inv_def inner_default_def)
  have "length (im_rows three_dead) = 3"
    "map sequence (sort_key sequence
       (filter (dead_matches (dead_query_default\<lparr>limit := 1\<rparr>)) (im_rows three_dead))) = [1, 2, 3]"
    by code_simp+
  then show ?thesis
    using dead_pages_complete [OF inv, of "dead_query_default\<lparr>limit := 1\<rparr>" 4] by simp
qed

section \<open>Statistics\<close>

definition pending_expired :: "instant \<Rightarrow> OutboxRecord \<Rightarrow> bool" where
  "pending_expired t r \<longleftrightarrow> dead_at r = None \<and> published_at r = None
     \<and> (\<exists>x. expires_at (delivery (metadata (envelope r))) = Some x \<and> x \<le> t)"

definition min_opt :: "instant option \<Rightarrow> instant list \<Rightarrow> instant option" where
  "min_opt m ts = (if m = None \<and> ts = [] then None else Some (Min (set_option m \<union> set ts)))"

lemma min_opt_Cons:
  "min_opt (Some (case m of Some c \<Rightarrow> if c \<le> t then c else t | None \<Rightarrow> t)) ts = min_opt m (t # ts)"
proof -
  have eq: "Min (insert (min c t) (set ts)) = Min (insert c (insert t (set ts)))" for c
    by (cases ts) (simp_all add: min.assoc)
  show ?thesis
    using eq by (cases m) (auto simp: min_opt_def min_def [symmetric] insert_commute [of t])
qed

lemma stats_fold:
  "fold (stats_row t) rs st = st\<lparr>
     pending := pending st + length (filter (\<lambda>r. claimable r t) rs),
     dead := dead st + length (filter (\<lambda>r. dead_at r \<noteq> None) rs),
     expired_pending := expired_pending st + length (filter (pending_expired t) rs),
     oldest_pending_available_at := min_opt (oldest_pending_available_at st)
       (map available_at (filter (\<lambda>r. claimable r t) rs))\<rparr>"
proof (induction rs arbitrary: st)
  case Nil
  show ?case by (cases st) (auto simp: min_opt_def)
next
  case (Cons r rs)
  consider (dead) "dead_at r \<noteq> None" | (pub) "dead_at r = None" "published_at r \<noteq> None"
    | (exp) "pending_expired t r" | (clm) "claimable r t" "\<not> pending_expired t r"
    | (other) "dead_at r = None" "published_at r = None" "\<not> claimable r t" "\<not> pending_expired t r"
    by blast
  then show ?case
  proof cases
    case dead
    then have "\<not> claimable r t" "\<not> pending_expired t r" "stats_row t r st = st\<lparr>dead := dead st + 1\<rparr>"
      by (simp_all add: claimable_def pending_expired_def)
    with dead show ?thesis by (simp add: Cons.IH del: stats_row.simps)
  next
    case pub
    then have "\<not> claimable r t" "\<not> pending_expired t r" "stats_row t r st = st"
      by (simp_all add: claimable_def pending_expired_def)
    with pub show ?thesis by (simp add: Cons.IH del: stats_row.simps)
  next
    case exp
    then have "\<not> claimable r t" "dead_at r = None"
      "stats_row t r st = st\<lparr>expired_pending := expired_pending st + 1\<rparr>"
      by (auto simp: claimable_def pending_expired_def)
    with exp show ?thesis by (simp add: Cons.IH del: stats_row.simps)
  next
    case clm
    then have "dead_at r = None" "published_at r = None"
      "(case expires_at (delivery (metadata (envelope r))) of None \<Rightarrow> False | Some x \<Rightarrow> x \<le> t) = False"
      by (auto simp: claimable_def split: option.splits)
    with clm have "stats_row t r st = st\<lparr>pending := pending st + 1,
             oldest_pending_available_at := Some
               (case oldest_pending_available_at st of
                  Some current \<Rightarrow> if current \<le> available_at r then current else available_at r
                | None \<Rightarrow> available_at r)\<rparr>"
      by simp
    with clm \<open>dead_at r = None\<close> show ?thesis
      by (simp add: Cons.IH min_opt_Cons del: stats_row.simps)
  next
    case other
    then have "(case expires_at (delivery (metadata (envelope r))) of None \<Rightarrow> False | Some x \<Rightarrow> x \<le> t) = False"
      by (auto simp: pending_expired_def split: option.splits)
    with other have "stats_row t r st = st" by simp
    with other show ?thesis by (simp add: Cons.IH del: stats_row.simps)
  qed
qed

text \<open>C40. The statistics are consistent with claiming: \<^verbatim>\<open>pending\<close> counts exactly the rows a claim at
  this instant could take, \<^verbatim>\<open>dead\<close> the dead rows, \<^verbatim>\<open>expired_pending\<close> the expired rows not yet swept,
  and the lag is the time since the earliest due claimable row, never negative, and absent when
  nothing is claimable.\<close>

theorem try_stats_correct:
  assumes "try_stats s = (s', Ok st)"
  shows "pending st = length (filter (\<lambda>r. is_claimable r (im_now s)) (im_rows s))
    \<and> dead st = length (filter (\<lambda>r. dead_at r \<noteq> None) (im_rows s))
    \<and> expired_pending st = length (filter (pending_expired (im_now s)) (im_rows s))
    \<and> (lag st = None \<longleftrightarrow> pending st = 0)
    \<and> (\<forall>r \<in> set (im_rows s). is_claimable r (im_now s) \<longrightarrow>
         (\<exists>l. lag st = Some l \<and> im_now s - available_at r \<le> int l))
    \<and> (\<forall>l. lag st = Some l \<longrightarrow>
         (\<exists>r \<in> set (im_rows s). is_claimable r (im_now s) \<and> int l = im_now s - available_at r))"
proof -
  let ?c = "filter (\<lambda>r. claimable r (im_now s)) (im_rows s)"
  have st: "st = fold (stats_row (im_now s)) (im_rows s)
        \<lparr>pending = 0, dead = 0, expired_pending = 0, oldest_pending_available_at = None,
         as_of = im_now s\<rparr>"
    using assms unfolding try_stats_def by (rule guarded_Ok) simp
  let ?m = "Min (set (map available_at ?c))"
  have min: "?m \<in> available_at ` set ?c" "r \<in> set ?c \<Longrightarrow> ?m \<le> available_at r" if "?c \<noteq> []" for r
    using that Min_in [of "set (map available_at ?c)"] by (simp_all del: set_filter)
  have lag: "lag st = (if ?c = [] then None else Some (nat (im_now s - ?m)))" if "?c \<noteq> [] \<Longrightarrow> ?m \<le> im_now s"
    using that by (simp add: st stats_fold lag_def min_opt_def)
  have due: "?m \<le> im_now s" if "?c \<noteq> []"
    using min(1) [OF that] by (auto simp: claimable_def)
  have counts: "pending st = length ?c" "dead st = length (filter (\<lambda>r. dead_at r \<noteq> None) (im_rows s))"
    "expired_pending st = length (filter (pending_expired (im_now s)) (im_rows s))"
    by (simp_all add: st stats_fold)
  have upper: "\<exists>l. lag st = Some l \<and> im_now s - available_at r \<le> int l" if "r \<in> set ?c" for r
  proof -
    have ne: "?c \<noteq> []" using that by force
    with lag due min(2) [OF ne that] show ?thesis by simp
  qed
  have exact: "\<exists>r \<in> set ?c. int l = im_now s - available_at r" if "lag st = Some l" for l
  proof -
    have ne: "?c \<noteq> []" using that lag due by (auto split: if_splits)
    with lag due that have "int l = im_now s - ?m" by (auto split: if_splits)
    with min(1) [OF ne] show ?thesis by (metis (no_types, lifting) imageE)
  qed
  have "lag st = None \<longleftrightarrow> length ?c = 0" using lag due by auto
  then show ?thesis
    using counts upper exact by (simp add: Bex_def Ball_def)
qed

text \<open>An instance: two due rows, the older one due five nanoseconds ago.\<close>

theorem try_stats_correct_witness:
  "\<exists>s' st. try_stats two_rows = (s', Ok st) \<and> pending st = 2 \<and> lag st = Some 5"
proof -
  have l: "(case snd (try_stats two_rows) of Inr st \<Rightarrow> lag st = Some 5 | Inl _ \<Rightarrow> False)" by code_simp
  then obtain s' st where run: "try_stats two_rows = (s', Ok st)" and lag: "lag st = Some 5"
    by (cases "try_stats two_rows") (auto split: sum.splits)
  have "length (filter (\<lambda>r. is_claimable r (im_now two_rows)) (im_rows two_rows)) = 2" by code_simp
  with try_stats_correct [OF run] run lag show ?thesis by (intro exI [of _ s'] exI [of _ st]) simp
qed

end
