(* ===== verification/Dispatcher_System.thy ===== *)
theory Dispatcher_System
  imports Dispatcher_Safety In_Memory_Behaviour
begin

text \<open>
  The dispatcher over a store that meets the contract \<open>outbox_store\<close>: the locale \<open>dispatched\<close> adds
  what the other parties may do, and proves that the claim gate bounds the outstanding rows and
  that no row is marked published without an acknowledged publish. It is interpreted on the
  dispatcher over the in-memory store, beside clients that enqueue, purge, requeue dead rows and
  workers that claim, fail, release and renew.
\<close>

section \<open>The log\<close>

definition settled :: "Log \<Rightarrow> MessageRef multiset" where
  "settled g = lg_written g + lg_released g + lg_abandoned g + lg_lost g"

lemma retry_round_log:
  assumes "retry_round cf c f x = (x', r)"
  shows "lg_claimed (sy_log x') = lg_claimed (sy_log x)" "settled (sy_log x) \<subseteq># settled (sy_log x')"
    "lg_acked (sy_log x') = lg_acked (sy_log x)"
  using assms
  by (auto simp: retry_round_def Let_def log_outcomes_def settled_def split: prod.splits if_splits
      intro!: subset_mset.add_mono)

lemma do_record_log [simp]:
  "lg_claimed (sy_log (do_record cf is x)) = lg_claimed (sy_log x)"
  "settled (sy_log x) \<subseteq># settled (sy_log (do_record cf is x))"
  "lg_acked (sy_log (do_record cf is x)) = lg_acked (sy_log x)"
  by (auto simp: do_record_def Let_def settled_def)

text \<open>Only a claim makes the claimed rows grow; no step takes a settled or acknowledged row back.\<close>

lemma do_claim_log:
  "settled (sy_log (do_claim cf tm x)) = settled (sy_log x)"
  "lg_acked (sy_log (do_claim cf tm x)) = lg_acked (sy_log x)"
  by (auto simp: do_claim_def Let_def settled_def split: prod.splits)

lemma run_step_log:
  assumes "run_step cf env x x'"
  shows "settled (sy_log x) \<subseteq># settled (sy_log x')" "lg_acked (sy_log x) \<subseteq># lg_acked (sy_log x')"
    "lg_claimed (sy_log x') = lg_claimed (sy_log x)
     \<or> (\<exists>tm. x' = do_claim cf tm x \<and> has_capacity (cf_settings cf) (sy_loop x) \<and> sy_phase x = Running)"
  using assms
proof (atomize(full), induction rule: run_step.induct)
  case (rs_retry x c f)
  obtain x1 r where r: "retry_round cf c f x = (x1, r)" by fastforce
  from retry_round_log [OF r] show ?case by (auto simp: do_retry_def r Let_def)
next
  case (rs_retry_half x tm c)
  show ?case by (auto simp: do_retry_half_def Let_def log_outcomes_def settled_def
        split: prod.splits intro!: subset_mset.add_mono)
next
  case (rs_drain_join x dl "is" c f)
  obtain x1 r where r: "retry_round cf c f (do_record cf is x) = (x1, r)" by fastforce
  from retry_round_log [OF r] subset_mset.order_trans [OF do_record_log(2) retry_round_log(2) [OF r]]
  show ?case by (auto simp: do_drain_join_def r)
next
  case (rs_drain_end x dl c f tm)
  obtain x1 r where r: "retry_round cf c f x = (x1, r)" by fastforce
  from retry_round_log [OF r] have "settled (sy_log x) \<subseteq># settled (sy_log x1) + mset (release_now l)" for l :: "'b Loop"
    by (simp add: subset_mset.add_increasing2)
  with retry_round_log [OF r] show ?case
    by (simp add: do_drain_end_def r do_stop_def settled_def ac_simps)
next
  case (rs_join x "is")
  show ?case by (simp add: do_join_def Let_def)
next
  case (rs_claim x tm)
  then show ?case by (auto simp: do_claim_log)
qed (auto simp: do_renew_def do_shutdown_def do_stop_def Let_def settled_def
      split: prod.splits)

section \<open>The claim gate\<close>

lemma claim_want_le: "unat (claim_want s l) \<le> max_in_flight s - outstanding_count l"
proof -
  let ?c = "max_in_flight s - outstanding_count l"
  have "unat (if ?c < 2 ^ 32 then of_nat ?c else (- 1 :: u32)) \<le> ?c"
  proof (cases "?c < 2 ^ 32")
    case True
    then show ?thesis by (simp add: unat_of_nat)
  next
    case False
    have "unat (- 1 :: u32) < 2 ^ 32" using unsigned_less [of "- 1 :: u32"] by simp
    with False show ?thesis by simp
  qed
  then show ?thesis
    unfolding claim_want_def Let_def by (simp add: min_def word_le_nat_alt)
qed

lemma outstanding_count_tracked: "lp_pending l = [] \<Longrightarrow> outstanding_count l = size (tracked l)"
  by (simp add: outstanding_count_def tracked_defs)

section \<open>Over a store that meets its contract\<close>

locale dispatched =
  outbox_provider published inv key "so_acquire (cf_ops cf)" "so_complete (cf_ops cf)" "so_fail (cf_ops cf)"
    "so_release (cf_ops cf)" "so_extend_lease (cf_ops cf)"
  for published :: "'s \<Rightarrow> 'k set" and inv :: "'s \<Rightarrow> bool" and key :: "MessageRef \<Rightarrow> 'k"
    and cf :: "('s, 'e) Config" +
  fixes env :: "'s \<Rightarrow> 's \<Rightarrow> bool"
  assumes env_inv: "env s s' \<Longrightarrow> inv s \<Longrightarrow> inv s'"
    and env_published:
      "env s s' \<Longrightarrow> inv s \<Longrightarrow> published s' \<subseteq> published s"
begin

lemma bounded_store:
  assumes "fst (bounded tm f s) = s'" "P s" "P (fst (f s))"
  shows "P s'"
  using assms by (cases tm) (auto split: prod.splits)

lemma acquired_length:
  assumes "inv s" "bounded tm (so_acquire (cf_ops cf) rq) s = (s', Inr b)"
  shows "length (ab_records b) \<le> unat (ar_batch_size rq)"
proof -
  from assms(2) have "so_acquire (cf_ops cf) rq s = (s', Ok b)"
    by (cases tm) (auto split: prod.splits simp: map_err_def split: sum.splits)
  from acquire_bounded [OF assms(1) this] show ?thesis .
qed

text \<open>The store state after one step: unchanged, or one call of the five, or a step of the others.
  A complete call names messages waiting in \<^verbatim>\<open>unwritten_complete\<close> after an acknowledged publish.\<close>

definition state_ok :: "MessageRef set \<Rightarrow> 's \<Rightarrow> bool" where
  "state_ok acked s \<longleftrightarrow> inv s \<and> published s \<subseteq> key ` acked"

lemma call_ok:
  assumes "state_ok A s"
  shows "state_ok A (fst (bounded tm (so_acquire (cf_ops cf) rq) s))"
    "state_ok A (fst (bounded tm (so_fail (cf_ops cf) w fs) s))"
    "state_ok A (fst (bounded tm (so_release (cf_ops cf) w ms) s))"
    "state_ok A (fst (bounded tm (so_extend_lease (cf_ops cf) w ms d) s))"
    "cm_message ` set cs \<subseteq> A \<Longrightarrow> state_ok A (fst (bounded tm (so_complete (cf_ops cf) w cs) s))"
proof -
  from assms have s: "inv s" "published s \<subseteq> key ` A" by (simp_all add: state_ok_def)
  note kept = keeps_published [OF s(1), THEN order_trans, OF s(2)]
  show "state_ok A (fst (bounded tm (so_acquire (cf_ops cf) rq) s))"
    using assms by (rule bounded_store [OF refl]) (simp add: state_ok_def s kept keeps_inv)
  show "state_ok A (fst (bounded tm (so_fail (cf_ops cf) w fs) s))"
    using assms by (rule bounded_store [OF refl]) (simp add: state_ok_def s kept keeps_inv)
  show "state_ok A (fst (bounded tm (so_release (cf_ops cf) w ms) s))"
    using assms by (rule bounded_store [OF refl]) (simp add: state_ok_def s kept keeps_inv)
  show "state_ok A (fst (bounded tm (so_extend_lease (cf_ops cf) w ms d) s))"
    using assms by (rule bounded_store [OF refl]) (simp add: state_ok_def s kept keeps_inv)
  show "state_ok A (fst (bounded tm (so_complete (cf_ops cf) w cs) s))" if "cm_message ` set cs \<subseteq> A"
  proof -
    have "key ` cm_message ` set cs \<subseteq> key ` A" using that by (rule image_mono)
    with complete_named [OF s(1), of w cs] s(2)
    have "published (fst (so_complete (cf_ops cf) w cs s)) \<subseteq> key ` A" by blast
    with s(1) have "state_ok A (fst (so_complete (cf_ops cf) w cs s))"
      by (simp add: state_ok_def keeps_inv)
    with assms show ?thesis by (rule bounded_store [OF refl])
  qed
qed

lemma complete_refs_items: "cm_message ` set (map snd (unwritten_complete l)) = set_mset (complete_refs l)"
  by (force simp: complete_refs_def)

lemma retry_complete_store:
  "fst (retry_complete ops w d tm now st l)
     = (if unwritten_complete l = [] then st
        else fst (bounded tm (so_complete ops w (map snd (unwritten_complete l))) st))"
  by (auto simp: retry_complete_def Let_def split: prod.splits sum.splits TimedOut.splits)

lemma retry_fail_store:
  "fst (retry_fail ops w d tm now st l)
     = (if unwritten_fail l = [] then st
        else fst (bounded tm (so_fail ops w (map snd (unwritten_fail l))) st))"
  by (auto simp: retry_fail_def Let_def split: prod.splits sum.splits TimedOut.splits)

lemma retry_complete_ok:
  assumes "state_ok A s" "set_mset (complete_refs l) \<subseteq> A"
  shows "state_ok A (fst (retry_complete (cf_ops cf) w d tm t s l))"
  using assms(1) call_ok(5) [OF assms(1), of "map snd (unwritten_complete l)" tm w] assms(2)
  by (simp add: retry_complete_store complete_refs_items del: set_map)

lemma retry_round_ok:
  assumes "state_ok A (sy_store x)" "set_mset (complete_refs (sy_loop x)) \<subseteq> A"
    "retry_round cf c f x = (x', r)"
  shows "state_ok A (sy_store x')"
proof -
  obtain st1 l1 r1 where r: "retry_complete (cf_ops cf) (cf_worker cf) (lease (cf_settings cf)) (fst c) (snd c)
      (sy_store x) (sy_loop x) = (st1, l1, r1)" by (metis prod_cases3)
  have s1: "state_ok A st1"
    using retry_complete_ok [OF assms(1,2), of "cf_worker cf" "lease (cf_settings cf)" "fst c" "snd c"]
    by (simp add: r)
  have s2: "state_ok A (fst (retry_fail (cf_ops cf) (cf_worker cf) (lease (cf_settings cf)) (fst f) (snd f) st1 l1))"
    using s1 call_ok(2) [OF s1] by (simp add: retry_fail_store)
  show ?thesis using assms(3) s1 s2
    by (auto simp: retry_round_def retry_unwritten_outcomes_def r Let_def split: prod.splits if_splits)
qed

lemma release_call_ok: "state_ok A s \<Longrightarrow> state_ok A (release_call cf tm ms s)"
  using call_ok(3) by (simp add: release_call_def)

lemma acked_mono: "state_ok (set_mset A) s \<Longrightarrow> A \<subseteq># B \<Longrightarrow> state_ok (set_mset B) s"
  unfolding state_ok_def by (meson image_mono order_trans set_mset_mono)

lemma run_step_store:
  assumes "run_step cf env x x'" "sys_inv cf x" "state_ok (set_mset (lg_acked (sy_log x))) (sy_store x)"
  shows "state_ok (set_mset (lg_acked (sy_log x))) (sy_store x')"
  using assms
proof (induction rule: run_step.induct)
  case (rs_env x st)
  then show ?case using env_inv [of "sy_store x" st] env_published [of "sy_store x" st]
    by (simp add: state_ok_def) blast
next
  case (rs_retry x c f)
  obtain x1 r where r: "retry_round cf c f x = (x1, r)" by fastforce
  from rs_retry retry_round_ok [OF _ _ r] show ?case
    by (simp add: do_retry_def r Let_def sys_inv_def loop_inv_def subset_iff)
next
  case (rs_retry_dropped x tm)
  from rs_retry_dropped.prems(1)
  have "cm_message ` set (map snd (unwritten_complete (sy_loop x))) \<subseteq> set_mset (lg_acked (sy_log x))"
    unfolding complete_refs_items by (auto simp: sys_inv_def loop_inv_def)
  from call_ok(5) [OF rs_retry_dropped.prems(2) this] show ?case by simp
next
  case (rs_retry_half x tm c)
  obtain st1 l1 r1 where r: "retry_complete (cf_ops cf) (cf_worker cf) (lease (cf_settings cf)) (fst c) (snd c)
      (sy_store x) (sy_loop x) = (st1, l1, r1)" by (metis prod_cases3)
  have "state_ok (set_mset (lg_acked (sy_log x))) st1"
    using retry_complete_ok [OF rs_retry_half.prems(2), of "sy_loop x" "cf_worker cf"
        "lease (cf_settings cf)" "fst c" "snd c"] rs_retry_half.prems(1)
    by (auto simp: r sys_inv_def loop_inv_def)
  with rs_retry_half.prems call_ok(2) show ?case by (simp add: do_retry_half_def r Let_def)
next
  case (rs_drain_join x dl "is" c f)
  obtain x1 r where r: "retry_round cf c f (do_record cf is x) = (x1, r)" by fastforce
  have "sy_store (do_record cf is x) = sy_store x" by (simp add: do_record_def Let_def)
  with do_record_inv [of cf x "is"] rs_drain_join retry_round_ok [OF _ _ r] show ?case
    by (auto simp: do_drain_join_def r sys_inv_def loop_inv_def subset_iff)
next
  case (rs_drain_end x dl c f tm)
  obtain x1 r where r: "retry_round cf c f x = (x1, r)" by fastforce
  from rs_drain_end retry_round_ok [OF _ _ r] show ?case
    by (simp add: do_drain_end_def r do_stop_def sys_inv_def loop_inv_def subset_iff release_call_ok)
next
  case (rs_claim x tm)
  then show ?case using call_ok(1) [OF rs_claim.prems(2)] by (simp add: do_claim_def Let_def split_def)
next
  case (rs_shutdown x tm)
  then show ?case by (simp add: do_shutdown_def release_call_ok)
next
  case (rs_drain_broken x tm)
  then show ?case by (simp add: do_stop_def release_call_ok)
next
  case (rs_renew x tm)
  then show ?case by (simp add: do_renew_def call_ok)
qed (simp_all add: do_join_def do_record_def Let_def)

text \<open>The claim gate: a claim asks for no more rows than there is room for, and nothing else adds rows.\<close>

lemma run_step_count:
  assumes step: "run_step cf env x x'" and inv: "sys_inv cf x" "running_ok x" "inv (sy_store x)"
    and le: "outstanding_count (sy_loop x) \<le> max_in_flight (cf_settings cf)"
  shows "outstanding_count (sy_loop x') \<le> max_in_flight (cf_settings cf)"
proof -
  note inv' = run_step_inv [OF step inv(1,2)]
  have size: "outstanding_count (sy_loop y) = size (tracked (sy_loop y))" if "sys_inv cf y" for y
    using that by (intro outstanding_count_tracked) (simp add: sys_inv_def loop_inv_def)
  have cons: "lg_claimed (sy_log y) = tracked (sy_loop y) + settled (sy_log y)" if "sys_inv cf y" for y
    using that by (simp add: sys_inv_def conserved_def settled_def ac_simps)
  from run_step_log(3) [OF step] show ?thesis
  proof
    assume "lg_claimed (sy_log x') = lg_claimed (sy_log x)"
    with cons [OF inv(1)] cons [OF inv'] run_step_log(1) [OF step]
    have "tracked (sy_loop x') \<subseteq># tracked (sy_loop x)"
      by (metis subset_mset.add_le_imp_le_right subset_mset.add_left_mono)
    then show ?thesis using size_mset_mono le by (fastforce simp: size [OF inv(1)] size [OF inv'])
  next
    assume "\<exists>tm. x' = do_claim cf tm x \<and> has_capacity (cf_settings cf) (sy_loop x) \<and> sy_phase x = Running"
    then obtain tm where x': "x' = do_claim cf tm x" by blast
    let ?rq = "claim_request (cf_settings cf) (cf_worker cf) (sy_loop x)"
    obtain st r where b: "bounded tm (so_acquire (cf_ops cf) ?rq) (sy_store x) = (st, r)" by fastforce
    let ?new = "case r of Inr b \<Rightarrow> mset (map message_ref (ab_records b)) | Inl _ \<Rightarrow> {#}"
    have "size ?new \<le> max_in_flight (cf_settings cf) - outstanding_count (sy_loop x)"
      using acquired_length [OF inv(3), of tm ?rq st] b claim_want_le [of "cf_settings cf" "sy_loop x"]
      by (cases r) (auto simp: claim_request_def intro: order_trans)
    moreover have "tracked (sy_loop x') = tracked (sy_loop x) + ?new"
      using cons [OF inv(1)] cons [OF inv'] do_claim_log(1) [of cf tm x]
      by (simp add: x' do_claim_def b Let_def)
    ultimately show ?thesis using le by (simp add: size [OF inv(1)] size [OF inv'])
  qed
qed

lemma run_system_inv:
  assumes "run_reachable cf env st0 x" "inv st0" "published st0 = {}"
  shows "state_ok (set_mset (lg_acked (sy_log x))) (sy_store x)
    \<and> outstanding_count (sy_loop x) \<le> max_in_flight (cf_settings cf)"
  using assms
proof (induction rule: run_reachable.induct)
  case (rr_init t)
  then show ?case by (simp add: sys_init_def state_ok_def log_init_def loop_init_def outstanding_count_def)
next
  case (rr_step x x')
  have i: "sys_inv cf x" "running_ok x" using run_reachable_inv [OF rr_step.hyps(1)] by simp_all
  from rr_step have ih: "state_ok (set_mset (lg_acked (sy_log x))) (sy_store x)"
    "outstanding_count (sy_loop x) \<le> max_in_flight (cf_settings cf)" by blast+
  from run_step_store [OF rr_step.hyps(2) i(1) ih(1)] run_step_log(2) [OF rr_step.hyps(2)]
  have "state_ok (set_mset (lg_acked (sy_log x'))) (sy_store x')" by (rule acked_mono)
  moreover from run_step_count [OF rr_step.hyps(2) i _ ih(2)] ih(1)
  have "outstanding_count (sy_loop x') \<le> max_in_flight (cf_settings cf)" by (simp add: state_ok_def)
  ultimately show ?case ..
qed

end

section \<open>Over the in-memory store\<close>

definition im_ops :: "(Inner, InMemoryStoreError) store_ops" where
  "im_ops = \<lparr>so_acquire = try_acquire, so_complete = try_complete, so_fail = try_fail,
     so_release = try_release, so_extend_lease = try_extend_lease, so_kind = store_error_kind\<rparr>"

definition im_config ::
    "DispatcherSettings \<Rightarrow> WorkerId \<Rightarrow> (u32 \<Rightarrow> FailureKind \<Rightarrow> FailureOutcome) \<Rightarrow> (Inner, InMemoryStoreError) Config" where
  "im_config s w p = \<lparr>cf_ops = im_ops, cf_settings = s, cf_worker = w, cf_policy = p\<rparr>"

text \<open>The other parties: producers enqueue messages under fresh ids, time passes at the store, other
  workers claim, fail, release and renew, and operators purge and requeue.\<close>

inductive im_env :: "Inner \<Rightarrow> Inner \<Rightarrow> bool" where
  env_insert: "env_id e \<notin> (\<lambda>r. env_id (envelope r)) ` set (im_rows s) \<Longrightarrow> im_env s (fst (insert_row e a k s))"
| env_advance: "im_env s (advance d s)"
| env_acquire: "im_env s (fst (try_acquire rq s))"
| env_fail: "im_env s (fst (try_fail w fs s))"
| env_release: "im_env s (fst (try_release w ms s))"
| env_extend: "im_env s (fst (try_extend_lease w ms d s))"
| env_purge: "im_env s (fst (try_purge pq s))"
| env_stats: "im_env s (fst (try_stats s))"
| env_retry_dead: "im_env s (fst (retry_dead ms s))"
| env_purge_dead: "im_env s (fst (purge_dead ms s))"

lemma published_refs_cong:
  assumes "map (\<lambda>r. (message_ref r, published_at r)) rs = map (\<lambda>r. (message_ref r, published_at r)) rs'"
  shows "published_refs rs = published_refs rs'" "map message_ref rs = map message_ref rs'"
proof -
  have 1: "published_refs rs = {m. \<exists>t. (m, Some t) \<in> set (map (\<lambda>r. (message_ref r, published_at r)) rs)}" for rs
    by (induction rs) (auto simp: published_refs_Cons)
  show "published_refs rs = published_refs rs'" unfolding 1 [of rs] 1 [of rs'] assms ..
  have 2: "map message_ref rs = map fst (map (\<lambda>r. (message_ref r, published_at r)) rs)" for rs by simp
  show "map message_ref rs = map message_ref rs'" unfolding 2 [of rs] 2 [of rs'] assms ..
qed

lemma published_refs_mono: "set rs \<subseteq> set rs' \<Longrightarrow> published_refs rs \<subseteq> published_refs rs'"
  by (auto simp: published_refs_def)

lemma purge_refs:
  assumes "distinct (map message_ref rs)"
  shows "distinct (map message_ref (fst (purge_rows rq t rs)))"
    "published_refs (fst (purge_rows rq t rs)) \<subseteq> published_refs rs"
proof -
  let ?k = "unat (pq_batch_size rq)"
  let ?a = "fst (sweep_expired ?k t rs)"
  have "map (\<lambda>r. (message_ref r, published_at r)) ?a = map (\<lambda>r. (message_ref r, published_at r)) rs"
    by (rule sweep_expired_map) (simp add: row_expired_def message_ref_def)
  note a = published_refs_cong [OF this]
  have ret: "distinct (map message_ref (fst (retain_opt k f t d xs)))" if "distinct (map message_ref xs)"
    for k f d and xs :: "OutboxRecord list"
    using that by (auto simp: retain_opt_def retain_upto_distinct split: option.splits)
  show "distinct (map message_ref (fst (purge_rows rq t rs)))"
    using assms a(2) by (simp add: purge_rows_eq Let_def ret)
  show "published_refs (fst (purge_rows rq t rs)) \<subseteq> published_refs rs"
    unfolding a(1) [symmetric] purge_rows_eq Let_def fst_conv
    by (intro published_refs_mono subset_trans [OF retain_opt_props(4) retain_opt_props(4)])
qed

lemma retry_dead_refs:
  "map (\<lambda>r. (message_ref r, published_at r)) (fst (retry_dead_rows t ms rs))
     = map (\<lambda>r. (message_ref r, published_at r)) rs"
  by (induction ms arbitrary: rs)
    (simp_all add: retry_dead_rows_Cons update_first_map message_ref_def del: retry_dead_rows.simps(2))

lemma im_env_keeps:
  assumes "im_env s s'" "im_inv_refs s"
  shows "im_inv_refs s' \<and> published_refs (im_rows s') \<subseteq> published_refs (im_rows s)"
  using assms
proof (induction rule: im_env.induct)
  case (env_insert e s a k)
  then have "\<lparr>mr_id = env_id e, mr_created_at = im_now s\<rparr> \<notin> message_ref ` set (im_rows s)"
    by (force simp: message_ref_def)
  with env_insert im_inv_insert_row [of s e a k] show ?case
    by (auto simp: im_inv_refs_def insert_row_def Let_def message_ref_def builder_available_at_def
        builder_ordering_key_def record_builder_def published_refs_def)
next
  case (env_advance s d)
  then show ?case by (auto simp: im_inv_refs_def im_inv_def advance_def)
next
  case (env_purge s pq)
  then have i: "im_inv (fst (try_purge pq s))" using im_inv_purge by (simp add: im_inv_refs_def)
  from env_purge have d: "distinct (map message_ref (im_rows s))" by (simp add: im_inv_refs_def)
  have "im_rows (fst (try_purge pq s)) = im_rows s
      \<or> (\<exists>t. im_rows (fst (try_purge pq s)) = fst (purge_rows pq t (im_rows s)))"
    unfolding try_purge_eq
    by (cases rule: guarded_cases [of "\<lambda>s. (s\<lparr>im_rows := fst (purge_rows pq (im_now s) (im_rows s))\<rparr>,
     snd (purge_rows pq (im_now s) (im_rows s)))" s]) auto
  then obtain rs where rs: "im_rows (fst (try_purge pq s)) = rs" "distinct (map message_ref rs)"
    "published_refs rs \<subseteq> published_refs (im_rows s)"
    using d purge_refs [OF d, of pq] by (metis order_refl)
  with i show ?case by (simp add: im_inv_refs_def)
next
  case (env_stats s)
  then have "map id (im_rows (fst (try_stats s))) = map id (im_rows s)"
    unfolding try_stats_def by (intro guarded_map) (simp_all add: im_inv_refs_def)
  then have "im_rows (fst (try_stats s)) = im_rows s" by simp
  with env_stats im_inv_stats show ?case by (simp add: im_inv_refs_def)
next
  case (env_retry_dead s ms)
  note r = published_refs_cong [OF retry_dead_refs [of "im_now s" ms "im_rows s"]]
  from env_retry_dead im_inv_retry_dead [of s ms] r show ?case
    by (simp add: im_inv_refs_def retry_dead_def)
next
  case (env_purge_dead s ms)
  then show ?case using im_inv_purge_dead [of s ms]
    by (auto simp: im_inv_refs_def purge_dead_def Let_def distinct_map published_refs_def intro: inj_on_subset)
qed (simp_all add: im.acquire_inv im.fail_inv im.release_inv im.extend_inv im.call_published im.fail_publishes)

interpretation im_run: dispatched "\<lambda>s. published_refs (im_rows s)" im_inv_refs "\<lambda>m. m" "im_config s w p" im_env
  using im_env_keeps im.weak.outbox_provider_axioms
  by (simp add: dispatched_def dispatched_axioms_def im_config_def im_ops_def image_def)

end
