(* ===== verification/Dispatcher_Claims.thy ===== *)
theory Dispatcher_Claims
  imports Dispatcher_System
begin

text \<open>
  What the dispatcher guarantees, over all its reachable states, with concrete runs over the
  in-memory store: an executable form of the step relation (\<open>run_exec\<close>, sound for \<open>run_step\<close>) drives
  them.
\<close>

section \<open>Executable runs\<close>

datatype action =
    ATick nat | APermit nat | APublish nat publish_answer | APanic nat | AJoin "nat list" | ARenew timing
  | ARetry "timing \<times> instant" "timing \<times> instant" | AClaim timing | ACancel | AShutdown timing
  | ADrainJoin "nat list" "timing \<times> instant" "timing \<times> instant"
  | ADrainEnd "timing \<times> instant" "timing \<times> instant" timing | ADrainBroken timing

definition guard_some :: "bool \<Rightarrow> 'a \<Rightarrow> 'a option" where
  "guard_some b x = (if b then Some x else None)"

fun run_exec :: "('s, 'e) Config \<Rightarrow> action \<Rightarrow> ('s, 'e) Sys \<Rightarrow> ('s, 'e) Sys option" where
  "run_exec cf (ATick d) x = Some (x\<lparr>sy_clock := sy_clock x + int d\<rparr>)"
| "run_exec cf (APermit i) x =
     (case map_of (lp_in_flight (sy_loop x)) i of
        None \<Rightarrow> None
      | Some t \<Rightarrow> guard_some (\<not> pt_started t \<and> pt_end t = None
            \<and> permits_used (sy_loop x) < max_in_flight (cf_settings cf))
          (x\<lparr>sy_loop := update_task i (\<lambda>t. t\<lparr>pt_started := True\<rparr>) (sy_loop x)\<rparr>))"
| "run_exec cf (APublish i ans) x =
     (case map_of (lp_in_flight (sy_loop x)) i of
        None \<Rightarrow> None
      | Some t \<Rightarrow> guard_some (pt_started t \<and> pt_end t = None)
          (x\<lparr>sy_loop := update_task i (\<lambda>t. t\<lparr>pt_end := Some (Ended (publish_one (pt_job t) ans))\<rparr>) (sy_loop x),
             sy_log := (sy_log x)\<lparr>lg_acked := lg_acked (sy_log x)
               + (if ans = PublishOk then {#pn_message (pt_job t)#} else {#})\<rparr>\<rparr>))"
| "run_exec cf (APanic i) x =
     (case map_of (lp_in_flight (sy_loop x)) i of
        None \<Rightarrow> None
      | Some t \<Rightarrow> guard_some (pt_end t = None)
          (x\<lparr>sy_loop := update_task i (\<lambda>t. t\<lparr>pt_end := Some Panicked\<rparr>) (sy_loop x)\<rparr>))"
| "run_exec cf (AJoin is) x =
     guard_some (sy_phase x = Running \<and> is \<noteq> [] \<and> distinct is \<and> list_all (joinable (sy_loop x)) is)
       (do_join cf is x)"
| "run_exec cf (ARenew tm) x =
     guard_some (sy_phase x = Running \<and> has_outstanding (sy_loop x)) (do_renew cf tm x)"
| "run_exec cf (ARetry c f) x =
     guard_some (sy_phase x = Running \<and> has_unwritten (sy_loop x)
       \<and> next_outcome_retry_at (sy_loop x) \<le> sy_clock x) (do_retry cf c f x)"
| "run_exec cf (AClaim tm) x =
     guard_some (sy_phase x = Running \<and> has_capacity (cf_settings cf) (sy_loop x)
       \<and> next_poll_at (sy_loop x) \<le> sy_clock x) (do_claim cf tm x)"
| "run_exec cf ACancel x = guard_some (sy_phase x = Running) (x\<lparr>sy_phase := Breaking\<rparr>)"
| "run_exec cf (AShutdown tm) x = guard_some (sy_phase x = Breaking) (do_shutdown cf tm x)"
| "run_exec cf (ADrainJoin is c f) x =
     (case sy_phase x of
        Draining dl \<Rightarrow> guard_some (sy_clock x < dl \<and> is \<noteq> [] \<and> distinct is
          \<and> list_all (joinable (sy_loop x)) is) (do_drain_join cf is c f x)
      | _ \<Rightarrow> None)"
| "run_exec cf (ADrainEnd c f tm) x =
     (case sy_phase x of
        Draining dl \<Rightarrow> guard_some (lp_in_flight (sy_loop x) = [] \<or> dl \<le> sy_clock x) (do_drain_end cf c f tm x)
      | _ \<Rightarrow> None)"
| "run_exec cf (ADrainBroken tm) x = guard_some (sy_phase x = DrainBroken) (do_stop cf tm x)"

fun run_execs :: "('s, 'e) Config \<Rightarrow> action list \<Rightarrow> ('s, 'e) Sys \<Rightarrow> ('s, 'e) Sys option" where
  "run_execs cf [] x = Some x"
| "run_execs cf (a # as) x = (case run_exec cf a x of None \<Rightarrow> None | Some x' \<Rightarrow> run_execs cf as x')"

lemma run_exec_sound:
  assumes "run_exec cf a x = Some x'"
  shows "run_step cf env x x'"
proof (cases a)
  case (APublish i ans)
  with assms obtain t where "map_of (lp_in_flight (sy_loop x)) i = Some t" "pt_started t" "pt_end t = None"
    by (auto simp: guard_some_def split: option.splits if_splits)
  from rs_publish [OF this, of cf env ans] this assms APublish show ?thesis
    by (simp add: guard_some_def split: if_splits)
qed (use assms in \<open>auto simp: guard_some_def list_all_iff split: option.splits if_splits phase.splits
      intro: run_step.intros\<close>)

lemma run_execs_reachable:
  "run_reachable cf env st0 x \<Longrightarrow> run_execs cf as x = Some x' \<Longrightarrow> run_reachable cf env st0 x'"
proof (induction "as" arbitrary: x)
  case (Cons a "as")
  then obtain x1 where x1: "run_exec cf a x = Some x1" "run_execs cf as x1 = Some x'"
    by (auto split: option.splits)
  from rr_step [OF Cons.prems(1) run_exec_sound [OF x1(1)]] x1(2) show ?case by (rule Cons.IH)
qed simp

text \<open>A dispatcher with room for one publish, no jitter, no drain time, and default settings otherwise.\<close>

definition demo_settings :: DispatcherSettings where
  "demo_settings =
     \<lparr>batch_size = 100, lease = from_secs 30, max_in_flight = 1, publish_timeout = from_secs 10,
      poll_interval = from_millis 500, idle_poll_interval = from_secs 5, drain_timeout = 0,
      store_timeout = from_secs 10, stats_interval = from_secs 15, ordering = Unordered,
      retry = \<lparr>base = from_secs 1, max_delay = from_secs 300, max_attempts = 10, jitter = Fin 0\<rparr>,
      worker_id = None\<rparr>"

definition demo_config :: "(Inner, InMemoryStoreError) Config" where
  "demo_config = im_config demo_settings (WorkerId ''w'') (\<lambda>_ _. Retry (from_secs 1))"

definition demo_from :: "Inner \<Rightarrow> action list \<Rightarrow> (Inner, InMemoryStoreError) Sys" where
  "demo_from st as = the (run_execs demo_config as (sys_init st 0))"

definition demo_run :: "action list \<Rightarrow> (Inner, InMemoryStoreError) Sys" where
  "demo_run as = demo_from two_rows as"

lemma demo_from_reachable:
  assumes "run_execs demo_config as (sys_init st 0) \<noteq> None"
  shows "run_reachable demo_config im_env st (demo_from st as)"
  using assms unfolding demo_from_def by (auto intro: run_execs_reachable rr_init)

lemma demo_run_reachable:
  assumes "run_execs demo_config as (sys_init two_rows 0) \<noteq> None"
  shows "run_reachable demo_config im_env two_rows (demo_run as)"
  unfolding demo_run_def by (rule demo_from_reachable [OF assms])

text \<open>One message claimed, published, acknowledged, and its outcome written.\<close>

definition happy :: "action list" where
  "happy = [AClaim InTime, APermit 0, APublish 0 PublishOk, AJoin [0], ARetry (InTime, 0) (InTime, 0)]"

text \<open>The same message acknowledged, then shut down before the task is joined.\<close>

definition hasty :: "action list" where
  "hasty = [AClaim InTime, APermit 0, APublish 0 PublishOk, ACancel, AShutdown InTime,
     ADrainEnd (InTime, 0) (InTime, 0) InTime]"

lemma happy_runs: "run_execs demo_config happy (sys_init two_rows 0) \<noteq> None"
  by code_simp

lemma hasty_runs: "run_execs demo_config hasty (sys_init two_rows 0) \<noteq> None"
  by code_simp

section \<open>What every run keeps\<close>

text \<open>A stopped dispatcher has nothing outstanding and no failure left to write; a drain's deadline
  is never further away than the drain timeout.\<close>

definition stopped_ok :: "('s, 'e) Config \<Rightarrow> ('s, 'e) Sys \<Rightarrow> bool" where
  "stopped_ok cf x \<longleftrightarrow>
     (sy_phase x = Stopped \<longrightarrow> lp_in_flight (sy_loop x) = [] \<and> lp_outstanding (sy_loop x) = []
        \<and> unwritten_fail (sy_loop x) = [])
     \<and> (\<forall>dl. sy_phase x = Draining dl \<longrightarrow> dl \<le> sy_clock x + int (drain_timeout (cf_settings cf)))"

lemma phase_after_simps [simp]: "phase_after l \<noteq> Stopped" "phase_after l \<noteq> Draining dl"
  by (simp_all add: phase_after_def)

lemma run_step_stopped_ok:
  assumes "run_step cf env x x'" "stopped_ok cf x"
  shows "stopped_ok cf x'"
  using assms
proof (induction rule: run_step.induct)
  case (rs_drain_join x dl "is" c f)
  obtain x1 r where r: "retry_round cf c f (do_record cf is x) = (x1, r)" by fastforce
  have "sy_clock (do_record cf is x) = sy_clock x" by (simp add: do_record_def Let_def)
  moreover have "sy_clock x1 = sy_clock (do_record cf is x)"
    using r by (auto simp: retry_round_def Let_def split: prod.splits)
  ultimately show ?case using rs_drain_join retry_round_phase [OF r]
    by (simp add: stopped_ok_def do_drain_join_def r)
next
  case (rs_retry x c f)
  then show ?case by (simp add: stopped_ok_def do_retry_def Let_def split: prod.splits)
next
  case (rs_retry_half x tm c)
  then show ?case by (auto simp: stopped_ok_def do_retry_half_def Let_def split: prod.splits)
next
  case (rs_drain_end x dl c f tm)
  then show ?case by (auto simp: stopped_ok_def do_drain_end_def do_stop_def split: prod.splits)
next
  case (rs_claim x tm)
  then show ?case by (auto simp: stopped_ok_def do_claim_def Let_def split: prod.splits)
qed (auto simp: stopped_ok_def do_join_def do_record_def do_renew_def do_shutdown_def do_stop_def Let_def)

lemma run_reachable_stopped_ok: "run_reachable cf env st0 x \<Longrightarrow> stopped_ok cf x"
proof (induction rule: run_reachable.induct)
  case (rr_init t)
  show ?case by (simp add: stopped_ok_def sys_init_def)
qed (rule run_step_stopped_ok)



text \<open>C23. \<^verbatim>\<open>run\<close> ends in an error only for a store error classified permanent, and never while the loop
  still runs; a transient error or a timed out call never ends it.\<close>

theorem run_exit_permanent:
  assumes "run_reachable cf env st0 x" "exit_reason (sy_loop x) = Some e"
  shows "so_kind (cf_ops cf) e = Permanent \<and> sy_phase x \<noteq> Running"
  using run_reachable_inv [OF assms(1)] assms(2) by (auto simp: sys_inv_def exit_ok_def running_ok_def)

text \<open>The first claim meets a permanent error.\<close>

definition broken_store :: Inner where
  "broken_store = two_rows\<lparr>fail_next_permanent := 1\<rparr>"

lemma broken_runs: "run_execs demo_config [AClaim InTime] (sys_init broken_store 0) \<noteq> None"
  by code_simp

theorem run_exit_permanent_witness:
  "exit_reason (sy_loop (demo_from broken_store [AClaim InTime])) = Some InjectedPermanent
   \<and> so_kind im_ops InjectedPermanent = Permanent
   \<and> sy_phase (demo_from broken_store [AClaim InTime]) \<noteq> Running"
proof -
  have "exit_reason (sy_loop (demo_from broken_store [AClaim InTime])) = Some InjectedPermanent"
    by code_simp
  with run_exit_permanent [OF demo_from_reachable [OF broken_runs] this] show ?thesis
    by (simp add: im_ops_def)
qed

text \<open>C1. With this dispatcher the only one that completes rows, a row of the store is marked
  published only if its publish was acknowledged, whatever happens in between: retries, time outs
  after which a call may still have taken effect, lapsed leases, and other parties that enqueue,
  claim, fail, release, renew, purge or requeue.\<close>

theorem published_only_after_ack:
  assumes "run_reachable (im_config s w p) im_env st0 x" "im_inv_refs st0"
    and "published_refs (im_rows st0) = {}"
  shows "published_refs (im_rows (sy_store x)) \<subseteq> set_mset (lg_acked (sy_log x))"
  using im_run.run_system_inv [OF assms] by (simp add: im_run.state_ok_def)

lemma two_rows_refs: "im_inv_refs two_rows" "published_refs (im_rows two_rows) = {}"
proof -
  have "distinct (map message_ref (im_rows two_rows))" by code_simp
  then show "im_inv_refs two_rows" by (simp add: im_inv_refs_def two_rows_inv)
  have "map published_at (im_rows two_rows) = [None, None]" by code_simp
  then have "\<forall>r \<in> set (im_rows two_rows). published_at r = None"
    by (metis in_set_conv_nth length_map list.set_map image_eqI insertE empty_iff list.set(1,2))
  then show "published_refs (im_rows two_rows) = {}" by (auto simp: published_refs_def)
qed

theorem published_only_after_ack_witness:
  "map published_at (im_rows (sy_store (demo_run happy))) = [None, Some 0]
   \<and> published_refs (im_rows (sy_store (demo_run happy))) \<subseteq> {\<lparr>mr_id = 2, mr_created_at = 0\<rparr>}"
proof -
  have "run_reachable (im_config demo_settings (WorkerId ''w'') (\<lambda>_ _. Retry (from_secs 1))) im_env
      two_rows (demo_run happy)"
    using demo_run_reachable [OF happy_runs] by (simp add: demo_config_def)
  note sub = published_only_after_ack [OF this two_rows_refs]
  have "lg_acked (sy_log (demo_run happy)) = {#\<lparr>mr_id = 2, mr_created_at = 0\<rparr>#}"
    "map published_at (im_rows (sy_store (demo_run happy))) = [None, Some 0]" by code_simp+
  with sub show ?thesis by simp
qed

text \<open>C16. The claim gate: rows being published and rows whose outcome is not yet written never exceed
  \<^verbatim>\<open>max_in_flight\<close> together, so a store that cannot record outcomes stops the claiming.\<close>

theorem outstanding_within_limit:
  assumes "run_reachable (im_config s w p) im_env st0 x" "im_inv_refs st0"
    and "published_refs (im_rows st0) = {}"
  shows "outstanding_count (sy_loop x) \<le> max_in_flight s"
  using im_run.run_system_inv [OF assms] by (simp add: im_config_def)

theorem outstanding_within_limit_witness:
  "outstanding_count (sy_loop (demo_run [AClaim InTime])) = 1
   \<and> outstanding_count (sy_loop (demo_run [AClaim InTime])) \<le> max_in_flight demo_settings"
proof -
  have "run_execs demo_config [AClaim InTime] (sys_init two_rows 0) \<noteq> None" by code_simp
  from demo_run_reachable [OF this]
  have "run_reachable (im_config demo_settings (WorkerId ''w'') (\<lambda>_ _. Retry (from_secs 1))) im_env
      two_rows (demo_run [AClaim InTime])" by (simp add: demo_config_def)
  note le = outstanding_within_limit [OF this two_rows_refs]
  have "outstanding_count (sy_loop (demo_run [AClaim InTime])) = 1" by code_simp
  with le show ?thesis by simp
qed




text \<open>An instance: the store rejects the completion write; of two entries one has waited for longer
  than the lease.\<close>

definition stale_loop :: "InMemoryStoreError Loop" where
  "stale_loop = (loop_init 0)\<lparr>unwritten_complete :=
     [(0, \<lparr>cm_message = \<lparr>mr_id = 1, mr_created_at = 0\<rparr>\<rparr>), (20, \<lparr>cm_message = \<lparr>mr_id = 2, mr_created_at = 0\<rparr>\<rparr>)]\<rparr>"

definition stale_round :: "Inner \<times> InMemoryStoreError Loop \<times> InMemoryStoreError RetryOutcome" where
  "stale_round = retry_unwritten_outcomes im_ops (WorkerId ''w'') 10 (InTime, 25) (InTime, 25)
     (two_rows\<lparr>fail_next_complete := 1\<rparr>) stale_loop"


section \<open>Stopping\<close>

text \<open>A run from one state to a stopped one in which no publish ended and no store call was answered.\<close>

definition stops_at :: "('s, 'e) Config \<Rightarrow> ('s \<Rightarrow> 's \<Rightarrow> bool) \<Rightarrow> ('s, 'e) Sys \<Rightarrow> ('s, 'e) Sys \<Rightarrow> bool" where
  "stops_at cf env x x' \<longleftrightarrow> (run_step cf env)\<^sup>*\<^sup>* x x' \<and> sy_phase x' = Stopped \<and> sy_store x' = sy_store x
     \<and> lg_acked (sy_log x') = lg_acked (sy_log x)"

lemma stops_at_step:
  assumes "run_step cf env x y" "sy_store y = sy_store x" "lg_acked (sy_log y) = lg_acked (sy_log x)" "stops_at cf env y x'"
  shows "stops_at cf env x x'"
  using assms by (auto simp: stops_at_def intro: converse_rtranclp_into_rtranclp)

lemma draining_stops:
  assumes "sy_phase y = Draining dl"
  shows "\<exists>x'. stops_at cf env y x' \<and> sy_clock x' = max (sy_clock y) dl"
proof -
  let ?y1 = "y\<lparr>sy_clock := sy_clock y + int (nat (dl - sy_clock y))\<rparr>"
  let ?y2 = "do_drain_end cf (LateLost, 0) (LateLost, 0) LateLost ?y1"
  have "run_step cf env y ?y1" by (rule rs_tick)
  moreover have "run_step cf env ?y1 ?y2" by (rule rs_drain_end [where dl = dl]) (use assms in simp_all)
  moreover have "sy_phase ?y2 = Stopped" "sy_store ?y2 = sy_store y" "sy_clock ?y2 = max (sy_clock y) dl"
    "lg_acked (sy_log ?y2) = lg_acked (sy_log y)"
    by (auto simp: do_drain_end_def do_stop_def release_call_def retry_round_def retry_unwritten_outcomes_def
        retry_complete_def retry_fail_def log_outcomes_def Let_def split: prod.splits)
  ultimately show ?thesis unfolding stops_at_def by (meson rtranclp.rtrancl_refl rtranclp.rtrancl_into_rtrancl)
qed

lemma breaking_stops:
  assumes "sy_phase y = Breaking"
  shows "\<exists>x'. stops_at cf env y x' \<and> sy_clock x' \<le> sy_clock y + int (drain_timeout (cf_settings cf))"
proof -
  let ?y1 = "do_shutdown cf LateLost y"
  have st: "run_step cf env y ?y1" using assms by (rule rs_shutdown)
  have y1: "sy_phase ?y1 = Draining (sy_clock y + int (drain_timeout (cf_settings cf)))"
    "sy_store ?y1 = sy_store y" "sy_clock ?y1 = sy_clock y" "lg_acked (sy_log ?y1) = lg_acked (sy_log y)"
    by (simp_all add: do_shutdown_def release_call_def)
  from draining_stops [OF y1(1)] obtain x' where
    x': "stops_at cf env ?y1 x'" "sy_clock x' = max (sy_clock ?y1) (sy_clock y + int (drain_timeout (cf_settings cf)))" by blast
  have "stops_at cf env y x'" using x'(1) by (rule stops_at_step [OF st y1(2,4)])
  with x'(2) y1(3) show ?thesis by (intro exI [of _ x']) simp
qed




section \<open>Construction\<close>

text \<open>A dispatcher is built exactly from sound settings: something may be in flight, batches are not
  empty, polling waits, the ordering is supported, a publish times out before its lease, two store
  calls fit in one lease, and the one retry policy in force is valid, a custom policy only where the
  configured backoff was left alone. It keeps the settings, and the worker id is the configured one
  or the generated one.\<close>

lemma dispatcher_build_iff:
  "dispatcher_build s policy fresh = Ok (s', p', w) \<longleftrightarrow>
     s' = s \<and> w = (case worker_id s of Some v \<Rightarrow> v | None \<Rightarrow> fresh)
     \<and> 0 < max_in_flight s \<and> batch_size s \<noteq> 0 \<and> 0 < poll_interval s \<and> 0 < idle_poll_interval s
     \<and> ordering s = Unordered \<and> publish_timeout s < lease s \<and> store_timeout s < lease s div 2
     \<and> (case policy of
          None \<Rightarrow> p' = Backoff (retry s) \<and> backoff_validate (retry s) = Ok ()
        | Some p \<Rightarrow> p' = p \<and> retry s = backoff_default
            \<and> (case p of Backoff b \<Rightarrow> backoff_validate b = Ok () | Custom _ \<Rightarrow> True))"
proof -
  have v: "validate_shared s = Ok () \<longleftrightarrow>
     0 < max_in_flight s \<and> batch_size s \<noteq> 0 \<and> 0 < poll_interval s \<and> 0 < idle_poll_interval s
     \<and> ordering s = Unordered \<and> publish_timeout s < lease s \<and> store_timeout s < lease s div 2"
    by (cases "ordering s") (auto simp: validate_shared_def)
  show ?thesis
  proof (cases "validate_shared s")
    case (Inl e)
    then show ?thesis using v by (auto simp: dispatcher_build_def)
  next
    case (Inr u)
    then show ?thesis using v
      by (cases policy; cases "backoff_validate (retry s)")
        (auto simp: dispatcher_build_def and_then_def Let_def split: RetryPolicy.splits sum.splits)
  qed
qed

end
