(* ===== verification/Nats_Subject.thy ===== *)
theory Nats_Subject
  imports Settings
begin

text \<open>
  \<^verbatim>\<open>reliar-transport-nats\<close>: the error enums of \<^verbatim>\<open>error.rs\<close>, subject resolution (\<^verbatim>\<open>subject.rs\<close>) and the
  publisher's settings with their environment loader (\<^verbatim>\<open>settings.rs\<close>). A \<^verbatim>\<open>Subject\<close> is its text. The
  readers \<^verbatim>\<open>env_raw\<close>, \<^verbatim>\<open>env_usize\<close> and \<^verbatim>\<open>env_duration_ms\<close> of this crate are the ones of \<^verbatim>\<open>reliar-outbox\<close>,
  line by line, and are shared with \<open>Settings\<close>.
\<close>

section \<open>Errors\<close>

datatype NatsMapError =
    MissingHeader string
  | MalformedHeader string
  | DuplicateHeader string
  | UnsupportedHeaderName string
  | ReservedHeaderName string
  | InvalidHeaderValue string
  | RejectedHeader string HeaderError

datatype SubjectError =
    SubjectEmpty
  | EmptyToken string
  | Wildcard string
  | IllegalCharacter string
  | SubjectTooLong nat nat

definition subject_max_len :: nat where
  "subject_max_len = 255"

type_synonym Subject = string

text \<open>A resolver's own error is boxed; it is the parameter \<open>'r\<close>.\<close>

datatype 'r NatsPublishError =
    NpMap NatsMapError
  | NpSubject 'r
  | PayloadTooLarge nat nat
  | MaxPayloadExceeded Subject
  | WrongLastMessage Subject
  | NpTimeout Subject nat
  | NpConnection Subject
  | StreamNotFound Subject
  | MaxAckPending Subject
  | NpBroker Subject

fun publish_error_kind :: "'r NatsPublishError \<Rightarrow> FailureKind" where
  "publish_error_kind (NpMap _) = Permanent"
| "publish_error_kind (NpSubject _) = Permanent"
| "publish_error_kind (PayloadTooLarge _ _) = Permanent"
| "publish_error_kind (MaxPayloadExceeded _) = Permanent"
| "publish_error_kind (WrongLastMessage _) = Permanent"
| "publish_error_kind (NpTimeout _ _) = Transient"
| "publish_error_kind (NpConnection _) = Transient"
| "publish_error_kind (StreamNotFound _) = Transient"
| "publish_error_kind (MaxAckPending _) = Transient"
| "publish_error_kind (NpBroker _) = Transient"

datatype NatsConfigError =
    ZeroBatchPipelineDepth
  | ZeroPublishTimeout
  | ZeroMaxPayload
  | NcSubject SubjectError

section \<open>Subjects\<close>

fun check_tokens :: "string \<Rightarrow> string list \<Rightarrow> (unit, SubjectError) result" where
  "check_tokens subject [] = Ok ()"
| "check_tokens subject (token # tokens) =
     (if token = [] then Err (EmptyToken subject)
      else if CHR ''*'' \<in> set token \<or> CHR ''>'' \<in> set token then Err (Wildcard subject)
      else check_tokens subject tokens)"

definition validate_subject :: "string \<Rightarrow> (unit, SubjectError) result" where
  "validate_subject subject =
     (if subject = [] then Err SubjectEmpty
      else if length subject > subject_max_len then Err (SubjectTooLong (length subject) subject_max_len)
      else if list_ex (\<lambda>c. \<not> (33 \<le> byte c \<and> byte c \<le> 126)) subject then Err (IllegalCharacter subject)
      else check_tokens subject (split_on (CHR ''.'') subject))"

datatype PrefixSubjects = PrefixSubjects (subjects_prefix: string)

definition default_prefix :: string where
  "default_prefix = ''reliar''"

definition prefix_subjects_new :: "string \<Rightarrow> (PrefixSubjects, SubjectError) result" where
  "prefix_subjects_new prefix = and_then (validate_subject prefix) (\<lambda>_. Ok (PrefixSubjects prefix))"

definition prefix_subjects_default :: PrefixSubjects where
  "prefix_subjects_default = PrefixSubjects default_prefix"

definition prefix_subject :: "PrefixSubjects \<Rightarrow> SerializedEnvelope \<Rightarrow> (Subject, SubjectError) result" where
  "prefix_subject self e =
     (let resolved = subjects_prefix self @ ''.'' @ message_type_display (message_type e)
      in and_then (validate_subject resolved) (\<lambda>_. Ok resolved))"

datatype DestinationSubjects = DestinationSubjects (subjects_fallback: PrefixSubjects)

definition destination_subjects_new :: "PrefixSubjects \<Rightarrow> DestinationSubjects" where
  "destination_subjects_new fallback = DestinationSubjects fallback"

definition destination_subject ::
    "DestinationSubjects \<Rightarrow> SerializedEnvelope \<Rightarrow> (Subject, SubjectError) result" where
  "destination_subject self e =
     (case destination (routing (metadata e)) of
        Some d \<Rightarrow> (let resolved = endpoint_as_str d
                   in and_then (validate_subject resolved) (\<lambda>_. Ok resolved))
      | None \<Rightarrow> prefix_subject (subjects_fallback self) e)"

section \<open>Settings\<close>

record NatsSettings =
  ns_subject_prefix :: string
  ns_publish_timeout :: duration
  ns_batch_pipeline_depth :: nat
  ns_max_payload :: "nat option"

definition nats_settings_default :: NatsSettings where
  "nats_settings_default =
     \<lparr>ns_subject_prefix = default_prefix, ns_publish_timeout = from_secs 10,
      ns_batch_pipeline_depth = 64, ns_max_payload = None\<rparr>"

definition nats_subject_prefix :: "string \<Rightarrow> NatsSettings \<Rightarrow> NatsSettings" where
  "nats_subject_prefix p s = s\<lparr>ns_subject_prefix := p\<rparr>"

definition nats_publish_timeout :: "duration \<Rightarrow> NatsSettings \<Rightarrow> NatsSettings" where
  "nats_publish_timeout d s = s\<lparr>ns_publish_timeout := d\<rparr>"

definition nats_batch_pipeline_depth :: "nat \<Rightarrow> NatsSettings \<Rightarrow> NatsSettings" where
  "nats_batch_pipeline_depth n s = s\<lparr>ns_batch_pipeline_depth := n\<rparr>"

definition nats_max_payload :: "nat option \<Rightarrow> NatsSettings \<Rightarrow> NatsSettings" where
  "nats_max_payload m s = s\<lparr>ns_max_payload := m\<rparr>"

text \<open>U+2014 in UTF-8.\<close>

definition em_dash :: string where
  "em_dash = [CHR 0xE2, CHR 0x80, CHR 0x94]"

text \<open>One block of the loader: a present value is checked, then stored.\<close>

definition env_checked ::
    "('a option, SettingsError) result \<Rightarrow> ('a \<Rightarrow> (unit, SettingsError) result)
     \<Rightarrow> ('a \<Rightarrow> NatsSettings \<Rightarrow> NatsSettings) \<Rightarrow> NatsSettings \<Rightarrow> (NatsSettings, SettingsError) result" where
  "env_checked read check store s =
     and_then read (\<lambda>v. case v of None \<Rightarrow> Ok s | Some x \<Rightarrow> and_then (check x) (\<lambda>_. Ok (store x s)))"

definition nats_from_env :: "env \<Rightarrow> string \<Rightarrow> (NatsSettings, SettingsError) result" where
  "nats_from_env env prefix =
     and_then (env_checked (env_raw env prefix ''SUBJECT_PREFIX'')
         (\<lambda>v. map_err (\<lambda>_. OutOfRange (prefix @ ''SUBJECT_PREFIX'') ''must be a legal NATS subject prefix'')
            (validate_subject v))
         nats_subject_prefix nats_settings_default) (\<lambda>s1.
     and_then (env_checked (env_duration_ms env prefix ''PUBLISH_TIMEOUT_MS'')
         (\<lambda>v. if v = 0 then Err (OutOfRange (prefix @ ''PUBLISH_TIMEOUT_MS'') ''must be greater than zero'')
              else Ok ())
         nats_publish_timeout s1) (\<lambda>s2.
     and_then (env_checked (env_usize env prefix ''BATCH_PIPELINE_DEPTH'')
         (\<lambda>v. if v = 0 then Err (OutOfRange (prefix @ ''BATCH_PIPELINE_DEPTH'') ''must be greater than zero'')
              else Ok ())
         nats_batch_pipeline_depth s2) (\<lambda>s3.
     env_checked (env_usize env prefix ''MAX_PAYLOAD_BYTES'')
         (\<lambda>v. if v = 0 then Err (OutOfRange (prefix @ ''MAX_PAYLOAD_BYTES'')
                 (''must be greater than zero '' @ em_dash @ '' a zero max_payload would reject every message''))
              else Ok ())
         (\<lambda>v. nats_max_payload (Some v)) s3)))"

section \<open>Legal subjects\<close>

text \<open>A legal subject, without splitting it: printable, no wildcard character, dots only between
  other characters.\<close>

definition subject_ok :: "string \<Rightarrow> bool" where
  "subject_ok s \<longleftrightarrow>
     s \<noteq> [] \<and> length s \<le> subject_max_len
     \<and> (\<forall>c \<in> set s. 33 \<le> byte c \<and> byte c \<le> 126 \<and> c \<noteq> CHR ''*'' \<and> c \<noteq> CHR ''>'')
     \<and> hd s \<noteq> CHR ''.'' \<and> last s \<noteq> CHR ''.''
     \<and> (\<forall>a b. s \<noteq> a @ ''..'' @ b)"

lemma check_tokens_Ok:
  "check_tokens s ts = Ok () \<longleftrightarrow> (\<forall>t \<in> set ts. t \<noteq> [] \<and> CHR ''*'' \<notin> set t \<and> CHR ''>'' \<notin> set t)"
  by (induction ts) auto

lemma set_split_on: "(\<exists>t \<in> set (split_on d s). c \<in> set t) \<longleftrightarrow> c \<in> set s \<and> c \<noteq> d"
  by (induction s) (auto split: list.splits)

lemma hd_split_on: "hd (split_on d s) = [] \<longleftrightarrow> s = [] \<or> hd s = d"
  by (cases s) (auto split: list.splits)

lemma double_Cons:
  "(\<exists>a b. c # s = a @ [d, d] @ b) \<longleftrightarrow> c = d \<and> s \<noteq> [] \<and> hd s = d \<or> (\<exists>a b. s = a @ [d, d] @ b)"
proof
  assume "\<exists>a b. c # s = a @ [d, d] @ b"
  then obtain a b where "c # s = a @ [d, d] @ b" by blast
  then show "c = d \<and> s \<noteq> [] \<and> hd s = d \<or> (\<exists>a b. s = a @ [d, d] @ b)" by (cases a) auto
next
  assume "c = d \<and> s \<noteq> [] \<and> hd s = d \<or> (\<exists>a b. s = a @ [d, d] @ b)"
  then show "\<exists>a b. c # s = a @ [d, d] @ b"
  proof
    assume "c = d \<and> s \<noteq> [] \<and> hd s = d"
    then have "c # s = [] @ [d, d] @ tl s" by (cases s) auto
    then show ?thesis by blast
  next
    assume "\<exists>a b. s = a @ [d, d] @ b"
    then obtain a b where "c # s = (c # a) @ [d, d] @ b" by auto
    then show ?thesis by blast
  qed
qed

lemma tl_split_on:
  "[] \<in> set (tl (split_on d s)) \<longleftrightarrow> s \<noteq> [] \<and> (last s = d \<or> (\<exists>a b. s = a @ [d, d] @ b))"
proof (induction s)
  case Nil
  then show ?case by simp
next
  case (Cons c s)
  obtain t ts where t: "split_on d s = t # ts" by (cases "split_on d s") auto
  have "t = [] \<longleftrightarrow> s = [] \<or> hd s = d" using hd_split_on [of d s] by (simp add: t)
  with Cons show ?case unfolding double_Cons by (auto simp: t)
qed

lemma split_on_Nil_token:
  assumes "s \<noteq> []"
  shows "[] \<in> set (split_on d s) \<longleftrightarrow> hd s = d \<or> last s = d \<or> (\<exists>a b. s = a @ [d, d] @ b)"
proof -
  have "[] \<in> set (split_on d s) \<longleftrightarrow> hd (split_on d s) = [] \<or> [] \<in> set (tl (split_on d s))"
    by (cases "split_on d s") (auto dest: sym)
  then show ?thesis using assms by (simp add: hd_split_on tl_split_on)
qed

lemma validate_subject_iff: "validate_subject s = Ok () \<longleftrightarrow> subject_ok s"
proof (cases "s = []")
  case False
  have "(\<forall>t \<in> set (split_on (CHR ''.'') s). t \<noteq> [] \<and> CHR ''*'' \<notin> set t \<and> CHR ''>'' \<notin> set t)
      \<longleftrightarrow> [] \<notin> set (split_on (CHR ''.'') s) \<and> CHR ''*'' \<notin> set s \<and> CHR ''>'' \<notin> set s"
    (is "?L \<longleftrightarrow> _")
  proof -
    have "?L \<longleftrightarrow> [] \<notin> set (split_on (CHR ''.'') s)
        \<and> \<not> (\<exists>t \<in> set (split_on (CHR ''.'') s). CHR ''*'' \<in> set t)
        \<and> \<not> (\<exists>t \<in> set (split_on (CHR ''.'') s). CHR ''>'' \<in> set t)" by blast
    then show ?thesis unfolding set_split_on by simp
  qed
  moreover define D where "D \<longleftrightarrow> (\<exists>a b. s = a @ ''..'' @ b)"
  moreover have "[] \<in> set (split_on (CHR ''.'') s) \<longleftrightarrow> hd s = CHR ''.'' \<or> last s = CHR ''.'' \<or> D"
    unfolding D_def by (rule split_on_Nil_token [OF False])
  ultimately have tokens: "check_tokens s (split_on (CHR ''.'') s) = Ok () \<longleftrightarrow>
      hd s \<noteq> CHR ''.'' \<and> last s \<noteq> CHR ''.'' \<and> \<not> D \<and> CHR ''*'' \<notin> set s \<and> CHR ''>'' \<notin> set s"
    unfolding check_tokens_Ok by simp
  have ok: "subject_ok s \<longleftrightarrow> length s \<le> subject_max_len
      \<and> (\<forall>c \<in> set s. 33 \<le> byte c \<and> byte c \<le> 126 \<and> c \<noteq> CHR ''*'' \<and> c \<noteq> CHR ''>'')
      \<and> hd s \<noteq> CHR ''.'' \<and> last s \<noteq> CHR ''.'' \<and> \<not> D"
    unfolding subject_ok_def D_def using False by blast
  show ?thesis unfolding ok using False tokens by (auto simp: validate_subject_def list_ex_iff)
qed (simp add: validate_subject_def subject_ok_def)

text \<open>C36. Subject validation accepts exactly the literal NATS subjects: between 1 and 255 bytes, all
  printable ASCII, no wildcard character anywhere, no dot at either end and no two dots in a row.
  Whatever a prefix resolver returns is such a subject, is the prefix, a dot and the rendered
  message type, and with one prefix two message types never share a subject; a destination
  resolver returns the envelope's destination verbatim or what its fallback returns.\<close>

theorem subjects_legal:
  "(validate_subject s = Ok () \<longleftrightarrow> subject_ok s)
   \<and> (prefix_subject p e = Ok t \<longleftrightarrow>
        t = subjects_prefix p @ ''.'' @ message_type_display (message_type e) \<and> subject_ok t)
   \<and> (prefix_subject p e = Ok t \<and> prefix_subject p e' = Ok t \<longrightarrow> message_type e = message_type e')
   \<and> (destination_subject d e = Ok t \<longleftrightarrow>
        (case destination (routing (metadata e)) of
           Some a \<Rightarrow> t = endpoint_as_str a \<and> subject_ok t
         | None \<Rightarrow> prefix_subject (subjects_fallback d) e = Ok t))"
proof (intro conjI impI)
  show "validate_subject s = Ok () \<longleftrightarrow> subject_ok s" by (rule validate_subject_iff)
  have p: "prefix_subject p e = Ok t \<longleftrightarrow>
      t = subjects_prefix p @ ''.'' @ message_type_display (message_type e) \<and> subject_ok t" for p e t
    by (auto simp: prefix_subject_def Let_def and_then_eq_Ok_iff validate_subject_iff)
  then show "prefix_subject p e = Ok t \<longleftrightarrow>
      t = subjects_prefix p @ ''.'' @ message_type_display (message_type e) \<and> subject_ok t" .
  show "message_type e = message_type e'" if "prefix_subject p e = Ok t \<and> prefix_subject p e' = Ok t"
    using that by (auto simp: p intro: message_type_display_eq)
  show "destination_subject d e = Ok t \<longleftrightarrow>
        (case destination (routing (metadata e)) of
           Some a \<Rightarrow> t = endpoint_as_str a \<and> subject_ok t
         | None \<Rightarrow> prefix_subject (subjects_fallback d) e = Ok t)"
    by (auto simp: destination_subject_def Let_def and_then_eq_Ok_iff validate_subject_iff split: option.splits)
qed

text \<open>An instance: two versions of one message under the prefix \<^verbatim>\<open>reliar\<close>, and a wildcard refused.\<close>

theorem subjects_legal_witness:
  "prefix_subject prefix_subjects_default (build \<lparr>mt_name = ''orders.created'', mt_version = 1\<rparr> 5 (builder_new ''{}''))
     = Ok ''reliar.orders.created.v1''
   \<and> subject_ok ''reliar.orders.created.v1'' \<and> \<not> subject_ok ''orders.*''"
proof -
  have "validate_subject ''orders.*'' = Err (Wildcard ''orders.*'')" by code_simp
  moreover have ok: "prefix_subject prefix_subjects_default
      (build \<lparr>mt_name = ''orders.created'', mt_version = 1\<rparr> 5 (builder_new ''{}''))
     = Ok ''reliar.orders.created.v1''" by code_simp
  moreover have "subject_ok ''reliar.orders.created.v1''"
    using subjects_legal [THEN conjunct2, THEN conjunct1, THEN iffD1, OF ok] by blast
  moreover have "\<not> subject_ok ''orders.*''"
    using subjects_legal [of "''orders.*''", THEN conjunct1] calculation(1) by (metis sum.distinct(1))
  ultimately show ?thesis by blast
qed

section \<open>Loaded settings\<close>

lemma env_checked_Ok:
  "env_checked read check store s = Ok s' \<longleftrightarrow>
     s' = s \<and> read = Ok None \<or> (\<exists>x. read = Ok (Some x) \<and> check x = Ok () \<and> s' = store x s)"
  by (cases read) (auto simp: env_checked_def and_then_eq_Ok_iff split: option.splits)

lemma if_Err_Ok: "(if b then Err e else Ok ()) = Ok () \<longleftrightarrow> \<not> b"
  by simp

text \<open>The loader goes over four variables, each one left alone or read, checked and stored.\<close>

lemma nats_from_env_steps:
  assumes "nats_from_env env prefix = Ok s"
  obtains s1 s2 s3 where
    "s1 = nats_settings_default \<and> env_raw env prefix ''SUBJECT_PREFIX'' = Ok None
      \<or> (\<exists>v. env_raw env prefix ''SUBJECT_PREFIX'' = Ok (Some v) \<and> subject_ok v
          \<and> s1 = nats_subject_prefix v nats_settings_default)"
    "s2 = s1 \<and> env_duration_ms env prefix ''PUBLISH_TIMEOUT_MS'' = Ok None
      \<or> (\<exists>v. env_duration_ms env prefix ''PUBLISH_TIMEOUT_MS'' = Ok (Some v) \<and> v \<noteq> 0
          \<and> s2 = nats_publish_timeout v s1)"
    "s3 = s2 \<and> env_usize env prefix ''BATCH_PIPELINE_DEPTH'' = Ok None
      \<or> (\<exists>v. env_usize env prefix ''BATCH_PIPELINE_DEPTH'' = Ok (Some v) \<and> v \<noteq> 0
          \<and> s3 = nats_batch_pipeline_depth v s2)"
    "s = s3 \<and> env_usize env prefix ''MAX_PAYLOAD_BYTES'' = Ok None
      \<or> (\<exists>v. env_usize env prefix ''MAX_PAYLOAD_BYTES'' = Ok (Some v) \<and> v \<noteq> 0
          \<and> s = nats_max_payload (Some v) s3)"
  using assms unfolding nats_from_env_def and_then_eq_Ok_iff env_checked_Ok if_Err_Ok map_err_eq_Ok_iff validate_subject_iff
  by blast

lemma nats_from_env_reads:
  assumes "\<forall>k \<in> {''SUBJECT_PREFIX'', ''PUBLISH_TIMEOUT_MS'', ''BATCH_PIPELINE_DEPTH'', ''MAX_PAYLOAD_BYTES''}.
      env' (prefix @ k) = env (prefix @ k)"
  shows "nats_from_env env' prefix = nats_from_env env prefix"
  using assms by (simp add: nats_from_env_def env_duration_ms_def env_usize_def env_parsed_def env_raw_def)

lemma env_absent:
  assumes "env (prefix @ k) = NotPresent"
  shows "env_raw env prefix k = Ok None" "env_duration_ms env prefix k = Ok None" "env_usize env prefix k = Ok None"
  using assms by (simp_all add: env_raw_def env_duration_ms_def env_usize_def env_parsed_def)

lemma nats_settings_default_fields:
  "ns_subject_prefix nats_settings_default = ''reliar''" "subject_ok ''reliar''"
  "ns_publish_timeout nats_settings_default = from_secs 10" "0 < from_secs 10"
  "ns_batch_pipeline_depth nats_settings_default = 64" "ns_max_payload nats_settings_default = None"
proof -
  have "validate_subject ''reliar'' = Ok ()" by code_simp
  then show "subject_ok ''reliar''" by (simp add: validate_subject_iff)
qed (simp_all add: nats_settings_default_def default_prefix_def from_secs_def nanos_per_sec_def)

lemmas nats_setters = nats_subject_prefix_def nats_publish_timeout_def nats_batch_pipeline_depth_def nats_max_payload_def

text \<open>Settings loaded from the environment can be used: the prefix is a legal subject, the timeout,
  the pipeline depth and a declared payload limit are not zero; a variable that is absent leaves its
  default. The loader reads the four documented variables and nothing else.\<close>

lemma nats_from_env_sound:
  assumes "nats_from_env env prefix = Ok s"
  shows "subject_ok (ns_subject_prefix s) \<and> 0 < ns_publish_timeout s \<and> 0 < ns_batch_pipeline_depth s
    \<and> ns_max_payload s \<noteq> Some 0
    \<and> (env (prefix @ ''SUBJECT_PREFIX'') = NotPresent \<longrightarrow> ns_subject_prefix s = ''reliar'')
    \<and> (env (prefix @ ''PUBLISH_TIMEOUT_MS'') = NotPresent \<longrightarrow> ns_publish_timeout s = from_secs 10)
    \<and> (env (prefix @ ''BATCH_PIPELINE_DEPTH'') = NotPresent \<longrightarrow> ns_batch_pipeline_depth s = 64)
    \<and> (env (prefix @ ''MAX_PAYLOAD_BYTES'') = NotPresent \<longrightarrow> ns_max_payload s = None)
    \<and> (\<forall>env'. (\<forall>k \<in> {''SUBJECT_PREFIX'', ''PUBLISH_TIMEOUT_MS'', ''BATCH_PIPELINE_DEPTH'', ''MAX_PAYLOAD_BYTES''}.
          env' (prefix @ k) = env (prefix @ k)) \<longrightarrow> nats_from_env env' prefix = Ok s)"
proof -
  obtain s1 s2 s3 where
    s: "s1 = nats_settings_default \<and> env_raw env prefix ''SUBJECT_PREFIX'' = Ok None
      \<or> (\<exists>v. env_raw env prefix ''SUBJECT_PREFIX'' = Ok (Some v) \<and> subject_ok v
          \<and> s1 = nats_subject_prefix v nats_settings_default)"
    "s2 = s1 \<and> env_duration_ms env prefix ''PUBLISH_TIMEOUT_MS'' = Ok None
      \<or> (\<exists>v. env_duration_ms env prefix ''PUBLISH_TIMEOUT_MS'' = Ok (Some v) \<and> v \<noteq> 0 \<and> s2 = nats_publish_timeout v s1)"
    "s3 = s2 \<and> env_usize env prefix ''BATCH_PIPELINE_DEPTH'' = Ok None
      \<or> (\<exists>v. env_usize env prefix ''BATCH_PIPELINE_DEPTH'' = Ok (Some v) \<and> v \<noteq> 0 \<and> s3 = nats_batch_pipeline_depth v s2)"
    "s = s3 \<and> env_usize env prefix ''MAX_PAYLOAD_BYTES'' = Ok None
      \<or> (\<exists>v. env_usize env prefix ''MAX_PAYLOAD_BYTES'' = Ok (Some v) \<and> v \<noteq> 0 \<and> s = nats_max_payload (Some v) s3)"
    using assms by (rule nats_from_env_steps)
  note d = nats_settings_default_fields and absent = env_absent [of env prefix]
  have f: "ns_subject_prefix s = ns_subject_prefix s1" "ns_publish_timeout s = ns_publish_timeout s2"
    "ns_batch_pipeline_depth s = ns_batch_pipeline_depth s3"
    "ns_publish_timeout s1 = from_secs 10" "ns_batch_pipeline_depth s2 = 64" "ns_max_payload s3 = None"
    using s d(3,5,6) by (auto simp: nats_setters)
  have "subject_ok (ns_subject_prefix s)" using s(1) d(1,2) unfolding f(1) by (auto simp: nats_setters)
  moreover have "0 < ns_publish_timeout s" using s(2) f(4) d(4) unfolding f(2) by (auto simp: nats_setters)
  moreover have "0 < ns_batch_pipeline_depth s" using s(3) f(5) unfolding f(3) by (auto simp: nats_setters)
  moreover have "ns_max_payload s \<noteq> Some 0" using s(4) f(6) by (auto simp: nats_setters)
  moreover have "env (prefix @ ''SUBJECT_PREFIX'') = NotPresent \<longrightarrow> ns_subject_prefix s = ''reliar''"
    using s(1) absent(1) d(1) unfolding f(1) by auto
  moreover have "env (prefix @ ''PUBLISH_TIMEOUT_MS'') = NotPresent \<longrightarrow> ns_publish_timeout s = from_secs 10"
    using s(2) absent(2) f(4) unfolding f(2) by auto
  moreover have "env (prefix @ ''BATCH_PIPELINE_DEPTH'') = NotPresent \<longrightarrow> ns_batch_pipeline_depth s = 64"
    using s(3) absent(3) f(5) unfolding f(3) by auto
  moreover have "env (prefix @ ''MAX_PAYLOAD_BYTES'') = NotPresent \<longrightarrow> ns_max_payload s = None"
    using s(4) absent(3) f(6) by auto
  moreover have "\<forall>env'. (\<forall>k \<in> {''SUBJECT_PREFIX'', ''PUBLISH_TIMEOUT_MS'', ''BATCH_PIPELINE_DEPTH'', ''MAX_PAYLOAD_BYTES''}.
          env' (prefix @ k) = env (prefix @ k)) \<longrightarrow> nats_from_env env' prefix = Ok s"
    unfolding assms [symmetric] by (intro allI impI) (rule nats_from_env_reads)
  ultimately show ?thesis by (intro conjI)
qed

text \<open>An instance: a declared payload limit, everything else absent.\<close>

definition limit_env :: env where
  "limit_env k = (if k = ''RELIAR_NATS_MAX_PAYLOAD_BYTES'' then Present ''4096'' else NotPresent)"

theorem nats_from_env_sound_witness:
  "nats_from_env limit_env ''RELIAR_NATS_'' = Ok (nats_max_payload (Some 4096) nats_settings_default)
   \<and> subject_ok (ns_subject_prefix (nats_max_payload (Some 4096) nats_settings_default))"
proof -
  have "nats_from_env limit_env ''RELIAR_NATS_'' = Ok (nats_max_payload (Some 4096) nats_settings_default)"
    by code_simp
  with nats_from_env_sound [OF this] show ?thesis by blast
qed

end
