(* ===== verification/Nats_Mapper.thy ===== *)
theory Nats_Mapper
  imports Nats_Subject
begin

text \<open>
  \<^verbatim>\<open>reliar-transport-nats/src/mapper.rs\<close> and \<^verbatim>\<open>headers.rs\<close>: the projection of an envelope onto NATS headers
  and a payload, and back. What the mapper uses of \<^verbatim>\<open>async-nats\<close>, \<^verbatim>\<open>uuid\<close> and \<^verbatim>\<open>time\<close> is the record
  \<open>NatsLib\<close>, an argument of every definition: which header names and values are accepted, insertion
  into a header map, the text forms of UUIDs and of timestamps. A header map is the list of its
  entries in iteration order, which the library leaves open; \<open>nats_lib_ok\<close> names what is relied upon.
\<close>

section \<open>The libraries\<close>

type_synonym HeaderMap = "(string \<times> string list) list"

record NatsLib =
  nl_name_ok :: "string \<Rightarrow> bool"
  nl_value_ok :: "string \<Rightarrow> bool"
  nl_insert :: "string \<Rightarrow> string \<Rightarrow> HeaderMap \<Rightarrow> HeaderMap"
  nl_uuid_show :: "uuid \<Rightarrow> string"
  nl_uuid_parse :: "string \<Rightarrow> uuid option"
  nl_time_format :: "instant \<Rightarrow> string option"
  nl_time_parse :: "string \<Rightarrow> instant option"

section \<open>Header names\<close>

definition h_message_id :: string where "h_message_id = ''reliar-message-id''"
definition h_message_type :: string where "h_message_type = ''reliar-message-type''"
definition h_message_version :: string where "h_message_version = ''reliar-message-version''"
definition h_content_type :: string where "h_content_type = ''reliar-content-type''"
definition h_correlation_id :: string where "h_correlation_id = ''reliar-correlation-id''"
definition h_conversation_id :: string where "h_conversation_id = ''reliar-conversation-id''"
definition h_causation_id :: string where "h_causation_id = ''reliar-causation-id''"
definition h_request_id :: string where "h_request_id = ''reliar-request-id''"
definition h_tenant_id :: string where "h_tenant_id = ''reliar-tenant-id''"
definition h_sent_at :: string where "h_sent_at = ''reliar-sent-at''"
definition h_expires_at :: string where "h_expires_at = ''reliar-expires-at''"
definition h_source :: string where "h_source = ''reliar-source''"
definition h_destination :: string where "h_destination = ''reliar-destination''"
definition h_reply_to :: string where "h_reply_to = ''reliar-reply-to''"
definition h_traceparent :: string where "h_traceparent = ''traceparent''"
definition h_tracestate :: string where "h_tracestate = ''tracestate''"
definition h_nats_msg_id :: string where "h_nats_msg_id = ''Nats-Msg-Id''"
definition h_reliar_prefix :: string where "h_reliar_prefix = ''reliar-''"
definition h_nats_prefix :: string where "h_nats_prefix = ''Nats-''"

section \<open>The wire form\<close>

record NatsWireMessage =
  wire_headers :: HeaderMap
  wire_payload :: bytes

definition wire_message_new :: "HeaderMap \<Rightarrow> bytes \<Rightarrow> NatsWireMessage" where
  "wire_message_new hs p = \<lparr>wire_headers = hs, wire_payload = p\<rparr>"

definition wire_into_parts :: "NatsWireMessage \<Rightarrow> HeaderMap \<times> bytes" where
  "wire_into_parts m = (wire_headers m, wire_payload m)"

text \<open>\<^verbatim>\<open>From<async_nats::Message>\<close>: a received message's headers, if any, and its payload.\<close>

definition wire_from_message :: "HeaderMap option \<Rightarrow> bytes \<Rightarrow> NatsWireMessage" where
  "wire_from_message headers payload =
     \<lparr>wire_headers = (case headers of Some h \<Rightarrow> h | None \<Rightarrow> []), wire_payload = payload\<rparr>"

definition wire_len :: "NatsWireMessage \<Rightarrow> nat" where
  "wire_len m =
     (if wire_headers m = [] then length (wire_payload m)
      else 10 + 2 + sum_list (map (\<lambda>(name, values).
             sum_list (map (\<lambda>v. length name + 2 + length v + 2) values)) (wire_headers m))
           + length (wire_payload m))"

section \<open>Encoding\<close>

definition header_value :: "NatsLib \<Rightarrow> string \<Rightarrow> string \<Rightarrow> (string, NatsMapError) result" where
  "header_value lib header s = (if nl_value_ok lib s then Ok s else Err (InvalidHeaderValue header))"

definition rfc3339_utc :: "NatsLib \<Rightarrow> instant \<Rightarrow> string \<Rightarrow> (string, NatsMapError) result" where
  "rfc3339_utc lib t header = ok_or (InvalidHeaderValue header) (nl_time_format lib t)"

definition trace_override_name :: "string \<Rightarrow> string option" where
  "trace_override_name key =
     (if eq_ignore_ascii_case key h_traceparent then Some h_traceparent
      else if eq_ignore_ascii_case key h_tracestate then Some h_tracestate
      else None)"

text \<open>The loop over the custom headers. The two flags say which trace header a custom key wrote.\<close>

fun encode_custom ::
    "NatsLib \<Rightarrow> TraceContext \<Rightarrow> (string \<times> string) list \<Rightarrow> HeaderMap \<Rightarrow> bool \<Rightarrow> bool
     \<Rightarrow> (HeaderMap, NatsMapError) result" where
  "encode_custom lib tc [] headers tp ts = Ok headers"
| "encode_custom lib tc ((key, value) # rest) headers tp ts =
     (if starts_with_ci key h_nats_prefix then Err (ReservedHeaderName key)
      else case trace_override_name key of
        Some canonical \<Rightarrow>
          (let framework_value_set =
             (if canonical = h_traceparent then traceparent tc \<noteq> None else tracestate tc \<noteq> None)
           in if framework_value_set then encode_custom lib tc rest headers tp ts
              else if (if canonical = h_traceparent then tp else ts) then Err (DuplicateHeader canonical)
              else and_then (header_value lib canonical value) (\<lambda>v.
                encode_custom lib tc rest (nl_insert lib canonical v headers)
                  (tp \<or> canonical = h_traceparent) (ts \<or> canonical \<noteq> h_traceparent)))
      | None \<Rightarrow>
          if \<not> nl_name_ok lib key then Err (UnsupportedHeaderName key)
          else if \<not> nl_value_ok lib value then Err (InvalidHeaderValue key)
          else encode_custom lib tc rest (nl_insert lib key value headers) tp ts)"

definition put ::
    "NatsLib \<Rightarrow> string \<Rightarrow> string \<Rightarrow> HeaderMap \<Rightarrow> (HeaderMap, NatsMapError) result" where
  "put lib name s headers = and_then (header_value lib name s) (\<lambda>v. Ok (nl_insert lib name v headers))"

definition put_opt ::
    "NatsLib \<Rightarrow> string \<Rightarrow> string option \<Rightarrow> HeaderMap \<Rightarrow> (HeaderMap, NatsMapError) result" where
  "put_opt lib name v headers = (case v of None \<Rightarrow> Ok headers | Some s \<Rightarrow> put lib name s headers)"

definition put_time ::
    "NatsLib \<Rightarrow> string \<Rightarrow> instant option \<Rightarrow> HeaderMap \<Rightarrow> (HeaderMap, NatsMapError) result" where
  "put_time lib name v headers =
     (case v of None \<Rightarrow> Ok headers
      | Some t \<Rightarrow> and_then (rfc3339_utc lib t name) (\<lambda>s. put lib name s headers))"

definition insert_routing_trace_and_dedup_headers ::
    "NatsLib \<Rightarrow> SerializedEnvelope \<Rightarrow> HeaderMap \<Rightarrow> (HeaderMap, NatsMapError) result" where
  "insert_routing_trace_and_dedup_headers lib e m0 =
     (let md = metadata e in
     and_then (put_time lib h_sent_at (sent_at (delivery md)) m0) (\<lambda>m1.
     and_then (put_time lib h_expires_at (expires_at (delivery md)) m1) (\<lambda>m2.
     and_then (put_opt lib h_source (map_option endpoint_as_str (source (routing md))) m2) (\<lambda>m3.
     and_then (put_opt lib h_destination (map_option endpoint_as_str (destination (routing md))) m3) (\<lambda>m4.
     and_then (put_opt lib h_reply_to (map_option endpoint_as_str (reply_to (routing md))) m4) (\<lambda>m5.
     and_then (put_opt lib h_traceparent (traceparent (trace md)) m5) (\<lambda>m6.
     and_then (put_opt lib h_tracestate (tracestate (trace md)) m6) (\<lambda>m7.
     put lib h_nats_msg_id
       (case deduplication_id (delivery md) of Some d \<Rightarrow> d | None \<Rightarrow> nl_uuid_show lib (env_id e)) m7))))))))"

definition insert_framework_headers ::
    "NatsLib \<Rightarrow> SerializedEnvelope \<Rightarrow> HeaderMap \<Rightarrow> (HeaderMap, NatsMapError) result" where
  "insert_framework_headers lib e m0 =
     (let md = metadata e; co = correlation md in
     and_then (put lib h_message_id (nl_uuid_show lib (env_id e)) m0) (\<lambda>m1.
     and_then (put lib h_message_type (mt_name (message_type e)) m1) (\<lambda>m2.
     and_then (put lib h_message_version (show_nat (unat (mt_version (message_type e)))) m2) (\<lambda>m3.
     and_then (put lib h_content_type (content_type_as_str (content_type (delivery md))) m3) (\<lambda>m4.
     and_then (put_opt lib h_correlation_id (map_option correlation_id_as_str (correlation_id co)) m4) (\<lambda>m5.
     and_then (put_opt lib h_conversation_id
       (if is_unset (conversation_id co) then None else Some (nl_uuid_show lib (conversation_id co))) m5) (\<lambda>m6.
     and_then (put_opt lib h_causation_id (map_option (nl_uuid_show lib) (causation_id co)) m6) (\<lambda>m7.
     and_then (put_opt lib h_request_id (map_option (nl_uuid_show lib) (request_id co)) m7) (\<lambda>m8.
     and_then (put_opt lib h_tenant_id (tenant_id md) m8) (\<lambda>m9.
     insert_routing_trace_and_dedup_headers lib e m9))))))))))"

definition encode :: "NatsLib \<Rightarrow> SerializedEnvelope \<Rightarrow> (NatsWireMessage, NatsMapError) result" where
  "encode lib e =
     and_then (case env_headers e of
                 Some custom \<Rightarrow> encode_custom lib (trace (metadata e)) custom [] False False
               | None \<Rightarrow> Ok []) (\<lambda>headers.
     and_then (insert_framework_headers lib e headers) (\<lambda>headers'.
     Ok (wire_message_new headers' (body e))))"

section \<open>Decoding\<close>

datatype HeaderKind =
    HkMessageId | HkMessageType | HkMessageVersion | HkContentType | HkCorrelationId | HkConversationId
  | HkCausationId | HkRequestId | HkTenantId | HkSentAt | HkExpiresAt | HkSource | HkDestination | HkReplyTo
  | HkTraceparent | HkTracestate | HkNatsMsgId | HkNatsBookkeeping | HkUnknownReliar | HkCustom

definition classify_header :: "string \<Rightarrow> HeaderKind" where
  "classify_header name =
     (if eq_ignore_ascii_case name h_message_id then HkMessageId
      else if eq_ignore_ascii_case name h_message_type then HkMessageType
      else if eq_ignore_ascii_case name h_message_version then HkMessageVersion
      else if eq_ignore_ascii_case name h_content_type then HkContentType
      else if eq_ignore_ascii_case name h_correlation_id then HkCorrelationId
      else if eq_ignore_ascii_case name h_conversation_id then HkConversationId
      else if eq_ignore_ascii_case name h_causation_id then HkCausationId
      else if eq_ignore_ascii_case name h_request_id then HkRequestId
      else if eq_ignore_ascii_case name h_tenant_id then HkTenantId
      else if eq_ignore_ascii_case name h_sent_at then HkSentAt
      else if eq_ignore_ascii_case name h_expires_at then HkExpiresAt
      else if eq_ignore_ascii_case name h_source then HkSource
      else if eq_ignore_ascii_case name h_destination then HkDestination
      else if eq_ignore_ascii_case name h_reply_to then HkReplyTo
      else if eq_ignore_ascii_case name h_traceparent then HkTraceparent
      else if eq_ignore_ascii_case name h_tracestate then HkTracestate
      else if eq_ignore_ascii_case name h_nats_msg_id then HkNatsMsgId
      else if starts_with_ci name h_nats_prefix then HkNatsBookkeeping
      else if starts_with_ci name h_reliar_prefix then HkUnknownReliar
      else HkCustom)"

text \<open>The canonical name of each recognised header: the constant its \<^verbatim>\<open>scan\<close> branch names.\<close>

fun header_const :: "HeaderKind \<Rightarrow> string" where
  "header_const HkMessageId = h_message_id"
| "header_const HkMessageType = h_message_type"
| "header_const HkMessageVersion = h_message_version"
| "header_const HkContentType = h_content_type"
| "header_const HkCorrelationId = h_correlation_id"
| "header_const HkConversationId = h_conversation_id"
| "header_const HkCausationId = h_causation_id"
| "header_const HkRequestId = h_request_id"
| "header_const HkTenantId = h_tenant_id"
| "header_const HkSentAt = h_sent_at"
| "header_const HkExpiresAt = h_expires_at"
| "header_const HkSource = h_source"
| "header_const HkDestination = h_destination"
| "header_const HkReplyTo = h_reply_to"
| "header_const HkTraceparent = h_traceparent"
| "header_const HkTracestate = h_tracestate"
| "header_const HkNatsMsgId = h_nats_msg_id"
| "header_const HkNatsBookkeeping = h_nats_prefix"
| "header_const HkUnknownReliar = h_reliar_prefix"
| "header_const HkCustom = []"

text \<open>The scanned values: one slot for each recognised header, and the custom headers.\<close>

record ScannedHeaders =
  sc_slot :: "HeaderKind \<Rightarrow> string option"
  sc_custom :: "Headers option"

definition scanned_default :: ScannedHeaders where
  "scanned_default = \<lparr>sc_slot = (\<lambda>_. None), sc_custom = None\<rparr>"

definition assign_once ::
    "HeaderKind \<Rightarrow> string list \<Rightarrow> ScannedHeaders \<Rightarrow> (ScannedHeaders, NatsMapError) result" where
  "assign_once k values s =
     (if sc_slot s k \<noteq> None \<or> length values \<noteq> 1 then Err (DuplicateHeader (header_const k))
      else Ok (s\<lparr>sc_slot := (sc_slot s)(k := Some (values ! 0))\<rparr>))"

definition scan_custom ::
    "string \<Rightarrow> string list \<Rightarrow> ScannedHeaders \<Rightarrow> (ScannedHeaders, NatsMapError) result" where
  "scan_custom name values s =
     (let value = (case values of [] \<Rightarrow> [] | v # _ \<Rightarrow> v);
          custom = (case sc_custom s of Some h \<Rightarrow> h | None \<Rightarrow> headers_default)
      in and_then (map_err (RejectedHeader name) (headers_insert name value custom)) (\<lambda>(h, _).
           Ok (s\<lparr>sc_custom := Some h\<rparr>)))"

fun scan :: "HeaderMap \<Rightarrow> ScannedHeaders \<Rightarrow> (ScannedHeaders, NatsMapError) result" where
  "scan [] s = Ok s"
| "scan ((name, values) # rest) s =
     (case classify_header name of
        HkNatsBookkeeping \<Rightarrow> scan rest s
      | HkUnknownReliar \<Rightarrow> scan rest s
      | HkCustom \<Rightarrow> and_then (scan_custom name values s) (scan rest)
      | k \<Rightarrow> and_then (assign_once k values s) (scan rest))"

definition parse_identity ::
    "NatsLib \<Rightarrow> ScannedHeaders \<Rightarrow> (MessageId \<times> string \<times> MessageType \<times> ContentType, NatsMapError) result" where
  "parse_identity lib s =
     and_then (ok_or (MissingHeader h_message_id) (sc_slot s HkMessageId)) (\<lambda>id_raw.
     and_then (ok_or (MissingHeader h_message_type) (sc_slot s HkMessageType)) (\<lambda>type_raw.
     and_then (ok_or (MissingHeader h_message_version) (sc_slot s HkMessageVersion)) (\<lambda>version_raw.
     and_then (ok_or (MissingHeader h_content_type) (sc_slot s HkContentType)) (\<lambda>content_raw.
     and_then (ok_or (MalformedHeader h_message_id) (nl_uuid_parse lib id_raw)) (\<lambda>i.
     and_then (ok_or (MalformedHeader h_message_version) (parse_uint (2 ^ 16 - 1) version_raw)) (\<lambda>version.
     if type_raw = [] then Err (MalformedHeader h_message_type)
     else and_then (map_err (\<lambda>_. MalformedHeader h_content_type) (content_type_parse content_raw)) (\<lambda>ct.
       Ok (i, id_raw, message_type_from_parts type_raw (of_nat version), ct))))))))"

text \<open>\<^verbatim>\<open>.map(parse).transpose().map_err(..)?\<close> on one slot.\<close>

definition parse_slot ::
    "HeaderKind \<Rightarrow> (string \<Rightarrow> 'a option) \<Rightarrow> ScannedHeaders \<Rightarrow> ('a option, NatsMapError) result" where
  "parse_slot k f s =
     transpose_map (\<lambda>raw. ok_or (MalformedHeader (header_const k)) (f raw)) (sc_slot s k)"

definition ok_opt :: "('a, 'e) result \<Rightarrow> 'a option" where
  "ok_opt r = (case r of Inr x \<Rightarrow> Some x | Inl _ \<Rightarrow> None)"

definition parse_metadata ::
    "NatsLib \<Rightarrow> string \<Rightarrow> ScannedHeaders \<Rightarrow> (Metadata \<times> Headers option, NatsMapError) result" where
  "parse_metadata lib id_raw s =
     and_then (parse_slot HkCorrelationId (\<lambda>r. ok_opt (correlation_id_parse r)) s) (\<lambda>co.
     and_then (parse_slot HkConversationId (nl_uuid_parse lib) s) (\<lambda>cv.
     and_then (parse_slot HkCausationId (nl_uuid_parse lib) s) (\<lambda>ca.
     and_then (parse_slot HkRequestId (nl_uuid_parse lib) s) (\<lambda>rq.
     and_then (parse_slot HkSentAt (nl_time_parse lib) s) (\<lambda>se.
     and_then (parse_slot HkExpiresAt (nl_time_parse lib) s) (\<lambda>ex.
     and_then (parse_slot HkSource (\<lambda>r. ok_opt (endpoint_parse r)) s) (\<lambda>so.
     and_then (parse_slot HkDestination (\<lambda>r. ok_opt (endpoint_parse r)) s) (\<lambda>de.
     and_then (parse_slot HkReplyTo (\<lambda>r. ok_opt (endpoint_parse r)) s) (\<lambda>rp.
     Ok (\<lparr>correlation = \<lparr>correlation_id = co,
            conversation_id = (case cv of Some c \<Rightarrow> c | None \<Rightarrow> conversation_unset),
            causation_id = ca, request_id = rq\<rparr>,
          trace = \<lparr>traceparent = sc_slot s HkTraceparent, tracestate = sc_slot s HkTracestate\<rparr>,
          routing = \<lparr>source = so, destination = de, reply_to = rp\<rparr>,
          delivery = \<lparr>content_type = content_type delivery_default, sent_at = se, expires_at = ex,
            deduplication_id = (case sc_slot s HkNatsMsgId of
                Some v \<Rightarrow> (if v \<noteq> id_raw then Some v else None) | None \<Rightarrow> None)\<rparr>,
          tenant_id = sc_slot s HkTenantId\<rparr>, sc_custom s))))))))))"

definition into_envelope ::
    "NatsLib \<Rightarrow> ScannedHeaders \<Rightarrow> bytes \<Rightarrow> (SerializedEnvelope, NatsMapError) result" where
  "into_envelope lib s payload =
     and_then (parse_identity lib s) (\<lambda>(i, id_raw, mt, ct).
     and_then (parse_metadata lib id_raw s) (\<lambda>(md, custom).
     Ok (envelope_from_parts i mt payload
           (md\<lparr>delivery := (delivery md)\<lparr>content_type := ct\<rparr>\<rparr>) custom)))"

definition decode :: "NatsLib \<Rightarrow> NatsWireMessage \<Rightarrow> (SerializedEnvelope, NatsMapError) result" where
  "decode lib m =
     and_then (scan (wire_headers m) scanned_default) (\<lambda>s. into_envelope lib s (wire_payload m))"

end
