(* ===== verification/Nats_Roundtrip.thy ===== *)
theory Nats_Roundtrip
  imports Nats_Mapper
begin

text \<open>
  Decoding what \<^verbatim>\<open>encode\<close> wrote gives the envelope back, for every order in which the header maps
  iterate: the effect of the insertions as a map, the scan of any map with the right entries, and
  the parse of the scanned slots.
\<close>

section \<open>What is relied upon\<close>

text \<open>Insertion replaces the entry of its name and keeps the others, in some order; the text forms
  of UUIDs and timestamps are read back as the same values.\<close>

definition nats_lib_ok :: "NatsLib \<Rightarrow> bool" where
  "nats_lib_ok lib \<longleftrightarrow>
     (\<forall>k v m. distinct (map fst m) \<longrightarrow> distinct (map fst (nl_insert lib k v m))
        \<and> map_of (nl_insert lib k v m) = (map_of m)(k \<mapsto> [v]))
     \<and> (\<forall>u. nl_uuid_parse lib (nl_uuid_show lib u) = Some u)
     \<and> (\<forall>t s. nl_time_format lib t = Some s \<longrightarrow> nl_time_parse lib s = Some t)"

lemma nats_lib_okD:
  assumes "nats_lib_ok lib"
  shows "distinct (map fst m) \<Longrightarrow> distinct (map fst (nl_insert lib k v m))"
    "distinct (map fst m) \<Longrightarrow> map_of (nl_insert lib k v m) = (map_of m)(k \<mapsto> [v])"
    "nl_uuid_parse lib (nl_uuid_show lib u) = Some u"
    "nl_time_format lib t = Some s \<Longrightarrow> nl_time_parse lib s = Some t"
  using assms by (simp_all add: nats_lib_ok_def)

section \<open>Names and kinds\<close>

definition framework_kinds :: "HeaderKind list" where
  "framework_kinds =
     [HkMessageId, HkMessageType, HkMessageVersion, HkContentType, HkCorrelationId, HkConversationId,
      HkCausationId, HkRequestId, HkTenantId, HkSentAt, HkExpiresAt, HkSource, HkDestination, HkReplyTo,
      HkTraceparent, HkTracestate, HkNatsMsgId]"

lemma framework_kinds_cases:
  "k \<in> set framework_kinds \<or> k = HkNatsBookkeeping \<or> k = HkUnknownReliar \<or> k = HkCustom"
  by (cases k) (simp_all add: framework_kinds_def)

lemma classify_header_const: "k \<in> set framework_kinds \<Longrightarrow> classify_header (header_const k) = k"
proof -
  have "list_all (\<lambda>k. classify_header (header_const k) = k) framework_kinds" by code_simp
  then show "k \<in> set framework_kinds \<Longrightarrow> classify_header (header_const k) = k" by (simp add: list_all_iff)
qed

lemma inj_header_const: "inj_on header_const (set framework_kinds)"
  by (rule inj_onI) (metis classify_header_const)

lemma starts_with_ci_cong:
  "eq_ignore_ascii_case n s \<Longrightarrow> starts_with_ci s p \<Longrightarrow> starts_with_ci n p"
  by (auto simp: starts_with_ci_iff eq_ignore_ascii_case_def)

lemma framework_prefix:
  assumes "k \<in> set framework_kinds"
  shows "starts_with_ci (header_const k) h_reliar_prefix \<or> starts_with_ci (header_const k) h_nats_prefix
    \<or> header_const k = h_traceparent \<or> header_const k = h_tracestate"
proof -
  have "list_all (\<lambda>k. starts_with_ci (header_const k) h_reliar_prefix \<or> starts_with_ci (header_const k) h_nats_prefix
    \<or> header_const k = h_traceparent \<or> header_const k = h_tracestate) framework_kinds" by code_simp
  with assms show ?thesis by (simp add: list_all_iff)
qed

text \<open>What \<^verbatim>\<open>classify_header\<close> decides, without the cascade.\<close>

lemma classify_framework:
  "classify_header n \<in> set framework_kinds \<Longrightarrow> eq_ignore_ascii_case n (header_const (classify_header n))"
  unfolding classify_header_def by (auto simp: framework_kinds_def)

lemma classify_custom:
  assumes "\<not> has_reserved_prefix n" "\<not> starts_with_ci n h_nats_prefix" "trace_override_name n = None"
  shows "classify_header n = HkCustom"
proof -
  have r: "\<not> starts_with_ci n h_reliar_prefix"
    using assms(1) by (simp add: has_reserved_prefix_def starts_with_ci_def h_reliar_prefix_def reserved_prefix_def)
  have "classify_header n \<notin> set framework_kinds"
  proof
    assume k: "classify_header n \<in> set framework_kinds"
    from classify_framework [OF k] framework_prefix [OF k] starts_with_ci_cong r assms(2,3)
    show False by (auto simp: trace_override_name_def split: if_splits)
  qed
  moreover have "classify_header n \<noteq> HkNatsBookkeeping" using assms(2) by (auto simp: classify_header_def)
  moreover have "classify_header n \<noteq> HkUnknownReliar" using r by (auto simp: classify_header_def)
  ultimately show ?thesis using framework_kinds_cases [of "classify_header n"] by blast
qed

lemma trace_override_cases:
  "trace_override_name k = Some c \<Longrightarrow> c = h_traceparent \<or> c = h_tracestate"
  by (auto simp: trace_override_name_def split: if_splits)

lemma trace_names_distinct [simp]: "h_traceparent \<noteq> h_tracestate" "h_tracestate \<noteq> h_traceparent"
  by code_simp+

lemma trace_override_canonical:
  "trace_override_name h_traceparent = Some h_traceparent" "trace_override_name h_tracestate = Some h_tracestate"
  by code_simp+

section \<open>The custom headers\<close>

definition plain :: "Headers \<Rightarrow> Headers" where
  "plain hs = filter (\<lambda>(k, _). trace_override_name k = None) hs"

definition custom_trace :: "string \<Rightarrow> Headers \<Rightarrow> string option" where
  "custom_trace canonical hs =
     map_option snd (find (\<lambda>(k, _). trace_override_name k = Some canonical) hs)"

text \<open>The value a trace header gets: the framework's, else a custom one.\<close>

definition trace_value :: "string option \<Rightarrow> string \<Rightarrow> Headers \<Rightarrow> string option" where
  "trace_value framework canonical hs =
     (case framework of Some v \<Rightarrow> Some v | None \<Rightarrow> custom_trace canonical hs)"

definition wrap :: "string option \<Rightarrow> string list option \<Rightarrow> string list option" where
  "wrap v old = (case v of Some s \<Rightarrow> Some [s] | None \<Rightarrow> old)"

lemma wrap_simps [simp]: "wrap (Some s) old = Some [s]" "wrap None old = old"
  by (simp_all add: wrap_def)

lemma plain_Cons: "plain ((k, v) # hs) = (if trace_override_name k = None then (k, v) # plain hs else plain hs)"
  by (simp add: plain_def)

lemma custom_trace_Cons:
  "custom_trace c ((k, v) # hs) = (if trace_override_name k = Some c then Some v else custom_trace c hs)"
  by (simp add: custom_trace_def)

lemma fst_plain: "fst ` set (plain hs) \<subseteq> fst ` set hs"
  by (auto simp: plain_def)

definition custom_effect :: "TraceContext \<Rightarrow> Headers \<Rightarrow> HeaderMap \<Rightarrow> string \<Rightarrow> string list option" where
  "custom_effect tc hs m n =
     (if n = h_traceparent
      then (if traceparent tc = None then wrap (custom_trace h_traceparent hs) (map_of m n) else map_of m n)
      else if n = h_tracestate
      then (if tracestate tc = None then wrap (custom_trace h_tracestate hs) (map_of m n) else map_of m n)
      else wrap (map_of (plain hs) n) (map_of m n))"

lemma encode_custom_effect:
  assumes lib: "nats_lib_ok lib"
    and "encode_custom lib tc hs m tp ts = Ok m'" "distinct (map fst m)" "distinct (map fst hs)"
  shows "distinct (map fst m') \<and> (\<forall>n. map_of m' n = custom_effect tc hs m n)
    \<and> (\<forall>(k, v) \<in> set hs. \<not> starts_with_ci k h_nats_prefix)
    \<and> (tp \<longrightarrow> traceparent tc = None \<longrightarrow> custom_trace h_traceparent hs = None)
    \<and> (ts \<longrightarrow> tracestate tc = None \<longrightarrow> custom_trace h_tracestate hs = None)"
  using assms(2-)
proof (induction hs arbitrary: m tp ts)
  case Nil
  then show ?case by (auto simp: custom_effect_def custom_trace_def plain_def)
next
  case (Cons kv hs)
  obtain k v where kv: "kv = (k, v)" by (cases kv)
  from Cons.prems have ns: "\<not> starts_with_ci k h_nats_prefix" by (auto simp: kv split: if_splits)
  from Cons.prems(3) have dk: "k \<notin> fst ` set hs" "distinct (map fst hs)" by (auto simp: kv)
  show ?case
  proof (cases "trace_override_name k")
    case None
    then have ne: "k \<noteq> h_traceparent" "k \<noteq> h_tracestate" using trace_override_canonical by auto
    from Cons.prems None ns have run: "encode_custom lib tc hs (nl_insert lib k v m) tp ts = Ok m'"
      by (auto simp: kv split: if_splits)
    have "map_of (plain hs) k = None" using dk(1) fst_plain by (auto simp: map_of_eq_None_iff)
    with Cons.IH [OF run nats_lib_okD(1) [OF lib Cons.prems(2)] dk(2)] None ns ne
      nats_lib_okD(2) [OF lib Cons.prems(2)] show ?thesis
      by (auto simp: kv custom_effect_def plain_Cons custom_trace_Cons)
  next
    case (Some c)
    note c = trace_override_cases [OF Some]
    show ?thesis
    proof (cases "if c = h_traceparent then traceparent tc \<noteq> None else tracestate tc \<noteq> None")
      case True
      with Cons.prems Some ns have run: "encode_custom lib tc hs m tp ts = Ok m'"
        by (auto simp: kv Let_def split: if_splits)
      from Cons.IH [OF run Cons.prems(2) dk(2)] Some True ns c show ?thesis
        by (auto simp: kv custom_effect_def plain_Cons custom_trace_Cons split: if_splits)
    next
      case False
      with Cons.prems Some ns have run: "encode_custom lib tc hs (nl_insert lib c v m)
          (tp \<or> c = h_traceparent) (ts \<or> c \<noteq> h_traceparent) = Ok m'"
        and fresh: "\<not> (if c = h_traceparent then tp else ts)"
        by (auto simp: kv Let_def and_then_eq_Ok_iff header_value_def split: if_splits)
      from Cons.IH [OF run nats_lib_okD(1) [OF lib Cons.prems(2)] dk(2)] Some False fresh ns c
        nats_lib_okD(2) [OF lib Cons.prems(2)] show ?thesis
        by (auto simp: kv custom_effect_def plain_Cons custom_trace_Cons split: if_splits)
    qed
  qed
qed

section \<open>The framework headers\<close>

fun put_all ::
    "NatsLib \<Rightarrow> (string \<times> (string option, NatsMapError) result) list \<Rightarrow> HeaderMap \<Rightarrow> (HeaderMap, NatsMapError) result" where
  "put_all lib [] m = Ok m"
| "put_all lib ((n, r) # xs) m = and_then r (\<lambda>v. and_then (put_opt lib n v m) (put_all lib xs))"

lemma put_opt_effect:
  assumes lib: "nats_lib_ok lib" and d: "distinct (map fst m)" and p: "put_opt lib n v m = Ok m'"
  shows "distinct (map fst m')" "map_of m' k = (if k = n then wrap v (map_of m n) else map_of m k)"
  using p nats_lib_okD(1,2) [OF lib d] d
  by (auto simp: put_opt_def put_def header_value_def and_then_eq_Ok_iff split: option.splits if_splits)

lemma put_all_effect:
  assumes lib: "nats_lib_ok lib"
    and "put_all lib xs m = Ok m'" "distinct (map fst m)" "distinct (map fst xs)"
  shows "distinct (map fst m')
    \<and> (\<forall>(n, r) \<in> set xs. \<exists>v. r = Ok v \<and> map_of m' n = wrap v (map_of m n))
    \<and> (\<forall>n. n \<notin> fst ` set xs \<longrightarrow> map_of m' n = map_of m n)"
  using assms(2-)
proof (induction xs arbitrary: m)
  case (Cons x xs)
  obtain n r where x: "x = (n, r)" by (cases x)
  from Cons.prems(1) obtain v m1 where v: "r = Ok v" "put_opt lib n v m = Ok m1" "put_all lib xs m1 = Ok m'"
    by (auto simp: x and_then_eq_Ok_iff)
  note e = put_opt_effect [OF lib Cons.prems(2) v(2)]
  have d: "n \<notin> fst ` set xs" "distinct (map fst xs)" using Cons.prems(3) by (auto simp: x)
  have ih: "distinct (map fst m')"
    "\<And>n' r'. (n', r') \<in> set xs \<Longrightarrow> \<exists>v. r' = Ok v \<and> map_of m' n' = wrap v (map_of m1 n')"
    "\<And>n'. n' \<notin> fst ` set xs \<Longrightarrow> map_of m' n' = map_of m1 n'"
    using Cons.IH [OF v(3) e(1) d(2)] by auto
  have "\<exists>v. r' = Ok v \<and> map_of m' n' = wrap v (map_of m n')" if "(n', r') \<in> set xs" for n' r'
  proof -
    from that d(1) have "n' \<noteq> n" by force
    with ih(2) [OF that] e(2) show ?thesis by simp
  qed
  moreover have "map_of m' n = wrap v (map_of m n)" using ih(3) [OF d(1)] e(2) by simp
  ultimately show ?case using ih(1,3) e(2) v(1) by (auto simp: x)
qed simp

text \<open>The value of each framework header.\<close>

definition fw_value :: "NatsLib \<Rightarrow> SerializedEnvelope \<Rightarrow> HeaderKind \<Rightarrow> (string option, NatsMapError) result" where
  "fw_value lib e k =
     (let md = metadata e; co = correlation md; ro = routing md; de = delivery md in
      case k of
        HkMessageId \<Rightarrow> Ok (Some (nl_uuid_show lib (env_id e)))
      | HkMessageType \<Rightarrow> Ok (Some (mt_name (message_type e)))
      | HkMessageVersion \<Rightarrow> Ok (Some (show_nat (unat (mt_version (message_type e)))))
      | HkContentType \<Rightarrow> Ok (Some (content_type_as_str (content_type de)))
      | HkCorrelationId \<Rightarrow> Ok (map_option correlation_id_as_str (correlation_id co))
      | HkConversationId \<Rightarrow> Ok (if is_unset (conversation_id co) then None
                              else Some (nl_uuid_show lib (conversation_id co)))
      | HkCausationId \<Rightarrow> Ok (map_option (nl_uuid_show lib) (causation_id co))
      | HkRequestId \<Rightarrow> Ok (map_option (nl_uuid_show lib) (request_id co))
      | HkTenantId \<Rightarrow> Ok (tenant_id md)
      | HkSentAt \<Rightarrow> transpose_map (\<lambda>t. rfc3339_utc lib t h_sent_at) (sent_at de)
      | HkExpiresAt \<Rightarrow> transpose_map (\<lambda>t. rfc3339_utc lib t h_expires_at) (expires_at de)
      | HkSource \<Rightarrow> Ok (map_option endpoint_as_str (source ro))
      | HkDestination \<Rightarrow> Ok (map_option endpoint_as_str (destination ro))
      | HkReplyTo \<Rightarrow> Ok (map_option endpoint_as_str (reply_to ro))
      | HkTraceparent \<Rightarrow> Ok (traceparent (trace md))
      | HkTracestate \<Rightarrow> Ok (tracestate (trace md))
      | HkNatsMsgId \<Rightarrow> Ok (Some (case deduplication_id de of Some d \<Rightarrow> d | None \<Rightarrow> nl_uuid_show lib (env_id e)))
      | _ \<Rightarrow> Ok None)"

lemma put_as_opt: "put lib n v m = put_opt lib n (Some v) m"
  by (simp add: put_opt_def)

lemma put_time_as_opt:
  "put_time lib n v m = and_then (transpose_map (\<lambda>t. rfc3339_utc lib t n) v) (\<lambda>v. put_opt lib n v m)"
  by (cases v) (auto simp: put_time_def put_opt_def transpose_map_def and_then_def split: sum.splits)

lemma and_then_Ok_right [simp]: "and_then r Ok = r"
  by (cases r) simp_all

lemma put_all_fun:
  "put_all lib [] = Ok"
  "put_all lib ((n, r) # xs) = (\<lambda>m. and_then r (\<lambda>v. and_then (put_opt lib n v m) (put_all lib xs)))"
  by (simp_all add: fun_eq_iff)

lemma insert_framework_put_all:
  "insert_framework_headers lib e m = put_all lib (map (\<lambda>k. (header_const k, fw_value lib e k)) framework_kinds) m"
  unfolding insert_framework_headers_def insert_routing_trace_and_dedup_headers_def framework_kinds_def
    put_as_opt put_time_as_opt
  by (simp add: fw_value_def Let_def and_then_assoc put_all_fun)

lemma insert_framework_effect:
  assumes lib: "nats_lib_ok lib" and ins: "insert_framework_headers lib e m = Ok m'"
    and d: "distinct (map fst m)"
  shows "distinct (map fst m')"
    "k \<in> set framework_kinds \<Longrightarrow>
       \<exists>v. fw_value lib e k = Ok v \<and> map_of m' (header_const k) = wrap v (map_of m (header_const k))"
    "n \<notin> header_const ` set framework_kinds \<Longrightarrow> map_of m' n = map_of m n"
proof -
  let ?xs = "map (\<lambda>k. (header_const k, fw_value lib e k)) framework_kinds"
  have "distinct (map header_const framework_kinds)"
    using inj_header_const by (simp add: distinct_map) (simp add: framework_kinds_def)
  then have dx: "distinct (map fst ?xs)" by (simp add: comp_def)
  note eff = put_all_effect [OF lib ins [unfolded insert_framework_put_all] d dx]
  from eff show "distinct (map fst m')" by blast
  show "\<exists>v. fw_value lib e k = Ok v \<and> map_of m' (header_const k) = wrap v (map_of m (header_const k))"
    if "k \<in> set framework_kinds" using eff that by force
  show "map_of m' n = map_of m n" if "n \<notin> header_const ` set framework_kinds"
    using eff that by (auto simp: image_image)
qed

section \<open>Scanning\<close>

definition customs :: "HeaderMap \<Rightarrow> Headers" where
  "customs m = map (\<lambda>(n, vs). (n, hd vs)) (filter (\<lambda>(n, _). classify_header n = HkCustom) m)"

definition entry_ok :: "string \<times> string list \<Rightarrow> bool" where
  "entry_ok = (\<lambda>(n, vs). length vs = 1 \<and> (classify_header n = HkCustom
     \<or> classify_header n \<in> set framework_kinds \<and> n = header_const (classify_header n)))"

definition custom_part :: "ScannedHeaders \<Rightarrow> Headers" where
  "custom_part s = (case sc_custom s of Some h \<Rightarrow> h | None \<Rightarrow> headers_default)"

lemma scan_framework:
  "classify_header n \<in> set framework_kinds \<Longrightarrow>
   scan ((n, vs) # m) s = and_then (assign_once (classify_header n) vs s) (scan m)"
  by (cases "classify_header n") (simp_all add: framework_kinds_def)

lemma customs_Cons:
  "customs ((n, vs) # m) = (if classify_header n = HkCustom then (n, hd vs) # customs m else customs m)"
  by (simp add: customs_def)

text \<open>Scanning one more custom header, or one more framework header into its free slot.\<close>

lemma scan_custom_entry:
  assumes "headers_wf ((custom_part s @ [(n, v)]) @ cs)"
  shows "scan_custom n [v] s = Ok (s\<lparr>sc_custom := Some (custom_part s @ [(n, v)])\<rparr>)"
proof -
  have "headers_insert_all [(n, v)] (custom_part s) = Ok (custom_part s @ [(n, v)])"
    using assms by (intro headers_insert_all_wf) (auto simp: headers_wf_def)
  then obtain old where "headers_insert n v (custom_part s) = Ok (custom_part s @ [(n, v)], old)"
    by (auto simp: and_then_eq_Ok_iff)
  then show ?thesis by (simp add: scan_custom_def Let_def custom_part_def)
qed

lemma framework_entry_unique:
  assumes "classify_header n \<in> set framework_kinds" "n = header_const (classify_header n)" "j \<in> set framework_kinds"
  shows "header_const j = n \<longleftrightarrow> j = classify_header n"
  using inj_onD [OF inj_header_const, of j "classify_header n"] assms by auto

definition scanned :: "HeaderMap \<Rightarrow> ScannedHeaders \<Rightarrow> ScannedHeaders" where
  "scanned m s =
     \<lparr>sc_slot = (\<lambda>k. if k \<in> set framework_kinds
        then (case map_of m (header_const k) of Some vs \<Rightarrow> Some (hd vs) | None \<Rightarrow> sc_slot s k) else sc_slot s k),
      sc_custom = (if customs m = [] then sc_custom s else Some (custom_part s @ customs m))\<rparr>"

lemma scanned_custom:
  assumes "classify_header n = HkCustom"
  shows "scanned m (s\<lparr>sc_custom := Some (custom_part s @ [(n, v)])\<rparr>) = scanned ((n, [v]) # m) s"
proof -
  let ?s = "s\<lparr>sc_custom := Some (custom_part s @ [(n, v)])\<rparr>"
  have "header_const k \<noteq> n" if "k \<in> set framework_kinds" for k
    using classify_header_const [OF that] assms that by (auto simp: framework_kinds_def)
  moreover have "sc_slot ?s = sc_slot s" "custom_part ?s = custom_part s @ [(n, v)]" "sc_custom ?s = Some (custom_part s @ [(n, v)])"
    by (simp_all add: custom_part_def)
  ultimately show ?thesis using assms unfolding scanned_def by (auto simp: customs_Cons fun_eq_iff split: option.splits)
qed

lemma scan_effect:
  assumes "distinct (map fst m)" "\<forall>x \<in> set m. entry_ok x"
    "\<forall>k. header_const k \<in> fst ` set m \<longrightarrow> k \<in> set framework_kinds \<longrightarrow> sc_slot s k = None"
    "headers_wf (custom_part s @ customs m)"
  shows "scan m s = Ok (scanned m s)"
  using assms
proof (induction m arbitrary: s)
  case Nil
  then show ?case by (simp add: customs_def scanned_def fun_eq_iff)
next
  case (Cons x m)
  obtain n vs where x: "x = (n, vs)" by (cases x)
  from Cons.prems(2) obtain v where v: "vs = [v]" by (auto simp: x entry_ok_def length_Suc_conv)
  have pm: "distinct (map fst m)" "\<forall>x \<in> set m. entry_ok x" and nm: "n \<notin> fst ` set m"
    using Cons.prems(1,2) by (auto simp: x)
  show ?case
  proof (cases "classify_header n = HkCustom")
    case True
    let ?s = "s\<lparr>sc_custom := Some (custom_part s @ [(n, v)])\<rparr>"
    have wf: "headers_wf ((custom_part s @ [(n, v)]) @ customs m)"
      using Cons.prems(4) True by (simp add: x v customs_Cons)
    have "scan m ?s = Ok (scanned m ?s)"
      using Cons.prems(3) wf by (intro Cons.IH [OF pm]) (simp_all add: x custom_part_def)
    with scan_custom_entry [OF wf] True show ?thesis by (simp add: x v scanned_custom)
  next
    case False
    then have k: "classify_header n \<in> set framework_kinds" "n = header_const (classify_header n)"
      using Cons.prems(2) by (auto simp: x entry_ok_def)
    let ?k = "classify_header n"
    let ?s = "s\<lparr>sc_slot := (sc_slot s)(?k := Some v)\<rparr>"
    note uniq = framework_entry_unique [OF k]
    have free: "sc_slot s ?k = None" using Cons.prems(3) k by (auto simp: x)
    have "\<forall>j. header_const j \<in> fst ` set m \<longrightarrow> j \<in> set framework_kinds \<longrightarrow> sc_slot ?s j = None"
    proof (intro allI impI)
      fix j assume j: "header_const j \<in> fst ` set m" "j \<in> set framework_kinds"
      have "header_const j \<noteq> n" using j(1) nm by metis
      then have "j \<noteq> ?k" using uniq [OF j(2)] by simp
      with j Cons.prems(3) show "sc_slot ?s j = None" by (simp add: x)
    qed
    note ih = Cons.IH [OF pm this]
    have "custom_part ?s = custom_part s" "map_of m n = None" using nm by (simp_all add: custom_part_def map_of_eq_None_iff)
    with ih Cons.prems(4) False free uniq k show ?thesis
      unfolding x scan_framework [OF k(1)] scanned_def
      by (auto simp: v assign_once_def customs_Cons fun_eq_iff split: option.splits)
  qed
qed

section \<open>The round trip\<close>

text \<open>The envelope as the wire can express it: a custom trace header fills an absent trace field, no
  custom headers is no map, and a deduplication id equal to the message id is the default.\<close>

definition wire_normal :: "NatsLib \<Rightarrow> SerializedEnvelope \<Rightarrow> SerializedEnvelope" where
  "wire_normal lib e =
     (let hs = custom_headers e; md = metadata e; tc = trace md; de = delivery md in
      e\<lparr>metadata := md\<lparr>
          trace := \<lparr>traceparent = trace_value (traceparent tc) h_traceparent hs,
                    tracestate = trace_value (tracestate tc) h_tracestate hs\<rparr>,
          delivery := de\<lparr>deduplication_id :=
            (if deduplication_id de = Some (nl_uuid_show lib (env_id e)) then None else deduplication_id de)\<rparr>\<rparr>,
        env_headers := (if plain hs = [] then None else Some (plain hs))\<rparr>)"

definition slot_value :: "NatsLib \<Rightarrow> SerializedEnvelope \<Rightarrow> HeaderKind \<Rightarrow> string option" where
  "slot_value lib e k =
     (case k of
        HkTraceparent \<Rightarrow> trace_value (traceparent (trace (metadata e))) h_traceparent (custom_headers e)
      | HkTracestate \<Rightarrow> trace_value (tracestate (trace (metadata e))) h_tracestate (custom_headers e)
      | _ \<Rightarrow> (case fw_value lib e k of Inr v \<Rightarrow> v | Inl _ \<Rightarrow> None))"

lemma header_const_traces [simp]:
  "header_const HkTraceparent = h_traceparent" "header_const HkTracestate = h_tracestate"
  by simp_all

lemma plain_custom_names:
  assumes "headers_wf hs" "\<forall>(k, v) \<in> set hs. \<not> starts_with_ci k h_nats_prefix" "(n, v) \<in> set (plain hs)"
  shows "classify_header n = HkCustom"
  using assms by (intro classify_custom) (auto simp: headers_wf_def header_ok_def plain_def)

text \<open>The map \<^verbatim>\<open>encode\<close> builds: the slots' values under the canonical names, the plain custom headers
  under their own.\<close>

lemma encode_map:
  assumes lib: "nats_lib_ok lib" and valid: "envelope_valid e" and enc: "encode lib e = Ok w"
  shows "wire_payload w = body e" "distinct (map fst (wire_headers w))"
    "k \<in> set framework_kinds \<Longrightarrow> map_of (wire_headers w) (header_const k) = wrap (slot_value lib e k) None"
    "n \<notin> header_const ` set framework_kinds \<Longrightarrow>
       map_of (wire_headers w) n = wrap (map_of (plain (custom_headers e)) n) None"
    "(n, v) \<in> set (plain (custom_headers e)) \<Longrightarrow> classify_header n = HkCustom"
    "k \<in> set framework_kinds \<Longrightarrow> \<exists>v. fw_value lib e k = Ok v"
proof -
  let ?hs = "custom_headers e" and ?tc = "trace (metadata e)"
  have wf: "headers_wf ?hs" using valid by (simp add: envelope_valid_def Let_def)
  obtain m where m: "encode_custom lib ?tc ?hs [] False False = Ok m"
    "insert_framework_headers lib e m = Ok (wire_headers w)" "wire_payload w = body e"
    using enc
    by (auto simp: encode_def and_then_eq_Ok_iff wire_message_new_def custom_headers_def split: option.splits)
  from wf have "distinct (map fst ?hs)" by (simp add: headers_wf_def)
  note ce = encode_custom_effect [OF lib m(1) _ this, simplified]
  have d: "distinct (map fst m)" using ce by blast
  note fe = insert_framework_effect [OF lib m(2) d]
  have nats: "\<forall>(k, v) \<in> set ?hs. \<not> starts_with_ci k h_nats_prefix" using ce by blast
  show "wire_payload w = body e" by (rule m(3))
  show "distinct (map fst (wire_headers w))" by (rule fe(1))
  show cust: "classify_header n = HkCustom" if "(n, v) \<in> set (plain ?hs)" for n v
    using plain_custom_names [OF wf nats that] .
  show "\<exists>v. fw_value lib e k = Ok v" if "k \<in> set framework_kinds" for k using fe(2) [OF that] by blast
  have eff: "map_of m n = custom_effect ?tc ?hs [] n" for n using ce by blast
  have plain_none: "map_of (plain ?hs) (header_const k) = None" if "k \<in> set framework_kinds" for k
  proof (rule ccontr)
    assume "map_of (plain ?hs) (header_const k) \<noteq> None"
    then obtain v where "(header_const k, v) \<in> set (plain ?hs)" by (auto dest: map_of_SomeD)
    from cust [OF this] classify_header_const [OF that] that show False by (auto simp: framework_kinds_def)
  qed
  show "map_of (wire_headers w) (header_const k) = wrap (slot_value lib e k) None" if k: "k \<in> set framework_kinds" for k
  proof (cases "k = HkTraceparent \<or> k = HkTracestate")
    case True
    with fe(2) [OF k] show ?thesis
      by (auto simp: eff custom_effect_def slot_value_def fw_value_def Let_def trace_value_def wrap_def
          split: option.splits)
  next
    case False
    have inj: "header_const k \<noteq> h_traceparent" "header_const k \<noteq> h_tracestate"
      using inj_onD [OF inj_header_const, of k HkTraceparent] inj_onD [OF inj_header_const, of k HkTracestate] k False
      by (auto simp: framework_kinds_def)
    have "slot_value lib e k = (case fw_value lib e k of Inr v \<Rightarrow> v | Inl _ \<Rightarrow> None)"
      using False by (cases k) (simp_all add: slot_value_def)
    with fe(2) [OF k] inj plain_none [OF k] show ?thesis by (auto simp: eff custom_effect_def)
  qed
  show "map_of (wire_headers w) n = wrap (map_of (plain ?hs) n) None"
    if n: "n \<notin> header_const ` set framework_kinds" for n
  proof -
    have "n \<noteq> h_traceparent" "n \<noteq> h_tracestate"
      using n by (force simp: framework_kinds_def image_iff)+
    then show ?thesis using fe(3) [OF n] by (simp add: eff custom_effect_def)
  qed
qed

lemma encode_entries:
  assumes lib: "nats_lib_ok lib" and valid: "envelope_valid e" and enc: "encode lib e = Ok w"
  shows "\<forall>x \<in> set (wire_headers w). entry_ok x" "set (customs (wire_headers w)) = set (plain (custom_headers e))"
proof -
  let ?m = "wire_headers w" and ?hs = "custom_headers e"
  note em = encode_map [OF lib valid enc]
  have lookup: "(n, vs) \<in> set ?m \<longleftrightarrow> map_of ?m n = Some vs" for n vs using em(2) by simp
  have dp: "distinct (map fst (plain ?hs))"
    using valid by (auto simp: envelope_valid_def Let_def headers_wf_def plain_def distinct_map_filter)
  have fw: "\<exists>s. vs = [s]" if "(header_const k, vs) \<in> set ?m" "k \<in> set framework_kinds" for k vs
    using em(3) [OF that(2)] that(1) unfolding lookup by (cases "slot_value lib e k") auto
  have cu: "\<exists>v. vs = [v] \<and> (n, v) \<in> set (plain ?hs)"
    if "(n, vs) \<in> set ?m" "n \<notin> header_const ` set framework_kinds" for n vs
    using em(4) [OF that(2)] that(1) unfolding lookup
    by (cases "map_of (plain ?hs) n") (auto dest: map_of_SomeD)
  have "entry_ok (n, vs)" if nv: "(n, vs) \<in> set ?m" for n vs
  proof (cases "n \<in> header_const ` set framework_kinds")
    case True
    then obtain k where k: "n = header_const k" "k \<in> set framework_kinds" by auto
    with fw [of k vs] nv show ?thesis by (auto simp: entry_ok_def classify_header_const)
  next
    case False
    from cu [OF nv False] em(5) show ?thesis by (auto simp: entry_ok_def)
  qed
  then show "\<forall>x \<in> set ?m. entry_ok x" by auto
  have notfw: "n \<notin> header_const ` set framework_kinds" if "classify_header n = HkCustom" for n
  proof
    assume "n \<in> header_const ` set framework_kinds"
    then obtain k where "n = header_const k" "k \<in> set framework_kinds" by auto
    with that classify_header_const [of k] have "HkCustom \<in> set framework_kinds" by simp
    then show False by (simp add: framework_kinds_def)
  qed
  show "set (customs ?m) = set (plain ?hs)"
  proof (intro set_eqI iffI)
    fix x assume "x \<in> set (customs ?m)"
    then obtain n vs where x: "x = (n, hd vs)" "(n, vs) \<in> set ?m" "classify_header n = HkCustom"
      by (auto simp: customs_def)
    from cu [OF x(2) notfw [OF x(3)]] show "x \<in> set (plain ?hs)" by (auto simp: x(1))
  next
    fix x assume p: "x \<in> set (plain ?hs)"
    obtain n v where x: "x = (n, v)" by (cases x)
    have c: "classify_header n = HkCustom" using em(5) p by (simp add: x)
    have "map_of (plain ?hs) n = Some v" using p dp by (simp add: x)
    with em(4) [OF notfw [OF c]] have "(n, [v]) \<in> set ?m" unfolding lookup by simp
    with c have "(n, [v]) \<in> set (filter (\<lambda>(n, _). classify_header n = HkCustom) ?m)" by simp
    from imageI [OF this, of "\<lambda>(n, vs). (n, hd vs)"] show "x \<in> set (customs ?m)" by (simp add: customs_def x)
  qed
qed

lemma customs_props:
  assumes "distinct (map fst m)" "set (customs m) = set hs" "headers_wf hs"
  shows "headers_wf (customs m)" "map_of (customs m) = map_of hs" "customs m = [] \<longleftrightarrow> hs = []"
proof -
  have d: "distinct (map fst (customs m))"
    using assms(1) by (induction m) (force simp: customs_def)+
  moreover have dh: "distinct (map fst hs)" using assms(3) by (simp add: headers_wf_def)
  have "length (customs m) = length hs"
    using d dh assms(2) by (metis distinct_card distinct_map)
  ultimately show "headers_wf (customs m)" using assms(2,3) by (simp add: headers_wf_def)
  show "map_of (customs m) = map_of hs" using map_of_inject_set [OF d dh] assms(2) by simp
  show "customs m = [] \<longleftrightarrow> hs = []" using assms(2) by (metis set_empty)
qed

lemma headers_wf_plain: "headers_wf hs \<Longrightarrow> headers_wf (plain hs)"
  using order_trans [OF length_filter_le [of "\<lambda>(k, _). trace_override_name k = None" hs], of max_count]
  by (auto simp: headers_wf_def plain_def distinct_map_filter)

text \<open>Parsing the scanned slots.\<close>

lemma parse_slot_inverse:
  "sc_slot s k = map_option g x \<Longrightarrow> (\<And>y. x = Some y \<Longrightarrow> f (g y) = Some y) \<Longrightarrow> parse_slot k f s = Ok x"
  by (cases x) (simp_all add: parse_slot_def)

lemma parse_identity_slots:
  assumes lib: "nats_lib_ok lib" and valid: "envelope_valid e"
    and slots: "\<And>k. k \<in> set framework_kinds \<Longrightarrow> sc_slot s k = slot_value lib e k"
  shows "parse_identity lib s = Ok (env_id e, nl_uuid_show lib (env_id e), message_type e,
      content_type (delivery (metadata e)))"
proof -
  have v: "mt_name (message_type e) \<noteq> []" "valid_content_type (content_type (delivery (metadata e)))"
    using valid by (simp_all add: envelope_valid_def Let_def)
  have sl: "sc_slot s HkMessageId = Some (nl_uuid_show lib (env_id e))"
    "sc_slot s HkMessageType = Some (mt_name (message_type e))"
    "sc_slot s HkMessageVersion = Some (show_nat (unat (mt_version (message_type e))))"
    "sc_slot s HkContentType = Some (content_type_as_str (content_type (delivery (metadata e))))"
    by (simp_all add: slots framework_kinds_def slot_value_def fw_value_def Let_def)
  have ver: "parse_uint (2 ^ 16 - 1) (show_nat (unat (mt_version (message_type e))))
      = Some (unat (mt_version (message_type e)))"
    using unsigned_less [of "mt_version (message_type e)", where ?'a = nat] by (intro parse_uint_show_nat) simp
  show ?thesis
    using v ver by (simp add: parse_identity_def sl nats_lib_okD(3) [OF lib] message_type_from_parts_def
        numeral_eq_Suc del: power.simps)
qed

text \<open>The slots of the optional values: uuids, addresses and times.\<close>

lemma parse_uuid_slot:
  assumes "nats_lib_ok lib" "sc_slot s k = map_option (nl_uuid_show lib) x"
  shows "parse_slot k (nl_uuid_parse lib) s = Ok x"
  using assms(2) by (rule parse_slot_inverse) (rule nats_lib_okD(3) [OF assms(1)])

lemma parse_endpoint_slot:
  assumes "pred_option valid_endpoint x" "sc_slot s k = map_option endpoint_as_str x"
  shows "parse_slot k (\<lambda>r. ok_opt (endpoint_parse r)) s = Ok x"
  using assms(2) by (rule parse_slot_inverse) (use assms(1) in \<open>auto simp: ok_opt_def\<close>)

lemma parse_time_slot:
  assumes "nats_lib_ok lib" "sc_slot s k = (case transpose_map (\<lambda>t. rfc3339_utc lib t h) x of Inr v \<Rightarrow> v | Inl _ \<Rightarrow> None)"
    "\<exists>v. transpose_map (\<lambda>t. rfc3339_utc lib t h) x = Ok v"
  shows "parse_slot k (nl_time_parse lib) s = Ok x"
proof (cases x)
  case (Some t)
  with assms(3) obtain f where f: "nl_time_format lib t = Some f"
    by (cases "nl_time_format lib t") (simp_all add: rfc3339_utc_def)
  with assms(2) Some nats_lib_okD(4) [OF assms(1) f] show ?thesis by (simp add: parse_slot_def rfc3339_utc_def)
qed (use assms(2) in \<open>simp add: parse_slot_def\<close>)

lemma parse_metadata_slots:
  assumes lib: "nats_lib_ok lib" and valid: "envelope_valid e"
    and slots: "\<And>k. k \<in> set framework_kinds \<Longrightarrow> sc_slot s k = slot_value lib e k"
    and times: "\<And>k. k \<in> set framework_kinds \<Longrightarrow> \<exists>v. fw_value lib e k = Ok v"
  shows "parse_metadata lib (nl_uuid_show lib (env_id e)) s
     = Ok ((metadata (wire_normal lib e))\<lparr>delivery := (delivery (metadata (wire_normal lib e)))
         \<lparr>content_type := content_type delivery_default\<rparr>\<rparr>, sc_custom s)"
proof -
  let ?md = "metadata e"
  let ?co = "correlation ?md" and ?ro = "routing ?md" and ?de = "delivery ?md"
  note slot = slots framework_kinds_def slot_value_def fw_value_def Let_def
  have v: "pred_option valid_correlation_id (correlation_id ?co)" "pred_option valid_endpoint (source ?ro)"
    "pred_option valid_endpoint (destination ?ro)" "pred_option valid_endpoint (reply_to ?ro)"
    using valid by (simp_all add: envelope_valid_def Let_def)
  have "sc_slot s HkCorrelationId = map_option correlation_id_as_str (correlation_id ?co)" by (simp add: slot)
  then have c: "parse_slot HkCorrelationId (\<lambda>r. ok_opt (correlation_id_parse r)) s = Ok (correlation_id ?co)"
    by (rule parse_slot_inverse) (use v(1) in \<open>auto simp: ok_opt_def\<close>)
  have u: "parse_slot HkConversationId (nl_uuid_parse lib) s
        = Ok (if is_unset (conversation_id ?co) then None else Some (conversation_id ?co))"
    "parse_slot HkCausationId (nl_uuid_parse lib) s = Ok (causation_id ?co)"
    "parse_slot HkRequestId (nl_uuid_parse lib) s = Ok (request_id ?co)"
    by (rule parse_uuid_slot [OF lib], simp add: slot)+
  have a: "parse_slot HkSource (\<lambda>r. ok_opt (endpoint_parse r)) s = Ok (source ?ro)"
    "parse_slot HkDestination (\<lambda>r. ok_opt (endpoint_parse r)) s = Ok (destination ?ro)"
    "parse_slot HkReplyTo (\<lambda>r. ok_opt (endpoint_parse r)) s = Ok (reply_to ?ro)"
    using v by (auto intro!: parse_endpoint_slot simp: slot)
  have t: "parse_slot HkSentAt (nl_time_parse lib) s = Ok (sent_at ?de)"
    "parse_slot HkExpiresAt (nl_time_parse lib) s = Ok (expires_at ?de)"
    using times [of HkSentAt] times [of HkExpiresAt] by (intro parse_time_slot [OF lib]; simp add: slot)+
  have o: "sc_slot s HkTraceparent = trace_value (traceparent (trace ?md)) h_traceparent (custom_headers e)"
    "sc_slot s HkTracestate = trace_value (tracestate (trace ?md)) h_tracestate (custom_headers e)"
    "sc_slot s HkTenantId = tenant_id ?md"
    "sc_slot s HkNatsMsgId = Some (case deduplication_id ?de of Some d \<Rightarrow> d | None \<Rightarrow> nl_uuid_show lib (env_id e))"
    by (simp_all add: slot)
  show ?thesis
    unfolding parse_metadata_def c u a t o
    by (auto simp: wire_normal_def Let_def is_unset_def conversation_unset_def split: option.splits)
qed

lemma decode_encoded:
  assumes "nats_lib_ok lib" "envelope_valid e" "encode lib e = Ok w"
  shows "\<exists>e'. decode lib w = Ok e' \<and> envelope_eq e' (wire_normal lib e)"
proof -
  let ?m = "wire_headers w" and ?hs = "custom_headers e"
  note em = encode_map [OF assms] and en = encode_entries [OF assms]
  have wf: "headers_wf (plain ?hs)" using assms(2) by (simp add: envelope_valid_def Let_def headers_wf_plain)
  note cu = customs_props [OF em(2) en(2) wf]
  let ?s = "\<lparr>sc_slot = (\<lambda>k. if k \<in> set framework_kinds
        then (case map_of ?m (header_const k) of Some vs \<Rightarrow> Some (hd vs) | None \<Rightarrow> None) else None),
      sc_custom = (if customs ?m = [] then None else Some (customs ?m))\<rparr>"
  have scan: "scan ?m scanned_default = Ok ?s"
  proof -
    have d: "sc_slot scanned_default = (\<lambda>_. None)" "sc_custom scanned_default = None"
      "custom_part scanned_default = []"
      by (simp_all add: scanned_default_def custom_part_def headers_default_def)
    show ?thesis using scan_effect [OF em(2) en(1), of scanned_default] cu(1) unfolding scanned_def d by simp
  qed
  have slots: "sc_slot ?s k = slot_value lib e k" if "k \<in> set framework_kinds" for k
    using em(3) [OF that] that by (cases "slot_value lib e k") simp_all
  note parsed = parse_identity_slots [OF assms(1,2) slots] parse_metadata_slots [OF assms(1,2) slots em(6)]
  let ?e' = "envelope_from_parts (env_id e) (message_type e) (body e) (metadata (wire_normal lib e)) (sc_custom ?s)"
  have "decode lib w = Ok ?e'"
    using scan parsed em(1) by (simp add: decode_def into_envelope_def) (simp add: wire_normal_def Let_def)
  moreover have "envelope_eq ?e' (wire_normal lib e)"
    using cu(2,3) by (simp add: envelope_eq_def envelope_from_parts_def headers_eq_def wire_normal_def Let_def)
  ultimately show ?thesis by blast
qed

text \<open>C9. A message read back from the wire is the envelope that was sent. For every valid envelope that
  \<^verbatim>\<open>encode\<close> accepts, and whatever the iteration order of the two header maps, \<^verbatim>\<open>decode\<close> succeeds and
  returns the same envelope in the wire's normal form: same id, type, version, payload, content
  type, correlation, causation, conversation, routing, timestamps, tenant and custom headers; a
  custom header that spells a trace header fills the trace field when the envelope leaves it unset
  and yields to it otherwise; a deduplication id equal to the message id is read as unset.\<close>

theorem decode_encode:
  assumes "nats_lib_ok lib" "envelope_valid e" "encode lib e = Ok w"
  shows "\<exists>e'. decode lib w = Ok e' \<and> envelope_eq e' (wire_normal lib e)"
  by (rule decode_encoded [OF assms])

section \<open>What reaches the wire\<close>

definition wire_ok :: "NatsLib \<Rightarrow> HeaderMap \<Rightarrow> bool" where
  "wire_ok lib m \<longleftrightarrow> distinct (map fst m) \<and> (\<forall>n vs. map_of m n = Some vs \<longrightarrow>
     (\<exists>v. vs = [v] \<and> nl_value_ok lib v)
     \<and> (n \<in> header_const ` set framework_kinds \<or> nl_name_ok lib n \<and> \<not> starts_with_ci n h_nats_prefix))"

lemma wire_ok_insert:
  assumes "nats_lib_ok lib" "wire_ok lib m" "nl_value_ok lib v"
    "n \<in> header_const ` set framework_kinds \<or> nl_name_ok lib n \<and> \<not> starts_with_ci n h_nats_prefix"
  shows "wire_ok lib (nl_insert lib n v m)"
  using assms nats_lib_okD(1,2) [OF assms(1), of m n v] by (simp add: wire_ok_def)

lemma trace_const_framework: "trace_override_name k = Some c \<Longrightarrow> c \<in> header_const ` set framework_kinds"
  using trace_override_cases [of k c] by (auto simp: framework_kinds_def)

lemma encode_custom_wire_ok:
  "nats_lib_ok lib \<Longrightarrow> wire_ok lib m \<Longrightarrow> encode_custom lib tc hs m tp ts = Ok m' \<Longrightarrow> wire_ok lib m'"
proof (induction hs arbitrary: m tp ts)
  case (Cons kv hs)
  obtain k v where kv: "kv = (k, v)" by (cases kv)
  show ?case
  proof (cases "trace_override_name k")
    case None
    with Cons.prems(3) have ok: "nl_name_ok lib k" "nl_value_ok lib v" "\<not> starts_with_ci k h_nats_prefix"
      "encode_custom lib tc hs (nl_insert lib k v m) tp ts = Ok m'" by (auto simp: kv split: if_splits)
    with Cons.IH [OF Cons.prems(1) wire_ok_insert [OF Cons.prems(1,2) ok(2)]] show ?thesis by blast
  next
    case (Some c)
    note fw = trace_const_framework [OF Some]
    from Cons.prems(3) Some consider "encode_custom lib tc hs m tp ts = Ok m'"
      | tp' ts' where "nl_value_ok lib v" "encode_custom lib tc hs (nl_insert lib c v m) tp' ts' = Ok m'"
      by (auto simp: kv Let_def and_then_eq_Ok_iff header_value_def split: if_splits)
    then show ?thesis
      using Cons.IH [OF Cons.prems(1)] Cons.prems(2) wire_ok_insert [OF Cons.prems(1,2) _ disjI1 [OF fw]]
      by cases blast+
  qed
qed simp

lemma put_all_wire_ok:
  "nats_lib_ok lib \<Longrightarrow> wire_ok lib m \<Longrightarrow> put_all lib xs m = Ok m' \<Longrightarrow>
   fst ` set xs \<subseteq> header_const ` set framework_kinds \<Longrightarrow> wire_ok lib m'"
proof (induction xs arbitrary: m)
  case (Cons x xs)
  obtain n r where x: "x = (n, r)" by (cases x)
  from Cons.prems(3) obtain v m1 where v: "put_opt lib n v m = Ok m1" "put_all lib xs m1 = Ok m'"
    by (auto simp: x and_then_eq_Ok_iff)
  have n: "n \<in> header_const ` set framework_kinds" and xs: "fst ` set xs \<subseteq> header_const ` set framework_kinds"
    using Cons.prems(4) by (auto simp: x)
  have "m1 = m \<or> (\<exists>s. nl_value_ok lib s \<and> m1 = nl_insert lib n s m)"
    using v(1) by (auto simp: put_opt_def put_def header_value_def and_then_eq_Ok_iff split: option.splits if_splits)
  then have "wire_ok lib m1" using Cons.prems(2) wire_ok_insert [OF Cons.prems(1,2) _ disjI1 [OF n]] by blast
  from Cons.IH [OF Cons.prems(1) this v(2) xs] show ?case .
qed simp

text \<open>C27. Nothing unchecked reaches the wire: in a message \<^verbatim>\<open>encode\<close> produces every header occurs once,
  with one value, a value the NATS library accepts, so no header can be injected through a type name,
  tenant, trace or custom value; every name is one of the framework's own or a custom name the
  library accepts outside the reserved \<^verbatim>\<open>Nats-\<close> namespace; the payload is the body, byte for byte.\<close>

theorem encode_wire_safe:
  assumes "nats_lib_ok lib" "encode lib e = Ok w"
  shows "wire_ok lib (wire_headers w) \<and> wire_payload w = body e"
proof -
  have nil: "wire_ok lib []" by (simp add: wire_ok_def)
  have custom: "wire_ok lib m" if "encode_custom lib tc hs [] tp ts = Ok m" for tc hs tp ts m
    by (rule encode_custom_wire_ok [OF assms(1) nil that])
  from assms(2) obtain m where m: "wire_ok lib m" "insert_framework_headers lib e m = Ok (wire_headers w)"
    "wire_payload w = body e"
    by (auto simp: encode_def and_then_eq_Ok_iff wire_message_new_def split: option.splits dest: custom intro: that [OF nil])
  from put_all_wire_ok [OF assms(1) m(1) m(2) [unfolded insert_framework_put_all]] m(3) show ?thesis by force
qed

section \<open>An instance\<close>

text \<open>A library that meets the laws: maps that iterate the newest entry first, names and values without
  line breaks, UUIDs and timestamps in decimal.\<close>

definition demo_lib :: NatsLib where
  "demo_lib =
     \<lparr>nl_name_ok = (\<lambda>k. k \<noteq> [] \<and> list_all (\<lambda>c. 33 \<le> byte c \<and> byte c \<le> 126 \<and> c \<noteq> CHR '':'') k),
      nl_value_ok = (\<lambda>v. list_all (\<lambda>c. byte c \<noteq> 10 \<and> byte c \<noteq> 13) v),
      nl_insert = (\<lambda>k v m. (k, [v]) # filter (\<lambda>(j, _). j \<noteq> k) m),
      nl_uuid_show = (\<lambda>u. show_nat (unat u)),
      nl_uuid_parse = (\<lambda>s. map_option of_nat (parse_uint (2 ^ 128 - 1) s)),
      nl_time_format = (\<lambda>t. if t < 0 then None else Some (show_nat (nat t))),
      nl_time_parse = (\<lambda>s. map_option int (parse_uint (digits_value s) s))\<rparr>"

lemma demo_lib_ok: "nats_lib_ok demo_lib"
  unfolding nats_lib_ok_def
proof (intro conjI allI impI)
  fix k v and m :: HeaderMap assume d: "distinct (map fst m)"
  show "distinct (map fst (nl_insert demo_lib k v m))"
    using d by (auto simp: demo_lib_def distinct_map_filter)
  have "map_of (filter (\<lambda>(j, _). j \<noteq> k) m) n = (if n = k then None else map_of m n)" for n
    by (induction m) auto
  then show "map_of (nl_insert demo_lib k v m) = (map_of m)(k \<mapsto> [v])" by (auto simp: demo_lib_def fun_eq_iff)
next
  fix u :: uuid
  have "unat u < 2 ^ 128" using unsigned_less [of u, where ?'a = nat] by simp
  then have "parse_uint (2 ^ 128 - 1) (show_nat (unat u)) = Some (unat u)" by (intro parse_uint_show_nat) simp
  then show "nl_uuid_parse demo_lib (nl_uuid_show demo_lib u) = Some u" by (simp add: demo_lib_def)
next
  fix t s assume "nl_time_format demo_lib t = Some s"
  then have "0 \<le> t" "s = show_nat (nat t)" by (auto simp: demo_lib_def split: if_splits)
  then show "nl_time_parse demo_lib s = Some t"
    by (simp add: demo_lib_def digits_value_show_nat parse_uint_show_nat)
qed

definition demo_envelope :: SerializedEnvelope where
  "demo_envelope =
     \<lparr>env_id = 7, message_type = \<lparr>mt_name = ''orders.created'', mt_version = 2\<rparr>, body = ''{}'',
      metadata = metadata_default\<lparr>
        correlation := correlation_default\<lparr>correlation_id := Some (CorrelationId ''c-1''), conversation_id := 9\<rparr>,
        delivery := delivery_default\<lparr>sent_at := Some 12, deduplication_id := Some ''7''\<rparr>,
        tenant_id := Some ''acme''\<rparr>,
      env_headers = Some [(''x-shard'', ''4''), (''TraceParent'', ''00-ab''), (''x-region'', ''eu'')]\<rparr>"

lemma demo_envelope_valid: "envelope_valid demo_envelope"
proof -
  have h: "headers_wf (custom_headers demo_envelope)" by code_simp
  have "content_type_parse ''application/json'' = Ok (content_type (delivery (metadata demo_envelope)))"
    "correlation_id_parse ''c-1'' = Ok (CorrelationId ''c-1'')" by code_simp+
  then have "valid_content_type (content_type (delivery (metadata demo_envelope)))"
    "valid_correlation_id (CorrelationId ''c-1'')"
    unfolding content_type_parse_iff correlation_id_parse_iff by blast+
  with h show ?thesis
    by (simp add: envelope_valid_def Let_def demo_envelope_def metadata_default_def routing_default_def)
qed

theorem decode_encode_witness:
  "\<exists>w e'. encode demo_lib demo_envelope = Ok w \<and> decode demo_lib w = Ok e'
     \<and> map fst (wire_headers w) = [''Nats-Msg-Id'', ''reliar-sent-at'', ''reliar-tenant-id'',
         ''reliar-conversation-id'', ''reliar-correlation-id'', ''reliar-content-type'',
         ''reliar-message-version'', ''reliar-message-type'', ''reliar-message-id'', ''x-region'',
         ''traceparent'', ''x-shard'']
     \<and> traceparent (trace (metadata e')) = Some ''00-ab'' \<and> deduplication_id (delivery (metadata e')) = None
     \<and> tenant_id (metadata e') = Some ''acme''"
proof -
  have "is_ok (encode demo_lib demo_envelope)" by code_simp
  then obtain w where w: "encode demo_lib demo_envelope = Ok w" by (auto simp: is_ok_iff)
  from decode_encode [OF demo_lib_ok demo_envelope_valid w] obtain e'
    where e': "decode demo_lib w = Ok e'" "envelope_eq e' (wire_normal demo_lib demo_envelope)" by blast
  have "map_err (\<lambda>_. ()) (and_then (encode demo_lib demo_envelope) (\<lambda>w. Ok (map fst (wire_headers w))))
     = Ok [''Nats-Msg-Id'', ''reliar-sent-at'', ''reliar-tenant-id'',
         ''reliar-conversation-id'', ''reliar-correlation-id'', ''reliar-content-type'',
         ''reliar-message-version'', ''reliar-message-type'', ''reliar-message-id'', ''x-region'',
         ''traceparent'', ''x-shard'']" by code_simp
  then have names: "map fst (wire_headers w) = [''Nats-Msg-Id'', ''reliar-sent-at'', ''reliar-tenant-id'',
         ''reliar-conversation-id'', ''reliar-correlation-id'', ''reliar-content-type'',
         ''reliar-message-version'', ''reliar-message-type'', ''reliar-message-id'', ''x-region'',
         ''traceparent'', ''x-shard'']" by (simp only: w and_then_Ok map_err_Ok sum.inject)
  have "traceparent (trace (metadata (wire_normal demo_lib demo_envelope))) = Some ''00-ab''"
    "deduplication_id (delivery (metadata (wire_normal demo_lib demo_envelope))) = None"
    "tenant_id (metadata (wire_normal demo_lib demo_envelope)) = Some ''acme''" by code_simp+
  with w e' names show ?thesis unfolding envelope_eq_def by metis
qed

theorem encode_wire_safe_witness:
  "(\<exists>w. encode demo_lib demo_envelope = Ok w \<and> wire_ok demo_lib (wire_headers w))
   \<and> encode demo_lib (demo_envelope\<lparr>metadata := metadata_default\<lparr>tenant_id := Some (''a'' @ [CHR 10])\<rparr>\<rparr>)
     = Err (InvalidHeaderValue ''reliar-tenant-id'')"
proof -
  have "is_ok (encode demo_lib demo_envelope)" by code_simp
  then obtain w where "encode demo_lib demo_envelope = Ok w" by (auto simp: is_ok_iff)
  moreover from encode_wire_safe [OF demo_lib_ok this] have "wire_ok demo_lib (wire_headers w)" ..
  moreover have "encode demo_lib (demo_envelope\<lparr>metadata := metadata_default\<lparr>tenant_id := Some (''a'' @ [CHR 10])\<rparr>\<rparr>)
     = Err (InvalidHeaderValue ''reliar-tenant-id'')" by code_simp
  ultimately show ?thesis by blast
qed

end
