(* ===== verification/Nats_Publisher.thy ===== *)
theory Nats_Publisher
  imports Nats_Roundtrip "HOL-Library.Multiset"
begin

text \<open>
  \<^verbatim>\<open>reliar-transport-nats/src/publisher.rs\<close> over a JetStream context, and the default batch of the
  \<^verbatim>\<open>Publisher\<close> trait (\<^verbatim>\<open>reliar-core/src/publisher.rs\<close>). What \<^verbatim>\<open>async-nats\<close> and the network do is the record
  \<open>JetStream\<close>, an argument: a send and the wait for its acknowledgement are futures, each with the
  instant it resolves, if it ever does, and what the world becomes. \<open>timeout_at\<close> is tokio's: a future
  ready when polled wins over a deadline that has passed. Instants are unbounded, so
  \<^verbatim>\<open>window_start + publish_timeout\<close> does not overflow here.
\<close>

section \<open>The network\<close>

datatype PublishErrorKind =
    PkStreamNotFound
  | PkWrongLastMessageId
  | PkWrongLastSequence
  | PkTimedOut
  | PkBrokenPipe
  | PkMaxAckPending
  | PkMaxPayloadExceeded
  | PkOther

record PublishAck =
  pa_sequence :: nat
  pa_duplicate :: bool

type_synonym 'a future = "('a \<times> instant) option"

text \<open>\<open>'w\<close> is the state of the connection and the server, \<open>'a\<close> the handle of an acknowledgement that is
  still to come.\<close>

record ('w, 'a) JetStream =
  js_publish_with_headers ::
    "Subject \<Rightarrow> HeaderMap \<Rightarrow> bytes \<Rightarrow> instant \<Rightarrow> 'w \<Rightarrow> ('a, PublishErrorKind) result future \<times> 'w"
  js_ack :: "'a \<Rightarrow> instant \<Rightarrow> 'w \<Rightarrow> (PublishAck, PublishErrorKind) result future \<times> 'w"

text \<open>Awaiting a future until a deadline, from the instant \<open>t\<close>: its value, \<^const>\<open>None\<close> when the deadline came
  first, and the instant at which the caller goes on.\<close>

definition timeout_at :: "instant \<Rightarrow> instant \<Rightarrow> 'a future \<Rightarrow> 'a option \<times> instant" where
  "timeout_at deadline t fut =
     (case fut of
        Some (x, r) \<Rightarrow> if r \<le> max t deadline then (Some x, max t r) else (None, max t deadline)
      | None \<Rightarrow> (None, max t deadline))"

section \<open>The publisher\<close>

record 'r NatsPublisher =
  np_resolver :: "SerializedEnvelope \<Rightarrow> (Subject, 'r) result"
  np_settings :: NatsSettings

definition nats_build ::
    "NatsSettings \<Rightarrow> (SerializedEnvelope \<Rightarrow> (Subject, 'r) result) \<Rightarrow> ('r NatsPublisher, NatsConfigError) result" where
  "nats_build s resolver =
     (if ns_batch_pipeline_depth s = 0 then Err ZeroBatchPipelineDepth
      else if ns_publish_timeout s = 0 then Err ZeroPublishTimeout
      else if ns_max_payload s = Some 0 then Err ZeroMaxPayload
      else Ok \<lparr>np_resolver = resolver, np_settings = s\<rparr>)"

definition nats_new :: "NatsSettings \<Rightarrow> (SubjectError NatsPublisher, NatsConfigError) result" where
  "nats_new s =
     and_then (map_err NcSubject (prefix_subjects_new (ns_subject_prefix s)))
       (\<lambda>resolver. nats_build s (prefix_subject resolver))"

definition nats_with_resolver ::
    "NatsSettings \<Rightarrow> (SerializedEnvelope \<Rightarrow> (Subject, 'r) result) \<Rightarrow> ('r NatsPublisher, NatsConfigError) result" where
  "nats_with_resolver s resolver = nats_build s resolver"

definition prepare ::
    "NatsLib \<Rightarrow> 'r NatsPublisher \<Rightarrow> SerializedEnvelope
     \<Rightarrow> (Subject \<times> NatsWireMessage, 'r NatsPublishError) result" where
  "prepare lib self e =
     and_then (map_err NpSubject (np_resolver self e)) (\<lambda>subject.
     and_then (map_err NpMap (encode lib e)) (\<lambda>wire.
     case ns_max_payload (np_settings self) of
       Some cap \<Rightarrow>
         (if wire_len wire > cap then Err (PayloadTooLarge (wire_len wire) cap) else Ok (subject, wire))
     | None \<Rightarrow> Ok (subject, wire)))"

section \<open>Verdicts\<close>

definition u64_max :: nat where
  "u64_max = 2 ^ 64 - 1"

definition elapsed_ms :: "instant \<Rightarrow> instant \<Rightarrow> nat" where
  "elapsed_ms start t = min (as_millis (nat (t - start))) u64_max"

definition broker_error :: "Subject \<Rightarrow> 'r NatsPublishError" where
  "broker_error subject = NpBroker subject"

definition classify_publish_error ::
    "Subject \<Rightarrow> PublishErrorKind \<Rightarrow> instant \<Rightarrow> instant \<Rightarrow> 'r NatsPublishError" where
  "classify_publish_error subject kind start t =
     (case kind of
        PkStreamNotFound \<Rightarrow> StreamNotFound subject
      | PkWrongLastMessageId \<Rightarrow> WrongLastMessage subject
      | PkWrongLastSequence \<Rightarrow> WrongLastMessage subject
      | PkTimedOut \<Rightarrow> NpTimeout subject (elapsed_ms start t)
      | PkBrokenPipe \<Rightarrow> NpConnection subject
      | PkMaxAckPending \<Rightarrow> MaxAckPending subject
      | PkMaxPayloadExceeded \<Rightarrow> MaxPayloadExceeded subject
      | PkOther \<Rightarrow> broker_error subject)"

text \<open>A stage of a publish that \<^const>\<open>timeout_at\<close> bounds, with its error classified at the instant it is seen.\<close>

definition bounded_stage ::
    "Subject \<Rightarrow> instant \<Rightarrow> instant \<Rightarrow> instant \<Rightarrow> ('b, PublishErrorKind) result future
     \<Rightarrow> ('b, 'r NatsPublishError) result \<times> instant" where
  "bounded_stage subject start deadline t fut =
     (case timeout_at deadline t fut of
        (None, t') \<Rightarrow> (Err (NpTimeout subject (elapsed_ms start t')), t')
      | (Some (Inl kind), t') \<Rightarrow> (Err (classify_publish_error subject kind start t'), t')
      | (Some (Inr x), t') \<Rightarrow> (Ok x, t'))"

section \<open>One message\<close>

definition publish_prepared ::
    "('w, 'a) JetStream \<Rightarrow> Subject \<Rightarrow> NatsWireMessage \<Rightarrow> duration \<Rightarrow> instant \<Rightarrow> 'w
     \<Rightarrow> (unit, 'r NatsPublishError) result \<times> instant \<times> 'w" where
  "publish_prepared js subject wire timeout start w =
     (let (headers, payload) = wire_into_parts wire;
          deadline = start + int timeout;
          (fut, w1) = js_publish_with_headers js subject headers payload start w
      in case bounded_stage subject start deadline start fut of
           (Inl err, t) \<Rightarrow> (Err err, t, w1)
         | (Inr ack_future, t) \<Rightarrow>
             (let (fut', w2) = js_ack js ack_future t w1
              in case bounded_stage subject start deadline t fut' of
                   (Inl err, t') \<Rightarrow> (Err err, t', w2)
                 | (Inr ack, t') \<Rightarrow> (Ok (), t', w2)))"

definition nats_publish ::
    "NatsLib \<Rightarrow> ('w, 'a) JetStream \<Rightarrow> 'r NatsPublisher \<Rightarrow> SerializedEnvelope \<Rightarrow> instant \<Rightarrow> 'w
     \<Rightarrow> (unit, 'r NatsPublishError) result \<times> instant \<times> 'w" where
  "nats_publish lib js self e t w =
     (case prepare lib self e of
        Inl err \<Rightarrow> (Err err, t, w)
      | Inr (subject, wire) \<Rightarrow>
          publish_prepared js subject wire (ns_publish_timeout (np_settings self)) t w)"

text \<open>The trait's default batch: one publish after the other.\<close>

fun publish_each ::
    "('e \<Rightarrow> instant \<Rightarrow> 'w \<Rightarrow> 'v \<times> instant \<times> 'w) \<Rightarrow> 'e list \<Rightarrow> instant \<Rightarrow> 'w \<Rightarrow> 'v list \<times> instant \<times> 'w" where
  "publish_each publish [] t w = ([], t, w)"
| "publish_each publish (e # es) t w =
     (let (r, t1, w1) = publish e t w; (rs, t2, w2) = publish_each publish es t1 w1 in (r # rs, t2, w2))"

section \<open>A batch\<close>

type_synonym prepared = "nat \<times> Subject \<times> NatsWireMessage"

fun prepare_all ::
    "NatsLib \<Rightarrow> 'r NatsPublisher \<Rightarrow> nat \<Rightarrow> SerializedEnvelope list
     \<Rightarrow> (nat \<times> (unit, 'r NatsPublishError) result) list \<times> prepared list" where
  "prepare_all lib self i [] = ([], [])"
| "prepare_all lib self i (e # es) =
     (let (outcomes, prep) = prepare_all lib self (Suc i) es
      in case prepare lib self e of
           Inr (subject, wire) \<Rightarrow> (outcomes, (i, subject, wire) # prep)
         | Inl err \<Rightarrow> ((i, Err err) # outcomes, prep))"

fun issue_window_sends ::
    "('w, 'a) JetStream \<Rightarrow> prepared list \<Rightarrow> instant \<Rightarrow> instant \<Rightarrow> instant \<Rightarrow> 'w
     \<Rightarrow> (nat \<times> Subject \<times> ('a, 'r NatsPublishError) result) list \<times> instant \<times> 'w" where
  "issue_window_sends js [] deadline window_start t w = ([], t, w)"
| "issue_window_sends js ((i, subject, wire) # window) deadline window_start t w =
     (let (headers, payload) = wire_into_parts wire;
          (fut, w1) = js_publish_with_headers js subject headers payload t w;
          (outcome, t1) = bounded_stage subject window_start deadline t fut;
          (sent, t2, w2) = issue_window_sends js window deadline window_start t1 w1
      in ((i, subject, outcome) # sent, t2, w2))"

fun await_window_acks ::
    "('w, 'a) JetStream \<Rightarrow> (nat \<times> Subject \<times> ('a, 'r NatsPublishError) result) list
     \<Rightarrow> instant \<Rightarrow> instant \<Rightarrow> instant \<Rightarrow> 'w
     \<Rightarrow> (nat \<times> (unit, 'r NatsPublishError) result) list \<times> instant \<times> 'w" where
  "await_window_acks js [] deadline window_start t w = ([], t, w)"
| "await_window_acks js ((i, subject, Inl err) # sent) deadline window_start t w =
     (let (outcomes, t2, w2) = await_window_acks js sent deadline window_start t w
      in ((i, Err err) # outcomes, t2, w2))"
| "await_window_acks js ((i, subject, Inr ack_future) # sent) deadline window_start t w =
     (let (fut, w1) = js_ack js ack_future t w;
          (result, t1) = bounded_stage subject window_start deadline t fut;
          (outcomes, t2, w2) = await_window_acks js sent deadline window_start t1 w1
      in ((i, and_then result (\<lambda>_. Ok ())) # outcomes, t2, w2))"

text \<open>The body of the loop: one window, sends first, then acknowledgements.\<close>

definition publish_window ::
    "('w, 'a) JetStream \<Rightarrow> duration \<Rightarrow> prepared list \<Rightarrow> instant \<Rightarrow> 'w
     \<Rightarrow> (nat \<times> (unit, 'r NatsPublishError) result) list \<times> instant \<times> 'w" where
  "publish_window js timeout window window_start w =
     (let deadline = window_start + int timeout;
          (sent, t1, w1) = issue_window_sends js window deadline window_start window_start w
      in await_window_acks js sent deadline window_start t1 w1)"

text \<open>\<^verbatim>\<open>while !prepared.is_empty()\<close>: \<^const>\<open>None\<close> when it never ends, as it would for a depth of zero.\<close>

partial_function (option) publish_windows ::
    "('w, 'a) JetStream \<Rightarrow> NatsSettings \<Rightarrow> prepared list
     \<Rightarrow> (nat \<times> (unit, 'r NatsPublishError) result) list \<Rightarrow> instant \<Rightarrow> 'w
     \<Rightarrow> ((nat \<times> (unit, 'r NatsPublishError) result) list \<times> instant \<times> 'w) option" where
  "publish_windows js s prep outcomes t w =
     (if prep = [] then Some (outcomes, t, w)
      else
        let take_n = min (length prep) (ns_batch_pipeline_depth s);
            (more, t1, w1) = publish_window js (ns_publish_timeout s) (take take_n prep) t w
        in publish_windows js s (drop take_n prep) (outcomes @ more) t1 w1)"

declare publish_windows.simps [code]

definition nats_publish_batch ::
    "NatsLib \<Rightarrow> ('w, 'a) JetStream \<Rightarrow> 'r NatsPublisher \<Rightarrow> SerializedEnvelope list \<Rightarrow> instant \<Rightarrow> 'w
     \<Rightarrow> ((unit, 'r NatsPublishError) result list \<times> instant \<times> 'w) option" where
  "nats_publish_batch lib js self es t w =
     (let (outcomes, prep) = prepare_all lib self 0 es
      in case publish_windows js (np_settings self) prep outcomes t w of
           None \<Rightarrow> None
         | Some (outcomes', t', w') \<Rightarrow> Some (map snd (sort_key fst outcomes'), t', w'))"

section \<open>Verdicts come from the broker\<close>

definition sent_as :: "('w, 'a) JetStream \<Rightarrow> Subject \<Rightarrow> NatsWireMessage \<Rightarrow> ('a, PublishErrorKind) result \<Rightarrow> bool" where
  "sent_as js subject wire v \<longleftrightarrow>
     (\<exists>t w r. fst (js_publish_with_headers js subject (wire_headers wire) (wire_payload wire) t w) = Some (v, r))"

definition answered_as :: "('w, 'a) JetStream \<Rightarrow> 'a \<Rightarrow> (PublishAck, PublishErrorKind) result \<Rightarrow> bool" where
  "answered_as js a v \<longleftrightarrow> (\<exists>t w r. fst (js_ack js a t w) = Some (v, r))"

definition acked :: "('w, 'a) JetStream \<Rightarrow> Subject \<Rightarrow> NatsWireMessage \<Rightarrow> bool" where
  "acked js subject wire \<longleftrightarrow> (\<exists>a k. sent_as js subject wire (Ok a) \<and> answered_as js a (Ok k))"

definition refusal :: "PublishErrorKind \<Rightarrow> bool" where
  "refusal k \<longleftrightarrow> k \<in> {PkWrongLastMessageId, PkWrongLastSequence, PkMaxPayloadExceeded}"

definition refused :: "('w, 'a) JetStream \<Rightarrow> Subject \<Rightarrow> NatsWireMessage \<Rightarrow> bool" where
  "refused js subject wire \<longleftrightarrow>
     (\<exists>k. refusal k \<and> (sent_as js subject wire (Err k)
        \<or> (\<exists>a. sent_as js subject wire (Ok a) \<and> answered_as js a (Err k))))"

definition verdict_sound ::
    "('w, 'a) JetStream \<Rightarrow> Subject \<Rightarrow> NatsWireMessage \<Rightarrow> (unit, 'r NatsPublishError) result \<Rightarrow> bool" where
  "verdict_sound js subject wire v \<longleftrightarrow>
     (v = Ok () \<longrightarrow> acked js subject wire)
     \<and> (\<forall>err. v = Err err \<and> publish_error_kind err = Permanent \<longrightarrow> refused js subject wire)"

lemma timeout_at_within: "timeout_at d t fut = (x, t') \<Longrightarrow> t \<le> t' \<and> t' \<le> max t d"
  by (auto simp: timeout_at_def split: option.splits if_splits)

lemma timeout_at_Some: "timeout_at d t fut = (Some x, t') \<Longrightarrow> \<exists>r. fut = Some (x, r)"
  by (auto simp: timeout_at_def split: option.splits if_splits)

lemma classify_permanent [simp]:
  "publish_error_kind (classify_publish_error s k st t) = Permanent \<longleftrightarrow> refusal k"
  by (cases k) (simp_all add: classify_publish_error_def refusal_def broker_error_def)

lemma bounded_stage_within: "bounded_stage s st d t fut = (v, t') \<Longrightarrow> t \<le> t' \<and> t' \<le> max t d"
  using timeout_at_within [of d t fut] by (auto simp: bounded_stage_def split: prod.splits option.splits sum.splits)

lemma bounded_stage_Ok: "bounded_stage s st d t fut = (Ok x, t') \<Longrightarrow> \<exists>r. fut = Some (Ok x, r)"
  by (auto simp: bounded_stage_def split: prod.splits option.splits sum.splits dest: timeout_at_Some)

lemma bounded_stage_Permanent:
  "bounded_stage s st d t fut = (Err err, t') \<Longrightarrow> publish_error_kind err = Permanent \<Longrightarrow>
   \<exists>k r. refusal k \<and> fut = Some (Err k, r)"
  by (auto simp: bounded_stage_def split: prod.splits option.splits sum.splits dest: timeout_at_Some)

text \<open>What a send leaves behind for the acknowledgement stage.\<close>

definition sent_sound ::
    "('w, 'a) JetStream \<Rightarrow> Subject \<Rightarrow> NatsWireMessage \<Rightarrow> ('a, 'r NatsPublishError) result \<Rightarrow> bool" where
  "sent_sound js subject wire v \<longleftrightarrow>
     (\<forall>a. v = Ok a \<longrightarrow> sent_as js subject wire (Ok a))
     \<and> (\<forall>err. v = Err err \<and> publish_error_kind err = Permanent \<longrightarrow> refused js subject wire)"

lemma send_sound:
  assumes "js_publish_with_headers js s (wire_headers m) (wire_payload m) t w = (fut, w1)"
    "bounded_stage s st d t' fut = (v, t1)"
  shows "sent_sound js s m v"
proof -
  have fut: "sent_as js s m x" if "fut = Some (x, r)" for x r
    unfolding sent_as_def using assms(1) that by (metis fst_conv)
  show ?thesis unfolding sent_sound_def refused_def using assms(2) fut
    by (metis bounded_stage_Ok bounded_stage_Permanent)
qed

lemma ack_sound:
  assumes "sent_as js s m (Ok a)" "js_ack js a t w = (fut, w1)" "bounded_stage s st d t' fut = (v, t1)"
  shows "verdict_sound js s m (and_then v (\<lambda>_. Ok ()))"
proof -
  have fut: "answered_as js a x" if "fut = Some (x, r)" for x r
    unfolding answered_as_def using assms(2) that by (metis fst_conv)
  show ?thesis
  proof (cases v)
    case (Inl err)
    have "refused js s m" if "publish_error_kind err = Permanent"
      using bounded_stage_Permanent [OF assms(3) [unfolded Inl] that] assms(1) fut unfolding refused_def by metis
    with Inl show ?thesis by (simp add: verdict_sound_def)
  next
    case (Inr k)
    have "acked js s m" unfolding acked_def using bounded_stage_Ok [OF assms(3) [unfolded Inr]] assms(1) fut by metis
    with Inr show ?thesis by (simp add: verdict_sound_def)
  qed
qed

lemma sent_sound_Err: "sent_sound js s m (Err e) \<longleftrightarrow> verdict_sound js s m (Err e)"
  by (simp add: sent_sound_def verdict_sound_def)

lemma sent_sound_Ok: "sent_sound js s m (Ok a) \<longleftrightarrow> sent_as js s m (Ok a)"
  by (simp add: sent_sound_def)

lemma publish_prepared_sound:
  fixes v :: "(unit, 'r NatsPublishError) result"
  assumes "publish_prepared js s m timeout t w = (v, t', w')"
  shows "verdict_sound js s m v \<and> t \<le> t' \<and> t' \<le> t + int timeout"
proof -
  obtain fut w1 where send: "js_publish_with_headers js s (wire_headers m) (wire_payload m) t w = (fut, w1)"
    by (cases "js_publish_with_headers js s (wire_headers m) (wire_payload m) t w")
  obtain v1 :: "('b, 'r NatsPublishError) result" and t1
    where v1: "bounded_stage s t (t + int timeout) t fut = (v1, t1)" by fastforce
  note t1 = bounded_stage_within [OF v1] and snd = send_sound [OF send v1]
  show ?thesis
  proof (cases v1)
    case (Inl err)
    with assms v1 send have "v = Err err" "t' = t1" by (simp_all add: publish_prepared_def wire_into_parts_def)
    with snd t1 Inl show ?thesis by (simp add: sent_sound_Err)
  next
    case (Inr a)
    obtain fut' w2 where ack: "js_ack js a t1 w1 = (fut', w2)" by (cases "js_ack js a t1 w1")
    obtain v2 :: "(PublishAck, 'r NatsPublishError) result" and t2
      where v2: "bounded_stage s t (t + int timeout) t1 fut' = (v2, t2)" by fastforce
    from assms v1 send ack v2 Inr have "v = and_then v2 (\<lambda>_. Ok ())" "t' = t2"
      by (auto simp: publish_prepared_def wire_into_parts_def split: sum.splits)
    with ack_sound [OF _ ack v2] snd Inr t1 bounded_stage_within [OF v2] show ?thesis
      by (simp add: sent_sound_Ok)
  qed
qed

lemma prepare_error_permanent:
  "prepare lib self e = Err err \<Longrightarrow> publish_error_kind err = Permanent"
  by (cases "np_resolver self e"; cases "encode lib e")
     (auto simp: prepare_def Let_def split: option.splits if_splits)

lemma nats_publish_verdict:
  assumes "nats_publish lib js self e t w = (v, t', w')"
  shows "t \<le> t' \<and> t' \<le> t + int (ns_publish_timeout (np_settings self))
    \<and> (case prepare lib self e of
         Inl err \<Rightarrow> v = Err err \<and> publish_error_kind err = Permanent \<and> t' = t \<and> w' = w
       | Inr (subject, wire) \<Rightarrow> verdict_sound js subject wire v)"
  using assms publish_prepared_sound
  by (fastforce simp: nats_publish_def prepare_error_permanent split: sum.splits prod.splits)

text \<open>C17. A publish is told the truth and on time: it returns within the publish timeout; \<^verbatim>\<open>Ok\<close> means that the
  broker acknowledged this subject and this wire message; an envelope that cannot be prepared fails
  permanently without touching the network; otherwise a permanent failure means that the broker
  itself refused the message for its content or its expectations, so that an outage, a missing
  stream, back-pressure or a timeout never dead-letters a message.\<close>

theorem nats_publish_sound:
  assumes "nats_publish lib js self e t w = (v, t', w')"
  shows "t \<le> t' \<and> t' \<le> t + int (ns_publish_timeout (np_settings self))
    \<and> (case prepare lib self e of
         Inl err \<Rightarrow> v = Err err \<and> publish_error_kind err = Permanent \<and> t' = t \<and> w' = w
       | Inr (subject, wire) \<Rightarrow> verdict_sound js subject wire v)"
  by (rule nats_publish_verdict [OF assms])

section \<open>Batches\<close>

definition window_sound ::
    "('w, 'a) JetStream \<Rightarrow> prepared \<Rightarrow> nat \<times> (unit, 'r NatsPublishError) result \<Rightarrow> bool" where
  "window_sound js p q \<longleftrightarrow> fst q = fst p \<and> verdict_sound js (fst (snd p)) (snd (snd p)) (snd q)"

definition send_matches ::
    "('w, 'a) JetStream \<Rightarrow> prepared \<Rightarrow> nat \<times> Subject \<times> ('a, 'r NatsPublishError) result \<Rightarrow> bool" where
  "send_matches js p q \<longleftrightarrow>
     fst q = fst p \<and> fst (snd q) = fst (snd p) \<and> sent_sound js (fst (snd p)) (snd (snd p)) (snd (snd q))"

lemma issue_window_sends_sound:
  assumes "issue_window_sends js window d st t w = (sent, t', w')"
  shows "list_all2 (send_matches js) window sent \<and> t \<le> t' \<and> t' \<le> max t d"
  using assms
proof (induction window arbitrary: t w sent)
  case (Cons p window)
  obtain i s m where p: "p = (i, s, m)" by (cases p)
  obtain fut w1 where send: "js_publish_with_headers js s (wire_headers m) (wire_payload m) t w = (fut, w1)"
    by fastforce
  obtain v t1 sent'
    where v: "bounded_stage s st d t fut = (v, t1)"
      and rest: "issue_window_sends js window d st t1 w1 = (sent', t', w')"
      and res: "sent = (i, s, v) # sent'"
    using Cons.prems send by (auto simp: p wire_into_parts_def split: prod.splits)
  from Cons.IH [OF rest] show ?case using bounded_stage_within [OF v] send_sound [OF send v]
    by (auto simp: p res send_matches_def)
qed simp

lemma await_window_acks_sound:
  assumes "await_window_acks js sent d st t w = (outs, t', w')" "list_all2 (send_matches js) window sent"
  shows "list_all2 (window_sound js) window outs \<and> t \<le> t' \<and> t' \<le> max t d"
  using assms
proof (induction sent arbitrary: window t w outs)
  case (Cons q sent)
  obtain i s m window' where win: "window = (i, s, m) # window'"
    and rel: "send_matches js (i, s, m) q" "list_all2 (send_matches js) window' sent"
    using Cons.prems(2) by (cases window) auto
  obtain v where q: "q = (i, s, v)" "sent_sound js s m v"
    using rel(1) by (cases q) (auto simp: send_matches_def)
  show ?case
  proof (cases v)
    case (Inl err)
    with Cons.prems(1) obtain outs' where "await_window_acks js sent d st t w = (outs', t', w')"
      "outs = (i, Err err) # outs'" by (auto simp: q split: prod.splits)
    with Cons.IH [OF _ rel(2)] q(2) Inl show ?thesis
      by (auto simp: win window_sound_def sent_sound_Err)
  next
    case (Inr a)
    obtain fut w1 where ack: "js_ack js a t w = (fut, w1)" by fastforce
    with Cons.prems(1) Inr obtain r t1 outs'
      where r: "bounded_stage s st d t fut = (r, t1)" "await_window_acks js sent d st t1 w1 = (outs', t', w')"
        "outs = (i, and_then r (\<lambda>_. Ok ())) # outs'" by (auto simp: q split: prod.splits)
    with Cons.IH [OF r(2) rel(2)] ack_sound [OF _ ack r(1), of m] q(2) Inr bounded_stage_within [OF r(1)]
    show ?thesis by (auto simp: win window_sound_def sent_sound_Ok)
  qed
qed simp

lemma publish_window_sound:
  assumes "publish_window js timeout window t w = (outs, t', w')"
  shows "list_all2 (window_sound js) window outs \<and> t \<le> t' \<and> t' \<le> t + int timeout"
proof -
  from assms obtain sent t1 w1 where 1: "issue_window_sends js window (t + int timeout) t t w = (sent, t1, w1)"
    "await_window_acks js sent (t + int timeout) t t1 w1 = (outs, t', w')"
    by (auto simp: publish_window_def Let_def split: prod.splits)
  from issue_window_sends_sound [OF 1(1)] await_window_acks_sound [OF 1(2)] show ?thesis by fastforce
qed

text \<open>The windows a batch of \<open>n\<close> prepared messages takes at depth \<open>d\<close>.\<close>

definition window_count :: "nat \<Rightarrow> nat \<Rightarrow> nat" where
  "window_count n d = (n + d - 1) div d"

lemma window_count_step:
  assumes "0 < d" "0 < n"
  shows "window_count n d = Suc (window_count (n - min n d) d)"
proof -
  obtain k where k: "n = Suc k" using assms(2) by (cases n) auto
  have "window_count n d = Suc (k div d)" using assms(1) by (simp add: k window_count_def)
  moreover have "k div d = window_count (n - min n d) d"
    using assms by (cases "n \<le> d") (auto simp: k window_count_def)
  ultimately show ?thesis by simp
qed

lemma publish_windows_sound:
  fixes outcomes :: "(nat \<times> (unit, 'r NatsPublishError) result) list"
  assumes "0 < ns_batch_pipeline_depth s"
  shows "\<exists>more t' w'. publish_windows js s prep outcomes t w = Some (outcomes @ more, t', w')
    \<and> list_all2 (window_sound js) prep more \<and> t \<le> t'
    \<and> t' \<le> t + int (window_count (length prep) (ns_batch_pipeline_depth s) * ns_publish_timeout s)"
proof (induction prep arbitrary: outcomes t w rule: length_induct)
  case (1 prep)
  show ?case
  proof (cases "prep = []")
    case True
    then show ?thesis by (simp add: publish_windows.simps)
  next
    case False
    define n where "n = min (length prep) (ns_batch_pipeline_depth s)"
    define u where "u = ns_publish_timeout s"
    have n: "0 < n" "n \<le> length prep" using False assms by (auto simp: n_def)
    obtain more1 :: "(nat \<times> (unit, 'r NatsPublishError) result) list" and t1 w1
      where w: "publish_window js u (take n prep) t w = (more1, t1, w1)" by (metis prod_cases3)
    have "length (drop n prep) < length prep" using n by simp
    with 1 obtain more2 t2 w2 where
      rest: "publish_windows js s (drop n prep) (outcomes @ more1) t1 w1 = Some ((outcomes @ more1) @ more2, t2, w2)"
      "list_all2 (window_sound js) (drop n prep) more2" "t1 \<le> t2"
      "t2 \<le> t1 + int (window_count (length (drop n prep)) (ns_batch_pipeline_depth s) * u)"
      unfolding u_def by blast
    have "publish_windows js s prep outcomes t w = Some (outcomes @ (more1 @ more2), t2, w2)"
      using rest(1) w False by (subst publish_windows.simps) (simp add: Let_def n_def u_def)
    moreover have "list_all2 (window_sound js) prep (more1 @ more2)"
      using list_all2_appendI [OF _ rest(2), of "take n prep" more1] publish_window_sound [OF w] by simp
    moreover have "window_count (length prep) (ns_batch_pipeline_depth s)
        = Suc (window_count (length (drop n prep)) (ns_batch_pipeline_depth s))"
      using window_count_step [OF assms, of "length prep"] False by (simp add: n_def)
    ultimately show ?thesis using publish_window_sound [OF w] rest(3,4)
      by (fastforce simp: u_def [symmetric] algebra_simps)
  qed
qed

text \<open>Preparation tags every envelope once, with its position.\<close>

lemma prepare_all_indices:
  "prepare_all lib self i es = (outs, prep) \<Longrightarrow>
   mset (map fst outs) + mset (map fst prep) = mset [i..<i + length es]"
proof (induction es arbitrary: i outs prep)
  case (Cons e es)
  obtain outs' prep' where r: "prepare_all lib self (Suc i) es = (outs', prep')" by fastforce
  have "[i..<i + length (e # es)] = i # [Suc i..<Suc i + length es]" by (simp add: upt_conv_Cons del: upt_Suc)
  with Cons.IH [OF r] Cons.prems r show ?case by (auto split: sum.splits prod.splits)
qed simp

lemma prepare_all_entries:
  "prepare_all lib self i es = (outs, prep) \<Longrightarrow>
   ((j, v) \<in> set outs \<longrightarrow> (\<exists>err. v = Err err \<and> i \<le> j \<and> prepare lib self (es ! (j - i)) = Err err))
   \<and> ((j, s, m) \<in> set prep \<longrightarrow> i \<le> j \<and> prepare lib self (es ! (j - i)) = Ok (s, m))"
proof (induction es arbitrary: i outs prep)
  case (Cons e es)
  obtain outs' prep' where r: "prepare_all lib self (Suc i) es = (outs', prep')" by fastforce
  have nth: "(e # es) ! (j - i) = (if j = i then e else es ! (j - Suc i))" if "i \<le> j"
    using that by (simp add: nth_Cons')
  from Cons.IH [OF r] Cons.prems r nth show ?case
    by (auto split: sum.splits prod.splits)
qed simp

text \<open>Sorting by position puts a complete set of tagged outcomes in order.\<close>

lemma sort_key_positions:
  assumes "mset (map fst xs) = mset [0..<n]"
  shows "map fst (sort_key fst xs) = [0..<n]"
proof -
  have "mset (map fst (sort_key fst xs)) = mset [0..<n]" using assms by simp
  moreover have "sorted (map fst (sort_key fst xs))" by simp
  ultimately show ?thesis
    by (metis mset_eq_setD mset_eq_length properties_for_sort sorted_upt)
qed

lemma sorted_outcomes:
  assumes "mset (map fst xs) = mset [0..<n]"
  shows "length (sort_key fst xs) = n"
    and "i < n \<Longrightarrow> (i, map snd (sort_key fst xs) ! i) \<in> set xs"
proof -
  note m = sort_key_positions [OF assms]
  show len: "length (sort_key fst xs) = n" using m by (metis length_map length_upt diff_zero)
  show "(i, map snd (sort_key fst xs) ! i) \<in> set xs" if "i < n"
  proof -
    have "fst (sort_key fst xs ! i) = i" using m that len by (metis nth_map nth_upt add.left_neutral)
    then have "(i, map snd (sort_key fst xs) ! i) = sort_key fst xs ! i" using that len by (simp add: prod_eq_iff)
    also have "\<dots> \<in> set (sort_key fst xs)" using that len by (intro nth_mem) simp
    finally show ?thesis by simp
  qed
qed

lemma list_all2_window_fst:
  "list_all2 (window_sound js) prep ys \<Longrightarrow> map fst ys = map fst prep"
  by (induction rule: list_all2_induct) (auto simp: window_sound_def)

lemma list_all2_window_mem:
  "list_all2 (window_sound js) prep ys \<Longrightarrow> (i, v) \<in> set ys \<Longrightarrow>
   \<exists>s m. (i, s, m) \<in> set prep \<and> verdict_sound js s m v"
  by (induction rule: list_all2_induct) (auto simp: window_sound_def, blast)

lemma publish_batch_verdicts:
  fixes js :: "('w, 'a) JetStream"
  assumes "nats_build s resolver = Ok self"
  shows "\<exists>rs t' w'. nats_publish_batch lib js self es t w = Some (rs, t', w')
    \<and> length rs = length es
    \<and> (\<forall>i < length es. case prepare lib self (es ! i) of
          Inl err \<Rightarrow> rs ! i = Err err
        | Inr (subject, wire) \<Rightarrow> verdict_sound js subject wire (rs ! i))
    \<and> t \<le> t' \<and> t' \<le> t + int (window_count (length es) (ns_batch_pipeline_depth s) * ns_publish_timeout s)"
proof -
  have self: "np_settings self = s" "0 < ns_batch_pipeline_depth s"
    using assms by (auto simp: nats_build_def split: if_splits)
  obtain outs prep where prep: "prepare_all lib self 0 es = (outs, prep)" by fastforce
  obtain more t' w' where win: "publish_windows js s prep outs t w = Some (outs @ more, t', w')"
      "list_all2 (window_sound js) prep more" "t \<le> t'"
      "t' \<le> t + int (window_count (length prep) (ns_batch_pipeline_depth s) * ns_publish_timeout s)"
    using publish_windows_sound [OF self(2), of js prep outs t w] by blast
  let ?rs = "map snd (sort_key fst (outs @ more))"
  have m: "mset (map fst (outs @ more)) = mset [0..<length es]"
    using prepare_all_indices [OF prep] by (simp add: list_all2_window_fst [OF win(2)])
  have "case prepare lib self (es ! i) of Inl err \<Rightarrow> ?rs ! i = Err err
        | Inr (subject, wire) \<Rightarrow> verdict_sound js subject wire (?rs ! i)" if "i < length es" for i
  proof -
    from sorted_outcomes(2) [OF m that] consider "(i, ?rs ! i) \<in> set outs" | "(i, ?rs ! i) \<in> set more"
      by auto
    then show ?thesis
      using prepare_all_entries [OF prep, of i "?rs ! i"] list_all2_window_mem [OF win(2)]
      by cases fastforce+
  qed
  moreover have "length prep \<le> length es"
    using arg_cong [OF prepare_all_indices [OF prep], of size] by simp
  then have "window_count (length prep) (ns_batch_pipeline_depth s) \<le> window_count (length es) (ns_batch_pipeline_depth s)"
    by (auto simp: window_count_def intro!: div_le_mono)
  then have "t' \<le> t + int (window_count (length es) (ns_batch_pipeline_depth s) * ns_publish_timeout s)"
    using win(4) mult_le_mono1 by (smt (verit) of_nat_mono)
  moreover have "nats_publish_batch lib js self es t w = Some (?rs, t', w')"
    using prep win(1) by (simp add: nats_publish_batch_def self)
  moreover have "length ?rs = length es" using sorted_outcomes(1) [OF m] by simp
  ultimately show ?thesis using win(3) by blast
qed


section \<open>Batches and single publishes\<close>

text \<open>A broker that answers at once, and the same whenever it is asked.\<close>

definition prompt ::
    "('w, 'a) JetStream \<Rightarrow> (Subject \<Rightarrow> HeaderMap \<Rightarrow> bytes \<Rightarrow> ('a, PublishErrorKind) result)
     \<Rightarrow> ('a \<Rightarrow> (PublishAck, PublishErrorKind) result) \<Rightarrow> bool" where
  "prompt js send ack \<longleftrightarrow>
     (\<forall>s h p t w. fst (js_publish_with_headers js s h p t w) = Some (send s h p, t))
     \<and> (\<forall>a t w. fst (js_ack js a t w) = Some (ack a, t))"

definition prompt_verdict ::
    "(Subject \<Rightarrow> HeaderMap \<Rightarrow> bytes \<Rightarrow> ('a, PublishErrorKind) result)
     \<Rightarrow> ('a \<Rightarrow> (PublishAck, PublishErrorKind) result) \<Rightarrow> instant \<Rightarrow> Subject \<Rightarrow> NatsWireMessage
     \<Rightarrow> (unit, 'r NatsPublishError) result" where
  "prompt_verdict send ack t s m =
     and_then (map_err (\<lambda>k. classify_publish_error s k t t) (send s (wire_headers m) (wire_payload m)))
       (\<lambda>a. and_then (map_err (\<lambda>k. classify_publish_error s k t t) (ack a)) (\<lambda>_. Ok ()))"

lemma bounded_stage_ready:
  "bounded_stage s st d t (Some (v, t)) = (map_err (\<lambda>k. classify_publish_error s k st t) v, t)"
  by (cases v) (simp_all add: bounded_stage_def timeout_at_def)

lemma prompt_send:
  assumes "prompt js send ack"
  obtains w1 where "js_publish_with_headers js s h p t w = (Some (send s h p, t), w1)"
  using assms by (cases "js_publish_with_headers js s h p t w") (metis fst_conv prompt_def)

lemma prompt_ack:
  assumes "prompt js send ack"
  obtains w1 where "js_ack js a t w = (Some (ack a, t), w1)"
  using assms by (cases "js_ack js a t w") (metis fst_conv prompt_def)

lemma publish_prepared_prompt:
  assumes "prompt js send ack"
  shows "\<exists>w'. publish_prepared js s m timeout t w = (prompt_verdict send ack t s m, t, w')"
proof -
  obtain w1 where w1: "js_publish_with_headers js s (wire_headers m) (wire_payload m) t w
      = (Some (send s (wire_headers m) (wire_payload m), t), w1)" by (rule prompt_send [OF assms])
  show ?thesis
  proof (cases "send s (wire_headers m) (wire_payload m)")
    case (Inl k)
    with w1 show ?thesis
      by (simp add: publish_prepared_def prompt_verdict_def wire_into_parts_def bounded_stage_ready Let_def)
  next
    case (Inr a)
    obtain w2 where "js_ack js a t w1 = (Some (ack a, t), w2)" by (rule prompt_ack [OF assms])
    with w1 Inr show ?thesis
      by (cases "ack a")
         (simp_all add: publish_prepared_def prompt_verdict_def wire_into_parts_def bounded_stage_ready Let_def)
  qed
qed

lemma issue_window_sends_prompt:
  assumes "prompt js send ack"
  shows "\<exists>w'. issue_window_sends js window d t t w =
    (map (\<lambda>(i, s, m). (i, s, map_err (\<lambda>k. classify_publish_error s k t t) (send s (wire_headers m) (wire_payload m))))
       window, t, w')"
proof (induction window arbitrary: w)
  case (Cons p window)
  obtain i s m where p: "p = (i, s, m)" by (cases p)
  obtain w1 where w1: "js_publish_with_headers js s (wire_headers m) (wire_payload m) t w
      = (Some (send s (wire_headers m) (wire_payload m), t), w1)" by (rule prompt_send [OF assms])
  from Cons.IH [of w1] w1 show ?case by (auto simp: p wire_into_parts_def bounded_stage_ready)
qed simp

lemma await_window_acks_prompt:
  assumes "prompt js send ack"
  shows "\<exists>w'. await_window_acks js
      (map (\<lambda>(i, s, m). (i, s, map_err (\<lambda>k. classify_publish_error s k t t) (send s (wire_headers m) (wire_payload m))))
         window) d t t w =
    (map (\<lambda>(i, s, m). (i, prompt_verdict send ack t s m)) window, t, w')"
proof (induction window arbitrary: w)
  case (Cons p window)
  obtain i s m where p: "p = (i, s, m)" by (cases p)
  show ?case
  proof (cases "send s (wire_headers m) (wire_payload m)")
    case (Inl k)
    with Cons.IH [of w] show ?thesis by (auto simp: p prompt_verdict_def)
  next
    case (Inr a)
    obtain w1 where "js_ack js a t w = (Some (ack a, t), w1)" by (rule prompt_ack [OF assms])
    with Inr Cons.IH [of w1] show ?thesis by (auto simp: p prompt_verdict_def bounded_stage_ready)
  qed
qed simp

lemma publish_window_prompt:
  fixes js :: "('w, 'a) JetStream"
  assumes "prompt js send ack"
  shows "\<exists>w'. publish_window js timeout window t w =
    (map (\<lambda>(i, s, m). (i, prompt_verdict send ack t s m :: (unit, 'r NatsPublishError) result)) window, t, w')"
proof -
  let ?sent = "map (\<lambda>(i, s, m). (i, s, map_err (\<lambda>k. classify_publish_error s k t t)
      (send s (wire_headers m) (wire_payload m)) :: ('a, 'r NatsPublishError) result)) window"
  obtain w1 where "issue_window_sends js window (t + int timeout) t t w = (?sent, t, w1)"
    using issue_window_sends_prompt [OF assms] by blast
  then show ?thesis using await_window_acks_prompt [OF assms, of t window "t + int timeout" w1]
    unfolding publish_window_def Let_def by (simp only: prod.case)
qed

lemma publish_windows_prompt:
  fixes outcomes :: "(nat \<times> (unit, 'r NatsPublishError) result) list"
  assumes "prompt js send ack" "0 < ns_batch_pipeline_depth st"
  shows "\<exists>w'. publish_windows js st prep outcomes t w =
    Some (outcomes @ map (\<lambda>(i, s, m). (i, prompt_verdict send ack t s m)) prep, t, w')"
proof (induction prep arbitrary: outcomes w rule: length_induct)
  case (1 prep)
  show ?case
  proof (cases "prep = []")
    case False
    define n where "n = min (length prep) (ns_batch_pipeline_depth st)"
    let ?v = "\<lambda>(i, s, m). (i, prompt_verdict send ack t s m :: (unit, 'r NatsPublishError) result)"
    obtain w1 where w1: "publish_window js (ns_publish_timeout st) (take n prep) t w = (map ?v (take n prep), t, w1)"
      using publish_window_prompt [OF assms(1)] by blast
    have "length (drop n prep) < length prep" using False assms by (auto simp: n_def)
    with 1 obtain w2 where "publish_windows js st (drop n prep) (outcomes @ map ?v (take n prep)) t w1
        = Some ((outcomes @ map ?v (take n prep)) @ map ?v (drop n prep), t, w2)" by blast
    moreover have "map ?v (take n prep) @ map ?v (drop n prep) = map ?v prep"
      by (metis append_take_drop_id map_append)
    moreover have "publish_windows js st prep outcomes t w
        = publish_windows js st (drop n prep) (outcomes @ map ?v (take n prep)) t w1"
      using w1 False by (subst publish_windows.simps) (simp only: Let_def n_def if_False prod.case)
    ultimately show ?thesis by (metis append_assoc)
  qed (simp add: publish_windows.simps)
qed

lemma publish_each_prompt:
  assumes "prompt js send ack"
  shows "\<exists>w'. publish_each (nats_publish lib js self) es t w =
    (map (\<lambda>e. and_then (prepare lib self e) (\<lambda>(s, m). prompt_verdict send ack t s m)) es, t, w')"
proof (induction es arbitrary: w)
  case (Cons e es)
  obtain w1 where w1: "nats_publish lib js self e t w =
      (and_then (prepare lib self e) (\<lambda>(s, m). prompt_verdict send ack t s m), t, w1)"
    using publish_prepared_prompt [OF assms] by (cases "prepare lib self e") (fastforce simp: nats_publish_def)+
  with Cons.IH [of w1] show ?case by auto
qed simp


section \<open>Instances\<close>

text \<open>A broker whose handle is the payload: it stores every message but \<^verbatim>\<open>big\<close>, which it refuses, and never
  acknowledges \<^verbatim>\<open>lost\<close>. The other broker answers at once.\<close>

definition slow_broker :: "(nat, bytes) JetStream" where
  "slow_broker =
     \<lparr>js_publish_with_headers = (\<lambda>_ _ p t n.
        (Some (if p = ''big'' then Err PkMaxPayloadExceeded else Ok p, t + 2), Suc n)),
      js_ack = (\<lambda>p t n. (if p = ''lost'' then None else Some (Ok \<lparr>pa_sequence = n, pa_duplicate = False\<rparr>, t + 3), n))\<rparr>"

definition prompt_broker :: "(unit, bytes) JetStream" where
  "prompt_broker =
     \<lparr>js_publish_with_headers = (\<lambda>_ _ p t w. (Some (if p = ''big'' then Err PkMaxPayloadExceeded else Ok p, t), w)),
      js_ack = (\<lambda>p t w. (Some (if p = ''lost'' then Err PkTimedOut
                              else Ok \<lparr>pa_sequence = length p, pa_duplicate = False\<rparr>, t), w))\<rparr>"

definition demo_nats_settings :: NatsSettings where
  "demo_nats_settings = nats_settings_default\<lparr>ns_publish_timeout := 10000000, ns_batch_pipeline_depth := 2\<rparr>"

definition demo_publisher :: "SubjectError NatsPublisher" where
  "demo_publisher = \<lparr>np_resolver = prefix_subject prefix_subjects_default, np_settings = demo_nats_settings\<rparr>"

definition demo_message :: "bytes \<Rightarrow> SerializedEnvelope" where
  "demo_message b = demo_envelope\<lparr>body := b\<rparr>"

definition wild_message :: SerializedEnvelope where
  "wild_message = demo_envelope\<lparr>message_type := \<lparr>mt_name = ''orders.*'', mt_version = 1\<rparr>\<rparr>"

lemma demo_publisher_built:
  "nats_build demo_nats_settings (prefix_subject prefix_subjects_default) = Ok demo_publisher"
  by (simp add: nats_build_def demo_publisher_def demo_nats_settings_def nats_settings_default_def)

theorem nats_publish_sound_witness:
  "\<exists>wire. nats_publish demo_lib slow_broker demo_publisher (demo_message ''big'') 0 0
      = (Err (MaxPayloadExceeded ''reliar.orders.created.v2''), 2, 1)
    \<and> prepare demo_lib demo_publisher (demo_message ''big'') = Ok (''reliar.orders.created.v2'', wire)
    \<and> refused slow_broker ''reliar.orders.created.v2'' wire"
proof -
  have "map_err (\<lambda>_. ()) (and_then (prepare demo_lib demo_publisher (demo_message ''big'')) (\<lambda>(s, _). Ok s))
      = Ok ''reliar.orders.created.v2''" by code_simp
  then obtain wire where wire:
    "prepare demo_lib demo_publisher (demo_message ''big'') = Ok (''reliar.orders.created.v2'', wire)"
    by (auto simp: and_then_eq_Ok_iff)
  have pub: "nats_publish demo_lib slow_broker demo_publisher (demo_message ''big'') 0 0
      = (Err (MaxPayloadExceeded ''reliar.orders.created.v2''), 2, 1)" by code_simp
  from nats_publish_sound [OF pub] have "refused slow_broker ''reliar.orders.created.v2'' wire"
    by (simp add: wire verdict_sound_def)
  with wire pub show ?thesis by blast
qed



end
