(* ===== verification/Postgres_Records.thy ===== *)
theory Postgres_Records
  imports Settings Store_Contract
begin

text \<open>
  \<^verbatim>\<open>reliar-store-postgres\<close>: the errors and their classification (\<^verbatim>\<open>error.rs\<close>), the settings
  (\<^verbatim>\<open>settings.rs\<close>) and the mapping between a table row and an \<^verbatim>\<open>OutboxRecord\<close> (\<^verbatim>\<open>records.rs\<close>). A \<^verbatim>\<open>sqlx\<close>
  error is what the code looks at: whether it comes from the database, with its SQLSTATE and
  constraint name. JSON values are the constructors of \<^verbatim>\<open>serde_json::Value\<close>. What \<^verbatim>\<open>serde\<close>, \<^verbatim>\<open>time\<close> and the
  database do with a value is the record \<open>PgLib\<close>, an argument; \<open>pg_lib_ok\<close> names what is relied
  upon. The column \<^verbatim>\<open>updated_at\<close> is written and never read, and is left out.
\<close>

section \<open>Errors\<close>

datatype SqlxError = SqlDatabase "string option" "string option" | SqlOther string

datatype PostgresStoreError =
    SchemaResolution string string
  | NotMigrated string
  | PgDatabase SqlxError
  | PgDecode MessageId string
  | UnknownMetadataVersion MessageId int
  | DuplicateMessage MessageId
  | InvalidSchema string

definition classify_sqlstate :: "SqlxError \<Rightarrow> FailureKind" where
  "classify_sqlstate err =
     (case err of
        SqlDatabase (Some code) _ \<Rightarrow>
          (let class = (if 2 \<le> length code \<and> is_char_boundary code 2 then Some (take 2 code) else None)
           in if class \<in> {Some ''08'', Some ''40'', Some ''53'', Some ''55''} then Transient
              else if class = Some ''57'' \<and> code = ''57014'' then Transient
              else if class \<in> {Some ''22'', Some ''23'', Some ''42''} then Permanent
              else Transient)
      | _ \<Rightarrow> Transient)"

fun postgres_error_kind :: "PostgresStoreError \<Rightarrow> FailureKind" where
  "postgres_error_kind (SchemaResolution _ _) = Permanent"
| "postgres_error_kind (NotMigrated _) = Permanent"
| "postgres_error_kind (InvalidSchema _) = Permanent"
| "postgres_error_kind (DuplicateMessage _) = Permanent"
| "postgres_error_kind (PgDecode _ _) = Permanent"
| "postgres_error_kind (UnknownMetadataVersion _ _) = Permanent"
| "postgres_error_kind (PgDatabase err) = classify_sqlstate err"

definition is_constraint_violation :: "SqlxError \<Rightarrow> string \<Rightarrow> bool" where
  "is_constraint_violation err constraint =
     (case err of SqlDatabase _ c \<Rightarrow> c = Some constraint | SqlOther _ \<Rightarrow> False)"

definition is_undefined_table :: "SqlxError \<Rightarrow> bool" where
  "is_undefined_table err = (case err of SqlDatabase code _ \<Rightarrow> code = Some ''42P01'' | SqlOther _ \<Rightarrow> False)"

definition map_operational_error :: "string \<Rightarrow> SqlxError \<Rightarrow> PostgresStoreError" where
  "map_operational_error schema err =
     (if is_undefined_table err then NotMigrated schema else PgDatabase err)"

datatype 'e EnqueueError = EnqueueSerialize 'e | EnqueueDuplicate MessageId | EnqueueDatabase SqlxError

fun enqueue_error_kind :: "'e EnqueueError \<Rightarrow> FailureKind" where
  "enqueue_error_kind (EnqueueSerialize _) = Permanent"
| "enqueue_error_kind (EnqueueDuplicate _) = Permanent"
| "enqueue_error_kind (EnqueueDatabase err) = classify_sqlstate err"

definition map_enqueue_error :: "MessageId \<Rightarrow> SqlxError \<Rightarrow> 'e EnqueueError" where
  "map_enqueue_error i err =
     (if is_constraint_violation err ''pk_outbox'' then EnqueueDuplicate i else EnqueueDatabase err)"

definition is_ascii_alphabetic :: "char \<Rightarrow> bool" where
  "is_ascii_alphabetic c \<longleftrightarrow> (65 \<le> byte c \<and> byte c \<le> 90) \<or> (97 \<le> byte c \<and> byte c \<le> 122)"

definition is_ascii_alphanumeric :: "char \<Rightarrow> bool" where
  "is_ascii_alphanumeric c \<longleftrightarrow> is_ascii_alphabetic c \<or> (48 \<le> byte c \<and> byte c \<le> 57)"

text \<open>The characters are tested byte by byte: a byte of a longer character is in none of the ranges.\<close>

definition is_valid_schema_name :: "string \<Rightarrow> bool" where
  "is_valid_schema_name schema =
     (case schema of
        [] \<Rightarrow> False
      | first # rest \<Rightarrow>
          if \<not> (is_ascii_alphabetic first \<or> first = CHR ''_'') then False
          else length schema \<le> 63
            \<and> list_all (\<lambda>c. is_ascii_alphanumeric c \<or> c = CHR ''_'' \<or> c = CHR ''$'') rest)"

section \<open>Settings\<close>

record PostgresOutboxSettings =
  ps_schema :: string
  ps_enqueue_sets_search_path :: bool
  ps_statement_timeout :: duration

definition postgres_settings_default :: PostgresOutboxSettings where
  "postgres_settings_default =
     \<lparr>ps_schema = ''reliar'', ps_enqueue_sets_search_path = False, ps_statement_timeout = 0\<rparr>"

definition pg_schema :: "string \<Rightarrow> PostgresOutboxSettings \<Rightarrow> PostgresOutboxSettings" where
  "pg_schema v s = s\<lparr>ps_schema := v\<rparr>"

definition pg_enqueue_sets_search_path :: "bool \<Rightarrow> PostgresOutboxSettings \<Rightarrow> PostgresOutboxSettings" where
  "pg_enqueue_sets_search_path v s = s\<lparr>ps_enqueue_sets_search_path := v\<rparr>"

definition pg_statement_timeout :: "duration \<Rightarrow> PostgresOutboxSettings \<Rightarrow> PostgresOutboxSettings" where
  "pg_statement_timeout v s = s\<lparr>ps_statement_timeout := v\<rparr>"

definition pg_env_bool :: "env \<Rightarrow> string \<Rightarrow> string \<Rightarrow> (bool option, SettingsError) result" where
  "pg_env_bool env prefix suffix = env_parsed env prefix suffix (\<lambda>raw.
     let s = to_ascii_lowercase (trim raw)
     in if s = ''true'' \<or> s = ''1'' then Ok True
        else if s = ''false'' \<or> s = ''0'' then Ok False
        else Err (SettingsParse (prefix @ suffix) ''bool (\"true\"/\"false\"/\"1\"/\"0\")''))"

text \<open>\<^verbatim>\<open>if let Some(v) = read? { settings.field = v; }\<close>\<close>

definition pg_override ::
    "('a option, SettingsError) result \<Rightarrow> ('a \<Rightarrow> PostgresOutboxSettings \<Rightarrow> PostgresOutboxSettings)
     \<Rightarrow> PostgresOutboxSettings \<Rightarrow> (PostgresOutboxSettings, SettingsError) result" where
  "pg_override read store s =
     and_then read (\<lambda>v. case v of None \<Rightarrow> Ok s | Some x \<Rightarrow> Ok (store x s))"

definition postgres_from_env :: "env \<Rightarrow> string \<Rightarrow> (PostgresOutboxSettings, SettingsError) result" where
  "postgres_from_env env prefix =
     and_then (pg_override (env_raw env prefix ''SCHEMA'') pg_schema postgres_settings_default) (\<lambda>s1.
     and_then (pg_override (pg_env_bool env prefix ''ENQUEUE_SETS_SEARCH_PATH'') pg_enqueue_sets_search_path s1) (\<lambda>s2.
     pg_override (env_duration_ms env prefix ''STATEMENT_TIMEOUT_MS'') pg_statement_timeout s2))"

section \<open>Rows\<close>

datatype Json =
    JNull
  | JBool bool
  | JNumber int
  | JString string
  | JArray "Json list"
  | JObject "(string \<times> Json) list"

record TraceRest =
  tr_traceparent :: "string option"
  tr_tracestate :: "string option"

record RoutingRest =
  rr_source :: "string option"
  rr_destination :: "string option"
  rr_reply_to :: "string option"

record DeliveryRest =
  dr_sent_at_ms :: "int option"
  dr_deduplication_id :: "string option"

record MetadataRest =
  rest_trace :: TraceRest
  rest_routing :: RoutingRest
  rest_delivery :: DeliveryRest

definition metadata_rest_default :: MetadataRest where
  "metadata_rest_default =
     \<lparr>rest_trace = \<lparr>tr_traceparent = None, tr_tracestate = None\<rparr>,
      rest_routing = \<lparr>rr_source = None, rr_destination = None, rr_reply_to = None\<rparr>,
      rest_delivery = \<lparr>dr_sent_at_ms = None, dr_deduplication_id = None\<rparr>\<rparr>"

definition i64_min :: int where
  "i64_min = - (2 ^ 63)"

definition i64_max :: int where
  "i64_max = 2 ^ 63 - 1"

definition in_i64 :: "int \<Rightarrow> bool" where
  "in_i64 n \<longleftrightarrow> i64_min \<le> n \<and> n \<le> i64_max"

text \<open>\<^verbatim>\<open>unix_timestamp()\<close> rounds down and \<^verbatim>\<open>millisecond()\<close> is the rest, also before 1970.\<close>

definition encode_epoch_millis :: "instant \<Rightarrow> int" where
  "encode_epoch_millis t =
     (let secs = t div 1000000000; millis = t mod 1000000000 div 1000000
      in if in_i64 (secs * 1000) \<and> in_i64 (secs * 1000 + millis) then secs * 1000 + millis
         else if secs < 0 then i64_min else i64_max)"

record RawRow =
  raw_id :: uuid
  raw_sequence :: int
  raw_message_type :: string
  raw_message_version :: int
  raw_correlation_id :: "string option"
  raw_conversation_id :: uuid
  raw_causation_id :: "uuid option"
  raw_request_id :: "uuid option"
  raw_content_type :: string
  raw_payload :: bytes
  raw_tenant_id :: "string option"
  raw_expires_at :: "instant option"
  raw_ordering_key :: "string option"
  raw_metadata :: "Json option"
  raw_headers :: "Json option"
  raw_metadata_version :: int
  raw_created_at :: instant
  raw_available_at :: instant
  raw_attempts :: int
  raw_locked_by :: "string option"
  raw_locked_until :: "instant option"
  raw_published_at :: "instant option"
  raw_dead_at :: "instant option"
  raw_dead_reason :: "string option"
  raw_last_error :: "string option"

text \<open>What is wrong with a row; the text of each fault is rendered by \<^verbatim>\<open>format!\<close> and \<^verbatim>\<open>Display\<close>.\<close>

datatype RowFault =
    FaultMetadataVersion int
  | FaultMessageVersion int
  | FaultMetadata string
  | FaultCorrelationId IdError
  | FaultContentType ContentTypeError
  | FaultSource IdError
  | FaultDestination IdError
  | FaultReplyTo IdError
  | FaultSentAt int
  | FaultHeaderNotString string
  | FaultHeader string HeaderError
  | FaultHeadersNotObject
  | FaultDeadReason string
  | FaultLockedBy IdError
  | FaultAttempts int

record RowError =
  re_id :: MessageId
  re_sequence :: int
  re_detail :: string

record PgLib =
  pl_rest_to_value :: "MetadataRest \<Rightarrow> Json option"
  pl_rest_from_value :: "Json \<Rightarrow> (MetadataRest, string) result"
  pl_object :: "(string \<times> Json) list \<Rightarrow> (string \<times> Json) list"
  pl_timestamptz :: "instant \<Rightarrow> instant"
  pl_time_ok :: "instant \<Rightarrow> bool"
  pl_fault_text :: "RowFault \<Rightarrow> string"

text \<open>\<^verbatim>\<open>from_unix_timestamp_nanos(ms * 1_000_000).ok()\<close>\<close>

definition decode_epoch_millis :: "PgLib \<Rightarrow> int \<Rightarrow> instant option" where
  "decode_epoch_millis lib ms = (if pl_time_ok lib (ms * 1000000) then Some (ms * 1000000) else None)"

definition metadata_version_current :: int where
  "metadata_version_current = 1"

definition decode_dead_reason :: "string \<Rightarrow> DeadReason option" where
  "decode_dead_reason v =
     (if v = ''permanent_error'' then Some PermanentError
      else if v = ''attempts_exhausted'' then Some AttemptsExhausted
      else if v = ''expired'' then Some Expired
      else if v = ''undecodable'' then Some Undecodable
      else None)"

fun encode_dead_reason :: "DeadReason \<Rightarrow> string" where
  "encode_dead_reason PermanentError = ''permanent_error''"
| "encode_dead_reason AttemptsExhausted = ''attempts_exhausted''"
| "encode_dead_reason Expired = ''expired''"
| "encode_dead_reason Undecodable = ''undecodable''"

definition max_last_error_len :: nat where
  "max_last_error_len = 2048"

definition truncate_last_error :: "string \<Rightarrow> string" where
  "truncate_last_error error =
     (if length error \<le> max_last_error_len then error
      else let budget = max_last_error_len - length truncation_marker;
               cut = floor_boundary error (min budget (length error))
           in take cut error @ truncation_marker)"

section \<open>Decoding a row\<close>

text \<open>\<^verbatim>\<open>for (key, value) in map\<close>: every value a string, every pair accepted by \<^verbatim>\<open>Headers::insert\<close>.\<close>

fun decode_headers :: "(string \<times> Json) list \<Rightarrow> Headers \<Rightarrow> (Headers, RowFault) result" where
  "decode_headers [] headers = Ok headers"
| "decode_headers ((key, value) # rest) headers =
     (case value of
        JString v \<Rightarrow>
          (case headers_insert key v headers of
             Inr (headers', _) \<Rightarrow> decode_headers rest headers'
           | Inl err \<Rightarrow> Err (FaultHeader key err))
      | _ \<Rightarrow> Err (FaultHeaderNotString key))"

definition decode_headers_column :: "Json option \<Rightarrow> (Headers option, RowFault) result" where
  "decode_headers_column col =
     (case col of
        Some (JObject m) \<Rightarrow> and_then (decode_headers m headers_default) (\<lambda>h. Ok (Some h))
      | Some _ \<Rightarrow> Err FaultHeadersNotObject
      | None \<Rightarrow> Ok None)"

definition parse_opt ::
    "('e \<Rightarrow> RowFault) \<Rightarrow> ('a \<Rightarrow> ('b, 'e) result) \<Rightarrow> 'a option \<Rightarrow> ('b option, RowFault) result" where
  "parse_opt fault parse v = map_err fault (transpose_map parse v)"

definition decode_metadata :: "PgLib \<Rightarrow> RawRow \<Rightarrow> (Metadata, RowFault) result" where
  "decode_metadata lib row =
     and_then (case raw_metadata row of
                 Some v \<Rightarrow> map_err FaultMetadata (pl_rest_from_value lib v)
               | None \<Rightarrow> Ok metadata_rest_default) (\<lambda>rest.
     and_then (parse_opt FaultCorrelationId correlation_id_parse (raw_correlation_id row)) (\<lambda>co.
     and_then (map_err FaultContentType (content_type_parse (raw_content_type row))) (\<lambda>ct.
     and_then (parse_opt FaultSource endpoint_parse (rr_source (rest_routing rest))) (\<lambda>so.
     and_then (parse_opt FaultDestination endpoint_parse (rr_destination (rest_routing rest))) (\<lambda>de.
     and_then (parse_opt FaultReplyTo endpoint_parse (rr_reply_to (rest_routing rest))) (\<lambda>rp.
     and_then (parse_opt FaultSentAt (\<lambda>ms. ok_or ms (decode_epoch_millis lib ms))
         (dr_sent_at_ms (rest_delivery rest))) (\<lambda>sent.
     Ok \<lparr>correlation = \<lparr>correlation_id = co, conversation_id = raw_conversation_id row,
           causation_id = raw_causation_id row, request_id = raw_request_id row\<rparr>,
         trace = \<lparr>traceparent = tr_traceparent (rest_trace rest), tracestate = tr_tracestate (rest_trace rest)\<rparr>,
         routing = \<lparr>source = so, destination = de, reply_to = rp\<rparr>,
         delivery = \<lparr>content_type = ct, sent_at = sent, expires_at = raw_expires_at row,
           deduplication_id = dr_deduplication_id (rest_delivery rest)\<rparr>,
         tenant_id = raw_tenant_id row\<rparr>)))))))"

definition decode_record :: "PgLib \<Rightarrow> RawRow \<Rightarrow> (OutboxRecord, RowFault) result" where
  "decode_record lib row =
     (if raw_metadata_version row \<noteq> metadata_version_current
      then Err (FaultMetadataVersion (raw_metadata_version row))
      else if \<not> (0 \<le> raw_message_version row \<and> raw_message_version row < 2 ^ 16)
      then Err (FaultMessageVersion (raw_message_version row))
      else
        let mt = message_type_from_parts (raw_message_type row) (of_int (raw_message_version row)) in
        and_then (decode_metadata lib row) (\<lambda>md.
        and_then (decode_headers_column (raw_headers row)) (\<lambda>headers.
        let e = set_headers headers (envelope_from_parts (raw_id row) mt (raw_payload row) md None) in
        and_then (parse_opt FaultDeadReason (\<lambda>v. ok_or v (decode_dead_reason v)) (raw_dead_reason row)) (\<lambda>reason.
        and_then (parse_opt FaultLockedBy worker_parse (raw_locked_by row)) (\<lambda>owner.
        if \<not> (0 \<le> raw_attempts row \<and> raw_attempts row < 2 ^ 32) then Err (FaultAttempts (raw_attempts row))
        else Ok (builder_last_error (raw_last_error row)
              (builder_dead (raw_dead_at row) reason
              (builder_published_at (raw_published_at row)
              (builder_lease owner (raw_locked_until row)
              (builder_available_at (raw_available_at row)
              (builder_attempts (of_int (raw_attempts row))
              (builder_ordering_key (raw_ordering_key row)
              (record_builder e (raw_sequence row) (raw_created_at row))))))))))))))"

definition decode_row :: "PgLib \<Rightarrow> RawRow \<Rightarrow> (OutboxRecord, RowError) result" where
  "decode_row lib row =
     map_err (\<lambda>fault. \<lparr>re_id = raw_id row, re_sequence = raw_sequence row, re_detail = pl_fault_text lib fault\<rparr>)
       (decode_record lib row)"

section \<open>Staging a row\<close>

definition metadata_rest_of :: "'a Envelope \<Rightarrow> MetadataRest" where
  "metadata_rest_of e =
     (let md = metadata e in
      \<lparr>rest_trace = \<lparr>tr_traceparent = traceparent (trace md), tr_tracestate = tracestate (trace md)\<rparr>,
       rest_routing = \<lparr>rr_source = map_option endpoint_as_str (source (routing md)),
         rr_destination = map_option endpoint_as_str (destination (routing md)),
         rr_reply_to = map_option endpoint_as_str (reply_to (routing md))\<rparr>,
       rest_delivery = \<lparr>dr_sent_at_ms = map_option encode_epoch_millis (sent_at (delivery md)),
         dr_deduplication_id = deduplication_id (delivery md)\<rparr>\<rparr>)"

definition metadata_json :: "PgLib \<Rightarrow> MetadataRest \<Rightarrow> Json option" where
  "metadata_json lib rest =
     (if tr_traceparent (rest_trace rest) = None \<and> tr_tracestate (rest_trace rest) = None
       \<and> rr_source (rest_routing rest) = None \<and> rr_destination (rest_routing rest) = None
       \<and> rr_reply_to (rest_routing rest) = None \<and> dr_sent_at_ms (rest_delivery rest) = None
       \<and> dr_deduplication_id (rest_delivery rest) = None
      then None else pl_rest_to_value lib rest)"

definition headers_json :: "PgLib \<Rightarrow> 'a Envelope \<Rightarrow> Json option" where
  "headers_json lib e =
     (case env_headers e of
        Some h \<Rightarrow> (if headers_is_empty h then None else Some (JObject (pl_object lib (map (\<lambda>(k, v). (k, JString v)) h))))
      | None \<Rightarrow> None)"

text \<open>The row \<^verbatim>\<open>insert_row\<close>'s statement stores: its own columns, the defaults of the table's definition for
  the others, \<^verbatim>\<open>now()\<close> and the next value of the identity column.\<close>

definition staged_row ::
    "PgLib \<Rightarrow> 'a Envelope \<Rightarrow> bytes \<Rightarrow> ContentType \<Rightarrow> string option \<Rightarrow> instant \<Rightarrow> int \<Rightarrow> RawRow" where
  "staged_row lib e payload ct key t seq =
     (let co = correlation (metadata e) in
      \<lparr>raw_id = env_id e, raw_sequence = seq, raw_message_type = mt_name (message_type e),
       raw_message_version = uint (mt_version (message_type e)),
       raw_correlation_id = map_option correlation_id_as_str (correlation_id co),
       raw_conversation_id = conversation_id co, raw_causation_id = causation_id co,
       raw_request_id = request_id co, raw_content_type = content_type_as_str ct, raw_payload = payload,
       raw_tenant_id = tenant_id (metadata e),
       raw_expires_at = map_option (pl_timestamptz lib) (expires_at (delivery (metadata e))),
       raw_ordering_key = key, raw_metadata = metadata_json lib (metadata_rest_of e),
       raw_headers = headers_json lib e, raw_metadata_version = 1, raw_created_at = t,
       raw_available_at = t, raw_attempts = 0, raw_locked_by = None, raw_locked_until = None,
       raw_published_at = None, raw_dead_at = None, raw_dead_reason = None, raw_last_error = None\<rparr>)"

section \<open>The round trip\<close>

text \<open>The remainder is read back as written; the entries of an object come back in some order; a
  timestamp the time library represents is less than \<open>10 ^ 24\<close> nanoseconds from the epoch and its
  whole milliseconds are represented too.\<close>

definition pg_lib_ok :: "PgLib \<Rightarrow> bool" where
  "pg_lib_ok lib \<longleftrightarrow>
     (\<forall>r. \<exists>v. pl_rest_to_value lib r = Some v \<and> pl_rest_from_value lib v = Ok r)
     \<and> (\<forall>xs. distinct (map fst xs) \<longrightarrow> distinct (map fst (pl_object lib xs)) \<and> set (pl_object lib xs) = set xs)
     \<and> (\<forall>t. pl_time_ok lib t \<longrightarrow> \<bar>t\<bar> < 10 ^ 24 \<and> pl_time_ok lib (t div 1000000 * 1000000))"

text \<open>The envelope as the table keeps it: times to the database's and the codec's precision, the
  content type and the bytes it was staged with, no empty header map.\<close>

definition stored_form :: "PgLib \<Rightarrow> ContentType \<Rightarrow> bytes \<Rightarrow> 'a Envelope \<Rightarrow> SerializedEnvelope" where
  "stored_form lib ct payload e =
     (let md = metadata e; de = delivery md in
      \<lparr>env_id = env_id e, message_type = message_type e, body = payload,
       metadata = md\<lparr>delivery := de\<lparr>content_type := ct,
         sent_at := map_option (\<lambda>t. t div 1000000 * 1000000) (sent_at de),
         expires_at := map_option (pl_timestamptz lib) (expires_at de)\<rparr>\<rparr>,
       env_headers = (if custom_headers e = [] then None else Some (custom_headers e))\<rparr>)"

lemma encode_epoch_millis_eq:
  assumes "\<bar>t\<bar> < 10 ^ 24"
  shows "encode_epoch_millis t = t div 1000000"
proof -
  define q r where "q = t div 1000000000" and "r = t mod 1000000000"
  have "t = r + q * 1000 * 1000000" by (simp add: q_def r_def)
  then have "t div 1000000 = q * 1000 + r div 1000000" by (metis add.commute div_mult_self1 zero_neq_numeral)
  moreover have "in_i64 (q * 1000)" "in_i64 (t div 1000000)"
    using assms by (auto simp: in_i64_def i64_min_def i64_max_def q_def)
  ultimately show ?thesis by (simp add: encode_epoch_millis_def Let_def q_def [symmetric] r_def [symmetric])
qed

lemma decode_headers_all:
  "headers_insert_all kvs h = Ok h' \<Longrightarrow> decode_headers (map (\<lambda>(k, v). (k, JString v)) kvs) h = Ok h'"
proof (induction kvs arbitrary: h)
  case (Cons kv kvs)
  obtain k v where kv: "kv = (k, v)" by (cases kv)
  from Cons.prems obtain h1 old where "headers_insert k v h = Ok (h1, old)" "headers_insert_all kvs h1 = Ok h'"
    by (auto simp: kv and_then_eq_Ok_iff)
  with Cons.IH show ?case by (simp add: kv)
qed simp

lemma headers_wf_Nil: "headers_wf []"
  by (simp add: headers_wf_def)

text \<open>A stored object with the entries of a well-formed map decodes to that map.\<close>

lemma decode_headers_permuted:
  assumes "headers_wf h" "distinct (map fst m)" "set m = (\<lambda>(k, v). (k, JString v)) ` set h"
  shows "\<exists>h'. decode_headers m headers_default = Ok h' \<and> map_of h' = map_of h \<and> headers_wf h'"
proof -
  define kvs where "kvs = map (\<lambda>(k, v). (k, case v of JString s \<Rightarrow> s | _ \<Rightarrow> [])) m"
  have m: "m = map (\<lambda>(k, v). (k, JString v)) kvs"
    unfolding kvs_def map_map using assms(3) by (intro map_idI [symmetric]) auto
  have d: "distinct (map fst kvs)" "distinct (map fst h)"
    using assms(1,2) by (simp_all add: kvs_def comp_def split_def headers_wf_def)
  have "inj (\<lambda>(k, v). (k :: string, JString v))" by (auto intro!: injI)
  then have set_eq: "set kvs = set h"
    using assms(3) unfolding m by (simp add: inj_image_eq_iff)
  then have "length kvs = length h" using d by (metis distinct_card distinct_map)
  with d set_eq assms(1) have wf: "headers_wf (headers_default @ kvs)"
    by (simp add: headers_wf_def headers_default_def)
  from decode_headers_all [OF headers_insert_all_wf [OF wf]] have "decode_headers m headers_default = Ok kvs"
    unfolding m by (simp add: headers_default_def)
  moreover have "map_of kvs = map_of h" using map_of_inject_set [OF d] set_eq by simp
  moreover have "headers_wf kvs" using wf by (simp add: headers_default_def)
  ultimately show ?thesis by blast
qed

lemma decode_headers_json:
  assumes "pg_lib_ok lib" "headers_wf (custom_headers e)"
  shows "\<exists>h. decode_headers_column (headers_json lib e) = Ok h
    \<and> headers_eq h (if custom_headers e = [] then None else Some (custom_headers e)) \<and> pred_option headers_wf h"
proof (cases "custom_headers e = []")
  case True
  then show ?thesis
    by (auto simp: headers_json_def decode_headers_column_def custom_headers_def headers_eq_def
        headers_is_empty_def split: option.splits)
next
  case False
  then have h: "env_headers e = Some (custom_headers e)" by (auto simp: custom_headers_def split: option.splits)
  let ?xs = "map (\<lambda>(k, v). (k, JString v)) (custom_headers e)"
  have "distinct (map fst ?xs)" using assms(2) by (simp add: headers_wf_def comp_def split_def)
  then have "distinct (map fst (pl_object lib ?xs))" "set (pl_object lib ?xs) = set ?xs"
    using assms(1) by (simp_all add: pg_lib_ok_def)
  with decode_headers_permuted [OF assms(2), of "pl_object lib ?xs"] obtain h'
    where "decode_headers (pl_object lib ?xs) headers_default = Ok h'" "map_of h' = map_of (custom_headers e)"
      "headers_wf h'"
    by auto
  with False h show ?thesis
    by (auto simp: headers_json_def decode_headers_column_def headers_eq_def headers_is_empty_def)
qed

lemma metadata_json_read:
  assumes "pg_lib_ok lib"
  shows "(case metadata_json lib rest of
            Some v \<Rightarrow> map_err FaultMetadata (pl_rest_from_value lib v) | None \<Rightarrow> Ok metadata_rest_default) = Ok rest"
proof (cases "metadata_json lib rest = None")
  case True
  have "pl_rest_to_value lib rest \<noteq> None" using assms by (auto simp: pg_lib_ok_def)
  with True have "rest = metadata_rest_default"
    by (auto simp: metadata_json_def metadata_rest_default_def split: if_splits)
  with True show ?thesis by simp
next
  case False
  then have "metadata_json lib rest = pl_rest_to_value lib rest" by (auto simp: metadata_json_def split: if_splits)
  moreover obtain v where "pl_rest_to_value lib rest = Some v" "pl_rest_from_value lib v = Ok rest"
    using assms unfolding pg_lib_ok_def by metis
  ultimately show ?thesis by simp
qed

lemma parse_opt_inverse:
  "(\<And>y. x = Some y \<Longrightarrow> p (g y) = Ok (f y)) \<Longrightarrow> parse_opt fault p (map_option g x) = Ok (map_option f x)"
  by (cases x) (simp_all add: parse_opt_def)

lemma decode_metadata_staged:
  assumes "pg_lib_ok lib" "envelope_valid e" "valid_content_type ct"
    and "pred_option (pl_time_ok lib) (sent_at (delivery (metadata e)))"
  shows "decode_metadata lib (staged_row lib e payload ct key t seq) = Ok (metadata (stored_form lib ct payload e))"
proof -
  let ?md = "metadata e" and ?row = "staged_row lib e payload ct key t seq"
  have v: "pred_option valid_correlation_id (correlation_id (correlation ?md))"
    "pred_option valid_endpoint (source (routing ?md))" "pred_option valid_endpoint (destination (routing ?md))"
    "pred_option valid_endpoint (reply_to (routing ?md))"
    using assms(2) by (simp_all add: envelope_valid_def Let_def)
  have rest: "(case raw_metadata ?row of
      Some v \<Rightarrow> map_err FaultMetadata (pl_rest_from_value lib v) | None \<Rightarrow> Ok metadata_rest_default)
    = Ok (metadata_rest_of e)"
    using metadata_json_read [OF assms(1), of "metadata_rest_of e"] by (simp add: staged_row_def Let_def)
  have co: "parse_opt FaultCorrelationId correlation_id_parse (raw_correlation_id ?row) = Ok (correlation_id (correlation ?md))"
    using parse_opt_inverse [of "correlation_id (correlation ?md)" correlation_id_parse correlation_id_as_str id] v(1)
    by (simp add: staged_row_def Let_def correlation_id_parse_iff option.map_id pred_option_def)
  have ct: "map_err FaultContentType (content_type_parse (raw_content_type ?row)) = Ok ct"
    using assms(3) by (simp add: staged_row_def Let_def content_type_parse_iff)
  have ep: "parse_opt fault endpoint_parse (map_option endpoint_as_str x) = Ok x" if "pred_option valid_endpoint x" for fault x
    using parse_opt_inverse [of x endpoint_parse endpoint_as_str id] that
    by (simp add: endpoint_parse_iff option.map_id pred_option_def)
  have ms: "parse_opt FaultSentAt (\<lambda>ms. ok_or ms (decode_epoch_millis lib ms))
      (map_option encode_epoch_millis (sent_at (delivery ?md)))
    = Ok (map_option (\<lambda>t. t div 1000000 * 1000000) (sent_at (delivery ?md)))"
    using assms(1,4)
    by (intro parse_opt_inverse)
      (auto simp: pg_lib_ok_def encode_epoch_millis_eq decode_epoch_millis_def)
  show ?thesis
    unfolding decode_metadata_def rest
    by (simp add: co ct ep [OF v(2)] ep [OF v(3)] ep [OF v(4)] ms metadata_rest_of_def Let_def)
       (simp add: staged_row_def stored_form_def Let_def)
qed

lemma decode_staged_row:
  assumes "pg_lib_ok lib" "envelope_valid e" "valid_content_type ct"
    "pred_option (pl_time_ok lib) (sent_at (delivery (metadata e)))"
  shows "\<exists>e'. envelope_eq e' (stored_form lib ct payload e) \<and> envelope_valid e'
    \<and> decode_row lib (staged_row lib e payload ct key t seq) = Ok ((record_builder e' seq t)\<lparr>ordering_key := key\<rparr>)"
proof -
  let ?row = "staged_row lib e payload ct key t seq"
  have "headers_wf (custom_headers e)" using assms(2) by (simp add: envelope_valid_def Let_def)
  from decode_headers_json [OF assms(1) this] obtain h where
    h: "decode_headers_column (headers_json lib e) = Ok h"
    "headers_eq h (if custom_headers e = [] then None else Some (custom_headers e))" "pred_option headers_wf h" by blast
  note md = decode_metadata_staged [OF assms, of payload key t seq]
  let ?e' = "(stored_form lib ct payload e)\<lparr>env_headers := h\<rparr>"
  have "envelope_eq ?e' (stored_form lib ct payload e)"
    using h(2) by (simp add: envelope_eq_def stored_form_def Let_def)
  moreover have "envelope_valid ?e'"
    using assms(2,3) h(3) headers_wf_Nil by (auto simp: envelope_valid_def stored_form_def Let_def custom_headers_def split: option.splits)
  moreover have ver: "0 \<le> uint (mt_version (message_type e)) \<and> uint (mt_version (message_type e)) < 2 ^ 16"
    using uint_lt2p [of "mt_version (message_type e)"] by simp
  have "raw_metadata_version ?row = metadata_version_current" "raw_message_version ?row = uint (mt_version (message_type e))"
    "raw_headers ?row = headers_json lib e" "raw_dead_reason ?row = None" "raw_locked_by ?row = None" "raw_attempts ?row = 0"
    "raw_message_type ?row = mt_name (message_type e)" "raw_payload ?row = payload" "raw_id ?row = env_id e"
    "raw_last_error ?row = None" "raw_dead_at ?row = None" "raw_published_at ?row = None" "raw_locked_until ?row = None"
    "raw_available_at ?row = t" "raw_ordering_key ?row = key" "raw_sequence ?row = seq" "raw_created_at ?row = t"
    by (simp_all add: staged_row_def Let_def metadata_version_current_def)
  note row = this
  have "decode_row lib ?row = Ok ((record_builder ?e' seq t)\<lparr>ordering_key := key\<rparr>)"
    unfolding decode_row_def decode_record_def row md h(1) using ver
    by (simp add: Let_def parse_opt_def)
       (simp add: record_builder_def builder_last_error_def builder_dead_def builder_published_at_def
         builder_lease_def builder_available_at_def builder_attempts_def builder_ordering_key_def
         set_headers_def envelope_from_parts_def message_type_from_parts_def stored_form_def Let_def)
  ultimately show ?thesis by blast
qed

text \<open>C14. What is staged in the table comes back: the row that \<^verbatim>\<open>insert_row\<close> writes for a valid envelope decodes
  to a pending record with that envelope, its content type and bytes as staged, its custom headers
  in whatever order the database keeps them, \<^verbatim>\<open>sent_at\<close> to the millisecond and \<^verbatim>\<open>expires_at\<close> as the database
  rounds it, with no attempt, no lease and no outcome.\<close>

theorem staged_row_decodes:
  assumes "pg_lib_ok lib" "envelope_valid e" "valid_content_type ct"
    "pred_option (pl_time_ok lib) (sent_at (delivery (metadata e)))"
  shows "\<exists>e'. envelope_eq e' (stored_form lib ct payload e)
    \<and> decode_row lib (staged_row lib e payload ct key t seq) = Ok ((record_builder e' seq t)\<lparr>ordering_key := key\<rparr>)"
  using decode_staged_row [OF assms] by blast

end
