(* ===== verification/Postgres_Store.thy ===== *)
theory Postgres_Store
  imports Postgres_Records
begin

text \<open>
  \<^verbatim>\<open>reliar-store-postgres/src/store.rs\<close> over a table of rows. Each SQL statement of the source is a
  function on the table at the transaction's \<^verbatim>\<open>now()\<close>: a filter, an update or a deletion under the
  constraints of \<^verbatim>\<open>migrations/0001_outbox.sql\<close>, or an error that changes nothing. What the source does
  not determine is the record \<open>Db\<close>, an argument: which step of a call fails and whether a lost
  commit took effect, the times, the rows other transactions hold locked, the order in which
  unordered statements see rows, and what other clients do between the transactions of one call.
  A call runs each statement in a transaction of its own, or, with a \<^verbatim>\<open>statement_timeout\<close>, all of them in
  one. Logging is not modelled.
\<close>

section \<open>The table\<close>

record Pg =
  pg_rows :: "RawRow list"
  pg_next_sequence :: int

datatype DbStep = DbBegin | DbSetTimeout | DbStatement nat | DbCommit

record Db =
  db_error :: "nat \<Rightarrow> DbStep \<Rightarrow> SqlxError option"
  db_applied :: "nat \<Rightarrow> bool"
  db_now :: "nat \<Rightarrow> instant"
  db_skip :: "uuid \<Rightarrow> bool"
  db_scan :: "RawRow list \<Rightarrow> RawRow list"
  db_pick :: "nat list \<Rightarrow> nat"
  db_time_ok :: "instant \<Rightarrow> bool"
  db_others :: "nat \<Rightarrow> Pg \<Rightarrow> Pg"

definition i32_max :: int where
  "i32_max = 2 ^ 31 - 1"

text \<open>The check constraints of the table, in their order: the first one a row violates.\<close>

definition violated_check :: "RawRow \<Rightarrow> string option" where
  "violated_check r =
     (if raw_attempts r < 0 then Some ''ck_outbox_attempts''
      else if raw_message_version r < 0 then Some ''ck_outbox_message_version''
      else if raw_metadata_version r < 1 then Some ''ck_outbox_metadata_version''
      else if (raw_locked_by r = None) \<noteq> (raw_locked_until r = None) then Some ''ck_outbox_lease''
      else if raw_published_at r \<noteq> None \<and> raw_dead_at r \<noteq> None then Some ''ck_outbox_terminal''
      else if (raw_dead_at r = None) \<noteq> (raw_dead_reason r = None) then Some ''ck_outbox_dead_reason''
      else None)"

text \<open>A stored row: the integer column holds it and no constraint is violated.\<close>

definition store_check :: "RawRow \<Rightarrow> SqlxError option" where
  "store_check r =
     (if raw_attempts r > i32_max then Some (SqlDatabase (Some ''22003'') None)
      else case violated_check r of
             Some c \<Rightarrow> Some (SqlDatabase (Some ''23514'') (Some c))
           | None \<Rightarrow> None)"

text \<open>\<^verbatim>\<open>UPDATE outbox SET .. WHERE ..\<close>: all matching rows, or an error and none.\<close>

definition sql_update ::
    "(RawRow \<Rightarrow> bool) \<Rightarrow> (RawRow \<Rightarrow> RawRow) \<Rightarrow> Pg \<Rightarrow> (Pg \<times> nat, SqlxError) result" where
  "sql_update p f s =
     (case List.map_filter (\<lambda>r. store_check (f r)) (filter p (pg_rows s)) of
        e # _ \<Rightarrow> Err e
      | [] \<Rightarrow> Ok (s\<lparr>pg_rows := map (\<lambda>r. if p r then f r else r) (pg_rows s)\<rparr>, length (filter p (pg_rows s))))"

definition sql_delete :: "(RawRow \<Rightarrow> bool) \<Rightarrow> Pg \<Rightarrow> (Pg \<times> nat, SqlxError) result" where
  "sql_delete p s =
     Ok (s\<lparr>pg_rows := filter (\<lambda>r. \<not> p r) (pg_rows s)\<rparr>, length (filter p (pg_rows s)))"

text \<open>\<^verbatim>\<open>now() + (ms * interval '1 millisecond')\<close>\<close>

definition sql_add_ms :: "Db \<Rightarrow> instant \<Rightarrow> int \<Rightarrow> (instant, SqlxError) result" where
  "sql_add_ms db t ms =
     (if db_time_ok db (t + ms * 1000000) then Ok (t + ms * 1000000) else Err (SqlDatabase (Some ''22008'') None))"

text \<open>\<^verbatim>\<open>i64::try_from(d.as_millis()).unwrap_or(i64::MAX)\<close>\<close>

definition millis_i64 :: "duration \<Rightarrow> int" where
  "millis_i64 d = min (int (as_millis d)) i64_max"

text \<open>The item of \<^verbatim>\<open>UNNEST(..)\<close> that a row joins with: which one of several is the database's choice.\<close>

definition joined :: "Db \<Rightarrow> uuid list \<Rightarrow> RawRow \<Rightarrow> nat option" where
  "joined db ids r =
     (case filter (\<lambda>k. ids ! k = raw_id r) [0..<length ids] of
        [] \<Rightarrow> None
      | k # ks \<Rightarrow> Some (db_pick db (k # ks)))"

section \<open>Statements\<close>

definition raw_lease_free :: "instant \<Rightarrow> RawRow \<Rightarrow> bool" where
  "raw_lease_free t r = (case raw_locked_until r of None \<Rightarrow> True | Some u \<Rightarrow> u < t)"

definition raw_claimable :: "instant \<Rightarrow> RawRow \<Rightarrow> bool" where
  "raw_claimable t r \<longleftrightarrow>
     raw_published_at r = None \<and> raw_dead_at r = None \<and> raw_available_at r \<le> t \<and> raw_lease_free t r
     \<and> (case raw_expires_at r of None \<Rightarrow> True | Some x \<Rightarrow> x > t)"

definition claimed_rows :: "Db \<Rightarrow> nat \<Rightarrow> instant \<Rightarrow> RawRow list \<Rightarrow> RawRow list" where
  "claimed_rows db n t rs =
     take n (filter (\<lambda>r. \<not> db_skip db (raw_id r))
       (sort_key (\<lambda>r. (raw_available_at r, raw_sequence r)) (filter (raw_claimable t) rs)))"

definition raw_leased :: "string \<Rightarrow> instant \<Rightarrow> RawRow \<Rightarrow> RawRow" where
  "raw_leased w u r = r\<lparr>raw_locked_by := Some w, raw_locked_until := Some u\<rparr>"

definition claim_rows :: "Db \<Rightarrow> nat \<Rightarrow> string \<Rightarrow> int \<Rightarrow> instant \<Rightarrow> Pg \<Rightarrow> (Pg \<times> RawRow list, SqlxError) result" where
  "claim_rows db n worker lease_ms t s =
     and_then (sql_add_ms db t lease_ms) (\<lambda>u.
     let ids = map raw_id (claimed_rows db n t (pg_rows s)) in
     and_then (sql_update (\<lambda>r. raw_id r \<in> set ids) (raw_leased worker u) s) (\<lambda>(s', _).
     Ok (s', db_scan db (filter (\<lambda>r. raw_id r \<in> set ids) (pg_rows s')))))"

definition poison_sweep_rows ::
    "Db \<Rightarrow> uuid list \<Rightarrow> string list \<Rightarrow> string \<Rightarrow> string \<Rightarrow> instant \<Rightarrow> Pg \<Rightarrow> (Pg \<times> nat, SqlxError) result" where
  "poison_sweep_rows db ids errors worker undecodable t =
     sql_update (\<lambda>r. raw_id r \<in> set ids \<and> raw_locked_by r = Some worker)
       (\<lambda>r. r\<lparr>raw_dead_at := Some t, raw_dead_reason := Some undecodable,
             raw_last_error := map_option (\<lambda>k. errors ! k) (joined db ids r),
             raw_locked_by := None, raw_locked_until := None\<rparr>)"

definition complete_rows :: "uuid list \<Rightarrow> string \<Rightarrow> instant \<Rightarrow> Pg \<Rightarrow> (Pg \<times> nat, SqlxError) result" where
  "complete_rows ids worker t =
     sql_update (\<lambda>r. raw_id r \<in> set ids \<and> raw_locked_by r = Some worker)
       (\<lambda>r. r\<lparr>raw_published_at := Some t, raw_attempts := raw_attempts r + 1,
             raw_locked_by := None, raw_locked_until := None\<rparr>)"

definition release_rows :: "uuid list \<Rightarrow> string \<Rightarrow> instant \<Rightarrow> Pg \<Rightarrow> (Pg \<times> nat, SqlxError) result" where
  "release_rows ids worker t =
     sql_update (\<lambda>r. raw_id r \<in> set ids \<and> raw_locked_by r = Some worker)
       (\<lambda>r. r\<lparr>raw_locked_by := None, raw_locked_until := None\<rparr>)"

definition extend_lease_rows ::
    "Db \<Rightarrow> uuid list \<Rightarrow> int \<Rightarrow> string \<Rightarrow> instant \<Rightarrow> Pg \<Rightarrow> (Pg \<times> nat, SqlxError) result" where
  "extend_lease_rows db ids lease_ms worker t s =
     and_then (sql_add_ms db t lease_ms) (\<lambda>u.
     sql_update (\<lambda>r. raw_id r \<in> set ids \<and> raw_locked_by r = Some worker)
       (\<lambda>r. r\<lparr>raw_locked_until := Some u\<rparr>) s)"

text \<open>A retry whose time the database cannot represent fails the statement.\<close>

definition fail_retry_rows ::
    "Db \<Rightarrow> uuid list \<Rightarrow> string list \<Rightarrow> int list \<Rightarrow> string \<Rightarrow> instant \<Rightarrow> Pg \<Rightarrow> (Pg \<times> nat, SqlxError) result" where
  "fail_retry_rows db ids errors delays_ms worker t s =
     (if list_all (\<lambda>ms. db_time_ok db (t + ms * 1000000)) delays_ms
      then sql_update (\<lambda>r. raw_id r \<in> set ids \<and> raw_locked_by r = Some worker)
        (\<lambda>r. r\<lparr>raw_attempts := raw_attempts r + 1,
              raw_last_error := map_option (\<lambda>k. errors ! k) (joined db ids r),
              raw_locked_by := None, raw_locked_until := None,
              raw_available_at := (case joined db ids r of Some k \<Rightarrow> t + delays_ms ! k * 1000000 | None \<Rightarrow> raw_available_at r)\<rparr>) s
      else Err (SqlDatabase (Some ''22008'') None))"

definition fail_dead_rows ::
    "Db \<Rightarrow> uuid list \<Rightarrow> string list \<Rightarrow> string list \<Rightarrow> string \<Rightarrow> instant \<Rightarrow> Pg \<Rightarrow> (Pg \<times> nat, SqlxError) result" where
  "fail_dead_rows db ids errors reasons worker t =
     sql_update (\<lambda>r. raw_id r \<in> set ids \<and> raw_locked_by r = Some worker)
       (\<lambda>r. r\<lparr>raw_attempts := raw_attempts r + 1,
             raw_last_error := map_option (\<lambda>k. errors ! k) (joined db ids r),
             raw_dead_at := Some t, raw_dead_reason := map_option (\<lambda>k. reasons ! k) (joined db ids r),
             raw_locked_by := None, raw_locked_until := None\<rparr>)"

definition older :: "instant option \<Rightarrow> instant \<Rightarrow> bool" where
  "older a before = (case a of None \<Rightarrow> False | Some t \<Rightarrow> t < before)"

text \<open>\<^verbatim>\<open>SELECT id .. LIMIT n\<close> without an order: the first matching rows in the order of the scan.\<close>

definition some_ids :: "Db \<Rightarrow> nat \<Rightarrow> (RawRow \<Rightarrow> bool) \<Rightarrow> Pg \<Rightarrow> uuid list" where
  "some_ids db n p s = map raw_id (take n (filter p (db_scan db (pg_rows s))))"

definition purge_published_rows :: "Db \<Rightarrow> int \<Rightarrow> nat \<Rightarrow> instant \<Rightarrow> Pg \<Rightarrow> (Pg \<times> nat, SqlxError) result" where
  "purge_published_rows db retention_ms n t s =
     and_then (sql_add_ms db t (- retention_ms)) (\<lambda>before.
     sql_delete (\<lambda>r. raw_id r \<in> set (some_ids db n (\<lambda>r. older (raw_published_at r) before) s)
       \<and> older (raw_published_at r) before) s)"

definition purge_dead_retention_rows :: "Db \<Rightarrow> int \<Rightarrow> nat \<Rightarrow> instant \<Rightarrow> Pg \<Rightarrow> (Pg \<times> nat, SqlxError) result" where
  "purge_dead_retention_rows db retention_ms n t s =
     and_then (sql_add_ms db t (- retention_ms)) (\<lambda>before.
     sql_delete (\<lambda>r. raw_id r \<in> set (some_ids db n (\<lambda>r. older (raw_dead_at r) before) s)
       \<and> older (raw_dead_at r) before) s)"

definition raw_sweepable :: "instant \<Rightarrow> RawRow \<Rightarrow> bool" where
  "raw_sweepable t r \<longleftrightarrow>
     older (raw_expires_at r) t \<and> raw_published_at r = None \<and> raw_dead_at r = None \<and> raw_lease_free t r"

definition purge_expired_sweep_rows :: "Db \<Rightarrow> nat \<Rightarrow> string \<Rightarrow> instant \<Rightarrow> Pg \<Rightarrow> (Pg \<times> nat, SqlxError) result" where
  "purge_expired_sweep_rows db n expired_reason t s =
     sql_update (\<lambda>r. raw_id r \<in> set (some_ids db n (raw_sweepable t) s)
         \<and> raw_published_at r = None \<and> raw_dead_at r = None \<and> raw_lease_free t r)
       (\<lambda>r. r\<lparr>raw_dead_at := Some t, raw_dead_reason := Some expired_reason,
             raw_last_error := Some ''reliar: expired before publication'',
             raw_locked_by := None, raw_locked_until := None\<rparr>) s"

definition stats_rows :: "instant \<Rightarrow> Pg \<Rightarrow> (Pg \<times> OutboxStats, SqlxError) result" where
  "stats_rows t s =
     (let claimable_rows = filter (raw_claimable t) (pg_rows s) in
      Ok (s, \<lparr>pending = length claimable_rows,
              dead = length (filter (\<lambda>r. raw_dead_at r \<noteq> None) (pg_rows s)),
              expired_pending = length (filter (\<lambda>r. raw_published_at r = None \<and> raw_dead_at r = None
                 \<and> older (raw_expires_at r) t) (pg_rows s)),
              oldest_pending_available_at =
                (if claimable_rows = [] then None else Some (Min (raw_available_at ` set claimable_rows))),
              as_of = t\<rparr>))"

definition raw_dead_matches :: "DeadQuery \<Rightarrow> RawRow \<Rightarrow> bool" where
  "raw_dead_matches q r \<longleftrightarrow>
     raw_dead_at r \<noteq> None
     \<and> (case dq_message_type q of None \<Rightarrow> True | Some ty \<Rightarrow> raw_message_type r = ty)
     \<and> (case dq_tenant_id q of None \<Rightarrow> True | Some tn \<Rightarrow> raw_tenant_id r = Some tn)
     \<and> (case dead_before q of None \<Rightarrow> True | Some before \<Rightarrow> older (raw_dead_at r) before)
     \<and> (case after_sequence q of None \<Rightarrow> True | Some c \<Rightarrow> raw_sequence r > c)"

definition list_dead_rows :: "DeadQuery \<Rightarrow> nat \<Rightarrow> instant \<Rightarrow> Pg \<Rightarrow> (Pg \<times> RawRow list, SqlxError) result" where
  "list_dead_rows q n t s = Ok (s, take n (sort_key raw_sequence (filter (raw_dead_matches q) (pg_rows s))))"

definition pg_retry_dead_rows :: "uuid list \<Rightarrow> instant \<Rightarrow> Pg \<Rightarrow> (Pg \<times> nat, SqlxError) result" where
  "pg_retry_dead_rows ids t =
     sql_update (\<lambda>r. raw_id r \<in> set ids \<and> raw_dead_at r \<noteq> None)
       (\<lambda>r. r\<lparr>raw_dead_at := None, raw_dead_reason := None, raw_available_at := t, raw_attempts := 0,
             raw_locked_by := None, raw_locked_until := None\<rparr>)"

definition pg_purge_dead_rows :: "uuid list \<Rightarrow> instant \<Rightarrow> Pg \<Rightarrow> (Pg \<times> nat, SqlxError) result" where
  "pg_purge_dead_rows ids t = sql_delete (\<lambda>r. raw_id r \<in> set ids \<and> raw_dead_at r \<noteq> None)"

section \<open>Transactions\<close>

type_synonym 'a exec = "nat \<Rightarrow> (instant \<Rightarrow> Pg \<Rightarrow> (Pg \<times> 'a, SqlxError) result) \<Rightarrow> Pg \<Rightarrow> Pg \<times> ('a, SqlxError) result"

text \<open>What other clients did before the \<open>k\<close>-th transaction of the call.\<close>

definition meanwhile :: "Db \<Rightarrow> nat \<Rightarrow> Pg \<Rightarrow> Pg" where
  "meanwhile db k s = (if k = 0 then s else db_others db k s)"

text \<open>A statement on the pool: a transaction of its own. When the reply is lost the statement may have
  been applied.\<close>

definition pg_exec_pool :: "Db \<Rightarrow> nat \<Rightarrow> 'a exec" where
  "pg_exec_pool db k j stmt s0 =
     (let s = meanwhile db (k + j) s0 in
      case stmt (db_now db (k + j)) s of
        Inl e \<Rightarrow> (s, Err e)
      | Inr (s', x) \<Rightarrow>
          (case db_error db (k + j) (DbStatement 0) of
             None \<Rightarrow> (s', Ok x)
           | Some e \<Rightarrow> (if db_applied db (k + j) then s' else s, Err e)))"

text \<open>A statement inside an open transaction.\<close>

definition pg_exec_tx :: "Db \<Rightarrow> nat \<Rightarrow> 'a exec" where
  "pg_exec_tx db k j stmt s =
     (case db_error db k (DbStatement j) of
        Some e \<Rightarrow> (s, Err e)
      | None \<Rightarrow> (case stmt (db_now db k) s of Inl e \<Rightarrow> (s, Err e) | Inr (s', x) \<Rightarrow> (s', Ok x)))"

text \<open>\<^verbatim>\<open>begin\<close>, \<^verbatim>\<open>set_local_timeout\<close>, the statements, \<^verbatim>\<open>commit\<close>; dropped before its commit, it rolls back.\<close>

definition pg_tx :: "Db \<Rightarrow> nat \<Rightarrow> ('a exec \<Rightarrow> Pg \<Rightarrow> Pg \<times> ('b, SqlxError) result) \<Rightarrow> Pg \<Rightarrow> Pg \<times> ('b, SqlxError) result" where
  "pg_tx db k stmts s0 =
     (let s = meanwhile db k s0 in
      case db_error db k DbBegin of
        Some e \<Rightarrow> (s, Err e)
      | None \<Rightarrow>
          (case db_error db k DbSetTimeout of
             Some e \<Rightarrow> (s, Err e)
           | None \<Rightarrow>
               (case stmts (pg_exec_tx db k) s of
                  (_, Inl e) \<Rightarrow> (s, Err e)
                | (s', Inr x) \<Rightarrow>
                    (case db_error db k DbCommit of
                       None \<Rightarrow> (s', Ok x)
                     | Some e \<Rightarrow> (if db_applied db k then s' else s, Err e)))))"

definition pg_call ::
    "PostgresOutboxSettings \<Rightarrow> Db \<Rightarrow> nat \<Rightarrow> ('a exec \<Rightarrow> Pg \<Rightarrow> Pg \<times> ('b, SqlxError) result) \<Rightarrow> Pg
     \<Rightarrow> Pg \<times> ('b, PostgresStoreError) result" where
  "pg_call st db k stmts s =
     map_prod id (map_err (map_operational_error (ps_schema st)))
       (if ps_statement_timeout st = 0 then stmts (pg_exec_pool db k) s else pg_tx db k stmts s)"

section \<open>Store operations\<close>

fun decode_all :: "PgLib \<Rightarrow> RawRow list \<Rightarrow> OutboxRecord list \<times> RowError list" where
  "decode_all lib [] = ([], [])"
| "decode_all lib (raw # rows) =
     (let (records, errors) = decode_all lib rows in
      case decode_row lib raw of
        Inr r \<Rightarrow> (r # records, errors)
      | Inl err \<Rightarrow> (records, err # errors))"

definition poisoned_row :: "RowError \<Rightarrow> PoisonedRow" where
  "poisoned_row err = poisoned_row_new (re_id err) (re_sequence err) (re_detail err)"

definition pg_acquire ::
    "PgLib \<Rightarrow> PostgresOutboxSettings \<Rightarrow> Db \<Rightarrow> AcquireRequest \<Rightarrow> Pg \<Rightarrow> Pg \<times> (AcquiredBatch, PostgresStoreError) result" where
  "pg_acquire lib st db rq s =
     (let worker = worker_as_str (ar_worker rq) in
      case pg_call st db 0 (\<lambda>exec. exec 0 (claim_rows db (unat (ar_batch_size rq)) worker (millis_i64 (ar_lease rq)))) s of
        (s1, Inl e) \<Rightarrow> (s1, Err e)
      | (s1, Inr rows) \<Rightarrow>
          (let (records, errors) = decode_all lib rows;
               batch = \<lparr>ab_records = records, ab_poisoned = map poisoned_row errors\<rparr>
           in if errors = [] then (s1, Ok batch)
              else case pg_call st db 1 (\<lambda>exec. exec 0 (poison_sweep_rows db (map re_id errors)
                       (map (\<lambda>e. truncate_last_error (re_detail e)) errors) worker (encode_dead_reason Undecodable))) s1 of
                     (s2, Inl e) \<Rightarrow> (s2, Err e)
                   | (s2, Inr _) \<Rightarrow> (s2, Ok batch)))"

definition pg_complete ::
    "PostgresOutboxSettings \<Rightarrow> Db \<Rightarrow> WorkerId \<Rightarrow> CompletedMessage list \<Rightarrow> Pg \<Rightarrow> Pg \<times> (nat, PostgresStoreError) result" where
  "pg_complete st db w items s =
     (if items = [] then (s, Ok 0)
      else pg_call st db 0
        (\<lambda>exec. exec 0 (complete_rows (map (\<lambda>i. mr_id (cm_message i)) items) (worker_as_str w))) s)"

fun retry_items :: "FailedMessage list \<Rightarrow> (uuid \<times> string \<times> int) list" where
  "retry_items [] = []"
| "retry_items (item # items) =
     (case fm_outcome item of
        Retry delay \<Rightarrow> (mr_id (fm_message item), fm_error item, millis_i64 delay) # retry_items items
      | Dead _ \<Rightarrow> retry_items items)"

fun dead_items :: "FailedMessage list \<Rightarrow> (uuid \<times> string \<times> string) list" where
  "dead_items [] = []"
| "dead_items (item # items) =
     (case fm_outcome item of
        Dead reason \<Rightarrow> (mr_id (fm_message item), fm_error item, encode_dead_reason reason) # dead_items items
      | Retry _ \<Rightarrow> dead_items items)"

text \<open>Both statements of \<^verbatim>\<open>fail\<close>, each only when it has an item, with the counts added up.\<close>

definition fail_body ::
    "Db \<Rightarrow> WorkerId \<Rightarrow> FailedMessage list \<Rightarrow> nat exec \<Rightarrow> Pg \<Rightarrow> Pg \<times> (nat, SqlxError) result" where
  "fail_body db w items exec s =
     (let rt = retry_items items; dd = dead_items items; worker = worker_as_str w;
          (s1, r1) = (if rt = [] then (s, Ok 0)
             else exec 0 (fail_retry_rows db (map fst rt) (map (\<lambda>x. fst (snd x)) rt) (map (\<lambda>x. snd (snd x)) rt) worker) s)
      in case r1 of
           Inl e \<Rightarrow> (s1, Err e)
         | Inr n1 \<Rightarrow>
             (let (s2, r2) = (if dd = [] then (s1, Ok 0)
                else exec 1 (fail_dead_rows db (map fst dd) (map (\<lambda>x. fst (snd x)) dd) (map (\<lambda>x. snd (snd x)) dd) worker) s1)
              in case r2 of Inl e \<Rightarrow> (s2, Err e) | Inr n2 \<Rightarrow> (s2, Ok (n1 + n2))))"

definition pg_fail ::
    "PostgresOutboxSettings \<Rightarrow> Db \<Rightarrow> WorkerId \<Rightarrow> FailedMessage list \<Rightarrow> Pg \<Rightarrow> Pg \<times> (nat, PostgresStoreError) result" where
  "pg_fail st db w items s =
     (if items = [] then (s, Ok 0) else pg_call st db 0 (fail_body db w items) s)"

definition pg_release ::
    "PostgresOutboxSettings \<Rightarrow> Db \<Rightarrow> WorkerId \<Rightarrow> MessageRef list \<Rightarrow> Pg \<Rightarrow> Pg \<times> (nat, PostgresStoreError) result" where
  "pg_release st db w items s =
     (if items = [] then (s, Ok 0)
      else pg_call st db 0 (\<lambda>exec. exec 0 (release_rows (map mr_id items) (worker_as_str w))) s)"

definition pg_extend_lease ::
    "PostgresOutboxSettings \<Rightarrow> Db \<Rightarrow> WorkerId \<Rightarrow> MessageRef list \<Rightarrow> duration \<Rightarrow> Pg \<Rightarrow> Pg \<times> (nat, PostgresStoreError) result" where
  "pg_extend_lease st db w items d s =
     (if items = [] then (s, Ok 0)
      else pg_call st db 0
        (\<lambda>exec. exec 0 (extend_lease_rows db (map mr_id items) (millis_i64 d) (worker_as_str w))) s)"

text \<open>The two deletions and the sweep of \<^verbatim>\<open>purge\<close>, in this order.\<close>

definition purge_body :: "Db \<Rightarrow> PurgeRequest \<Rightarrow> nat exec \<Rightarrow> Pg \<Rightarrow> Pg \<times> (PurgeReport, SqlxError) result" where
  "purge_body db rq exec s =
     (let n = unat (pq_batch_size rq);
          (s1, r1) = (case published_retention rq of
             Some d \<Rightarrow> exec 0 (purge_published_rows db (millis_i64 d) n) s | None \<Rightarrow> (s, Ok 0))
      in case r1 of Inl e \<Rightarrow> (s1, Err e) | Inr pub \<Rightarrow>
        (let (s2, r2) = (case dead_retention rq of
             Some d \<Rightarrow> exec 1 (purge_dead_retention_rows db (millis_i64 d) n) s1 | None \<Rightarrow> (s1, Ok 0))
         in case r2 of Inl e \<Rightarrow> (s2, Err e) | Inr dd \<Rightarrow>
           (case exec 2 (purge_expired_sweep_rows db n (encode_dead_reason Expired)) s2 of
              (s3, Inl e) \<Rightarrow> (s3, Err e)
            | (s3, Inr swept) \<Rightarrow>
                (s3, Ok \<lparr>published_deleted = pub, dead_deleted = dd, expired_to_dead = swept\<rparr>))))"

definition pg_purge ::
    "PostgresOutboxSettings \<Rightarrow> Db \<Rightarrow> PurgeRequest \<Rightarrow> Pg \<Rightarrow> Pg \<times> (PurgeReport, PostgresStoreError) result" where
  "pg_purge st db rq = pg_call st db 0 (purge_body db rq)"

definition pg_stats :: "PostgresOutboxSettings \<Rightarrow> Db \<Rightarrow> Pg \<Rightarrow> Pg \<times> (OutboxStats, PostgresStoreError) result" where
  "pg_stats st db = pg_call st db 0 (\<lambda>exec. exec 0 stats_rows)"

definition max_list_dead_limit :: u32 where
  "max_list_dead_limit = 1000"

definition pg_list_dead ::
    "PgLib \<Rightarrow> PostgresOutboxSettings \<Rightarrow> Db \<Rightarrow> DeadQuery \<Rightarrow> Pg \<Rightarrow> Pg \<times> (DeadLetterPage, PostgresStoreError) result" where
  "pg_list_dead lib st db q s =
     (let capped = unat (min (limit q) max_list_dead_limit) in
      case pg_call st db 0 (\<lambda>exec. exec 0 (list_dead_rows q capped)) s of
        (s1, Inl e) \<Rightarrow> (s1, Err e)
      | (s1, Inr rows) \<Rightarrow>
          (let (records, errors) = decode_all lib rows;
               max_sequence = (if rows = [] then None else Some (Max (raw_sequence ` set rows)))
           in (s1, Ok \<lparr>dl_records = records, dl_poisoned = map poisoned_row errors,
                      next_after_sequence = (if length rows = capped then max_sequence else None)\<rparr>)))"

definition pg_retry_dead ::
    "PostgresOutboxSettings \<Rightarrow> Db \<Rightarrow> MessageRef list \<Rightarrow> Pg \<Rightarrow> Pg \<times> (nat, PostgresStoreError) result" where
  "pg_retry_dead st db refs s =
     (if refs = [] then (s, Ok 0) else pg_call st db 0 (\<lambda>exec. exec 0 (pg_retry_dead_rows (map mr_id refs))) s)"

definition pg_purge_dead ::
    "PostgresOutboxSettings \<Rightarrow> Db \<Rightarrow> MessageRef list \<Rightarrow> Pg \<Rightarrow> Pg \<times> (nat, PostgresStoreError) result" where
  "pg_purge_dead st db refs s =
     (if refs = [] then (s, Ok 0) else pg_call st db 0 (\<lambda>exec. exec 0 (pg_purge_dead_rows (map mr_id refs))) s)"

end
