(* ===== verification/Postgres_Props.thy ===== *)
theory Postgres_Props
  imports Postgres_Store
begin

text \<open>
  What every call of the PostgreSQL store keeps, whatever fails in it: the constraints of the table,
  the leases on pending rows only, the identities; and what it may publish. A property of the table
  that every statement keeps is kept by every call, in both transaction modes (\<open>pg_call_keeps\<close>).
\<close>

section \<open>Statements that keep a property\<close>

definition keeps :: "(Pg \<Rightarrow> bool) \<Rightarrow> (instant \<Rightarrow> Pg \<Rightarrow> (Pg \<times> 'a, SqlxError) result) \<Rightarrow> bool" where
  "keeps P stmt \<longleftrightarrow> (\<forall>t s s' x. P s \<longrightarrow> stmt t s = Ok (s', x) \<longrightarrow> P s')"

definition exec_keeps :: "(Pg \<Rightarrow> bool) \<Rightarrow> 'a exec \<Rightarrow> bool" where
  "exec_keeps P exec \<longleftrightarrow> (\<forall>j stmt s. keeps P stmt \<longrightarrow> P s \<longrightarrow> P (fst (exec j stmt s)))"

definition others_keep :: "(Pg \<Rightarrow> bool) \<Rightarrow> Db \<Rightarrow> bool" where
  "others_keep P db \<longleftrightarrow> (\<forall>k s. P s \<longrightarrow> P (db_others db k s))"

lemma exec_keepsD: "exec_keeps P exec \<Longrightarrow> keeps P stmt \<Longrightarrow> P s \<Longrightarrow> P (fst (exec j stmt s))"
  by (simp add: exec_keeps_def)

lemma meanwhile_keeps: "others_keep P db \<Longrightarrow> P s \<Longrightarrow> P (meanwhile db k s)"
  by (simp add: others_keep_def meanwhile_def)

lemma keepsD: "keeps P stmt \<Longrightarrow> P s \<Longrightarrow> stmt t s = Ok (s', x) \<Longrightarrow> P s'"
  unfolding keeps_def by blast

lemma exec_pool_keeps: "others_keep P db \<Longrightarrow> exec_keeps P (pg_exec_pool db k)"
  unfolding exec_keeps_def
proof (intro allI impI)
  fix j stmt s assume a: "others_keep P db" "keeps P stmt" "P s"
  let ?s = "meanwhile db (k + j) s"
  have m: "P ?s" by (rule meanwhile_keeps [OF a(1,3)])
  show "P (fst (pg_exec_pool db k j stmt s))"
  proof (cases "stmt (db_now db (k + j)) ?s")
    case (Inr x)
    have "P (fst x)" using keepsD [OF a(2) m, of "db_now db (k + j)" "fst x" "snd x"] Inr by simp
    with m Inr show ?thesis by (auto simp: pg_exec_pool_def Let_def split: option.splits prod.splits)
  qed (use m in \<open>simp add: pg_exec_pool_def Let_def\<close>)
qed

lemma exec_tx_keeps: "exec_keeps P (pg_exec_tx db k)"
  unfolding exec_keeps_def
  by (auto simp: pg_exec_tx_def keepsD split: sum.splits option.splits)

lemma pg_tx_keeps:
  assumes "others_keep P db" "P s" "\<And>exec s. exec_keeps P exec \<Longrightarrow> P s \<Longrightarrow> P (fst (stmts exec s))"
  shows "P (fst (pg_tx db k stmts s))"
proof -
  let ?s = "meanwhile db k s"
  have m: "P ?s" by (rule meanwhile_keeps [OF assms(1,2)])
  obtain s' r where r: "stmts (pg_exec_tx db k) ?s = (s', r)" by fastforce
  have "P s'" using assms(3) [OF exec_tx_keeps m, of db k] by (simp add: r)
  with m show ?thesis by (auto simp: pg_tx_def Let_def r split: sum.splits option.splits)
qed

lemma pg_call_keeps:
  assumes "others_keep P db" "P s" "\<And>exec s. exec_keeps P exec \<Longrightarrow> P s \<Longrightarrow> P (fst (stmts exec s))"
  shows "P (fst (pg_call st db k stmts s))"
proof -
  have "P (fst (stmts (pg_exec_pool db k) s))" by (rule assms(3) [OF exec_pool_keeps [OF assms(1)] assms(2)])
  moreover have "P (fst (pg_tx db k stmts s))" by (rule pg_tx_keeps [OF assms(1,2)]) (rule assms(3))
  ultimately show ?thesis by (simp add: pg_call_def)
qed

text \<open>A call of one statement, and the calls of several.\<close>

lemma pg_call_one:
  assumes "others_keep P db" "P s" "keeps P stmt"
  shows "P (fst (pg_call st db k (\<lambda>exec. exec 0 stmt) s))"
  by (rule pg_call_keeps [OF assms(1,2)]) (rule exec_keepsD [OF _ assms(3)])

lemma fail_body_keeps:
  assumes "exec_keeps P exec" "P s"
    "\<And>ids es ds w. keeps P (fail_retry_rows db ids es ds w)" "\<And>ids es rs w. keeps P (fail_dead_rows db ids es rs w)"
  shows "P (fst (fail_body db w items exec s))"
proof -
  define s1 where "s1 = (if retry_items items = [] then (s, Ok 0)
    else exec 0 (fail_retry_rows db (map fst (retry_items items)) (map (\<lambda>x. fst (snd x)) (retry_items items))
      (map (\<lambda>x. snd (snd x)) (retry_items items)) (worker_as_str w)) s)"
  have 1: "P (fst s1)" using exec_keepsD [OF assms(1,3,2)] assms(2) by (simp add: s1_def)
  let ?dead = "\<lambda>dd. exec 1 (fail_dead_rows db (map fst dd) (map (\<lambda>x. fst (snd x)) dd) (map (\<lambda>x. snd (snd x)) dd)
      (worker_as_str w)) (fst s1)"
  have "fst (fail_body db w items exec s) \<in> {fst s1, fst (?dead (dead_items items))}"
    unfolding fail_body_def Let_def s1_def [symmetric] by (auto split: prod.splits sum.splits)
  with 1 exec_keepsD [OF assms(1,4) 1] show ?thesis by auto
qed

lemma purge_body_keeps:
  assumes "exec_keeps P exec" "P s"
    "\<And>d n. keeps P (purge_published_rows db d n)" "\<And>d n. keeps P (purge_dead_retention_rows db d n)"
    "\<And>n x. keeps P (purge_expired_sweep_rows db n x)"
  shows "P (fst (purge_body db rq exec s))"
proof -
  let ?n = "unat (pq_batch_size rq)"
  define s1 where "s1 = (case published_retention rq of
      Some d \<Rightarrow> exec 0 (purge_published_rows db (millis_i64 d) ?n) s | None \<Rightarrow> (s, Ok 0))"
  define s2 where "s2 = (case dead_retention rq of
      Some d \<Rightarrow> exec 1 (purge_dead_retention_rows db (millis_i64 d) ?n) (fst s1) | None \<Rightarrow> (fst s1, Ok 0))"
  have 1: "P (fst s1)" using exec_keepsD [OF assms(1,3,2)] assms(2) by (simp add: s1_def split: option.splits)
  have 2: "P (fst s2)" using exec_keepsD [OF assms(1,4) 1] 1 by (simp add: s2_def split: option.splits)
  have 3: "P (fst (exec 2 (purge_expired_sweep_rows db ?n (encode_dead_reason Expired)) (fst s2)))"
    by (rule exec_keepsD [OF assms(1,5) 2])
  have "fst (purge_body db rq exec s) \<in> {fst s1, fst s2,
      fst (exec 2 (purge_expired_sweep_rows db ?n (encode_dead_reason Expired)) (fst s2))}"
    unfolding purge_body_def Let_def s1_def [symmetric]
    by (auto simp: s2_def split: prod.splits sum.splits option.splits)
  with 1 2 3 show ?thesis by auto
qed

section \<open>The invariant\<close>

text \<open>A row that satisfies the table's constraints, leased only while pending.\<close>

definition raw_ok :: "RawRow \<Rightarrow> bool" where
  "raw_ok r \<longleftrightarrow> store_check r = None \<and> (raw_locked_by r \<noteq> None \<longrightarrow> raw_published_at r = None \<and> raw_dead_at r = None)"

definition pg_inv :: "Pg \<Rightarrow> bool" where
  "pg_inv s \<longleftrightarrow>
     (\<forall>r \<in> set (pg_rows s). raw_ok r \<and> raw_sequence r < pg_next_sequence s)
     \<and> distinct (map raw_id (pg_rows s)) \<and> distinct (map raw_sequence (pg_rows s))"

lemma sql_update_Ok:
  "sql_update p f s = Ok (s', n) \<longleftrightarrow>
     (\<forall>r \<in> set (pg_rows s). p r \<longrightarrow> store_check (f r) = None)
     \<and> s' = s\<lparr>pg_rows := map (\<lambda>r. if p r then f r else r) (pg_rows s)\<rparr> \<and> n = length (filter p (pg_rows s))"
proof -
  have "List.map_filter g xs = [] \<longleftrightarrow> (\<forall>x \<in> set xs. g x = None)" for g :: "RawRow \<Rightarrow> SqlxError option" and xs
    by (induction xs) (auto simp: List.map_filter_simps split: option.splits)
  from this [of "\<lambda>r. store_check (f r)" "filter p (pg_rows s)"]
  have "List.map_filter (\<lambda>r. store_check (f r)) (filter p (pg_rows s)) = []
      \<longleftrightarrow> (\<forall>r \<in> set (pg_rows s). p r \<longrightarrow> store_check (f r) = None)" by auto
  then show ?thesis unfolding sql_update_def by (cases "List.map_filter (\<lambda>r. store_check (f r)) (filter p (pg_rows s))") auto
qed

text \<open>What an update must respect: the identities, and no lease on a row that is published or dead.\<close>

definition update_ok :: "(RawRow \<Rightarrow> RawRow) \<Rightarrow> RawRow \<Rightarrow> bool" where
  "update_ok f r \<longleftrightarrow> raw_id (f r) = raw_id r \<and> raw_sequence (f r) = raw_sequence r
     \<and> (raw_locked_by (f r) \<noteq> None \<longrightarrow> raw_published_at (f r) = None \<and> raw_dead_at (f r) = None)"

lemma sql_update_inv:
  assumes "pg_inv s" "sql_update p f s = Ok (s', n)"
    "\<And>r. r \<in> set (pg_rows s) \<Longrightarrow> p r \<Longrightarrow> raw_ok r \<Longrightarrow> update_ok f r"
  shows "pg_inv s'"
proof -
  let ?g = "\<lambda>r. if p r then f r else r"
  from assms(2) have s': "s' = s\<lparr>pg_rows := map ?g (pg_rows s)\<rparr>"
    and ok: "\<And>r. r \<in> set (pg_rows s) \<Longrightarrow> p r \<Longrightarrow> store_check (f r) = None"
    by (auto simp: sql_update_Ok)
  have g: "raw_id (?g r) = raw_id r \<and> raw_sequence (?g r) = raw_sequence r \<and> raw_ok (?g r)"
    if "r \<in> set (pg_rows s)" for r
    using that assms(1,3) ok by (auto simp: pg_inv_def update_ok_def raw_ok_def)
  then have "map raw_id (map ?g (pg_rows s)) = map raw_id (pg_rows s)"
    "map raw_sequence (map ?g (pg_rows s)) = map raw_sequence (pg_rows s)" by auto
  moreover have "\<forall>r \<in> set (map ?g (pg_rows s)). raw_ok r \<and> raw_sequence r < pg_next_sequence s"
  proof
    fix r' assume "r' \<in> set (map ?g (pg_rows s))"
    then obtain r where r: "r \<in> set (pg_rows s)" "r' = ?g r" unfolding set_map by blast
    have "raw_sequence r < pg_next_sequence s" using assms(1) r(1) by (simp add: pg_inv_def)
    with g [OF r(1)] show "raw_ok r' \<and> raw_sequence r' < pg_next_sequence s" by (simp only: r(2))
  qed
  ultimately show ?thesis using assms(1) unfolding s' pg_inv_def by (simp del: map_map set_map)
qed

lemma sql_delete_inv: "pg_inv s \<Longrightarrow> sql_delete p s = Ok (s', n) \<Longrightarrow> pg_inv s'"
  by (auto simp: sql_delete_def pg_inv_def distinct_map_filter)

lemmas stmt_defs = poison_sweep_rows_def complete_rows_def release_rows_def extend_lease_rows_def fail_retry_rows_def
  fail_dead_rows_def purge_expired_sweep_rows_def pg_retry_dead_rows_def

lemma claimed_rows_subset:
  "r \<in> set (claimed_rows db n t rs) \<Longrightarrow> r \<in> set rs \<and> raw_claimable t r \<and> \<not> db_skip db (raw_id r)"
  unfolding claimed_rows_def by (drule in_set_takeD) auto

lemma claim_pending:
  assumes "pg_inv s" "r \<in> set (pg_rows s)" "raw_id r \<in> set (map raw_id (claimed_rows db n t (pg_rows s)))"
  shows "raw_claimable t r" "r \<in> set (claimed_rows db n t (pg_rows s))"
proof -
  from assms(3) obtain r' where r': "r' \<in> set (claimed_rows db n t (pg_rows s))" "raw_id r' = raw_id r" by auto
  with claimed_rows_subset [OF r'(1)] assms(1,2) have "r' = r"
    by (auto simp: pg_inv_def distinct_map dest: inj_onD)
  with r' claimed_rows_subset [OF r'(1)] show "raw_claimable t r" "r \<in> set (claimed_rows db n t (pg_rows s))"
    by simp_all
qed

lemma keeps_pg_inv:
  "keeps pg_inv (claim_rows db n w ms)"
  "keeps pg_inv (poison_sweep_rows db ids es w u)"
  "keeps pg_inv (complete_rows ids w)"
  "keeps pg_inv (release_rows ids w)"
  "keeps pg_inv (extend_lease_rows db ids ms w)"
  "keeps pg_inv (fail_retry_rows db ids es ds w)"
  "keeps pg_inv (fail_dead_rows db ids es rs w)"
  "keeps pg_inv (purge_published_rows db ms n)"
  "keeps pg_inv (purge_dead_retention_rows db ms n)"
  "keeps pg_inv (purge_expired_sweep_rows db n x)"
  "keeps pg_inv (pg_retry_dead_rows ids)"
  "keeps pg_inv (pg_purge_dead_rows ids)"
  "keeps pg_inv stats_rows"
  "keeps pg_inv (list_dead_rows q n)"
proof -
  show "keeps pg_inv (claim_rows db n w ms)"
    unfolding keeps_def
  proof (intro allI impI)
    fix t s s' x assume i: "pg_inv s" and "claim_rows db n w ms t s = Ok (s', x)"
    then obtain u k where "sql_update (\<lambda>r. raw_id r \<in> set (map raw_id (claimed_rows db n t (pg_rows s))))
        (raw_leased w u) s = Ok (s', k)" by (auto simp: claim_rows_def Let_def and_then_eq_Ok_iff)
    from sql_update_inv [OF i this] show "pg_inv s'"
      using claim_pending(1) [OF i] by (auto simp: update_ok_def raw_leased_def raw_claimable_def)
  qed
  have upd: "keeps pg_inv stmt"
    if "\<And>t s s' x. stmt t s = Ok (s', x) \<Longrightarrow> \<exists>p f. sql_update p f s = Ok (s', x)
      \<and> (\<forall>r. p r \<longrightarrow> raw_ok r \<longrightarrow> update_ok f r)"
    for stmt :: "instant \<Rightarrow> Pg \<Rightarrow> (Pg \<times> nat, SqlxError) result"
    unfolding keeps_def using that sql_update_inv by meson
  have del: "keeps pg_inv stmt" if "\<And>t s s' x. stmt t s = Ok (s', x) \<Longrightarrow> \<exists>p. sql_delete p s = Ok (s', x)"
    for stmt :: "instant \<Rightarrow> Pg \<Rightarrow> (Pg \<times> nat, SqlxError) result"
    unfolding keeps_def using that sql_delete_inv by meson
  show "keeps pg_inv (poison_sweep_rows db ids es w u)" "keeps pg_inv (complete_rows ids w)"
    "keeps pg_inv (release_rows ids w)" "keeps pg_inv (fail_dead_rows db ids es rs w)"
    "keeps pg_inv (purge_expired_sweep_rows db n x)" "keeps pg_inv (pg_retry_dead_rows ids)"
    unfolding stmt_defs by (rule upd, intro exI conjI, assumption, simp add: update_ok_def)+
  show "keeps pg_inv (extend_lease_rows db ids ms w)"
    by (rule upd, unfold extend_lease_rows_def and_then_eq_Ok_iff, elim exE conjE, intro exI conjI, assumption)
       (auto simp: update_ok_def raw_ok_def)
  show "keeps pg_inv (fail_retry_rows db ids es ds w)"
    by (rule upd, unfold fail_retry_rows_def, simp only: split: if_splits, intro exI conjI, assumption)
       (auto simp: update_ok_def)
  show "keeps pg_inv (purge_published_rows db ms n)" "keeps pg_inv (purge_dead_retention_rows db ms n)"
    "keeps pg_inv (pg_purge_dead_rows ids)"
    by (rule del, auto simp: purge_published_rows_def purge_dead_retention_rows_def pg_purge_dead_rows_def
        and_then_eq_Ok_iff)+
qed (auto simp: keeps_def stats_rows_def list_dead_rows_def Let_def)

section \<open>What is published\<close>

definition pg_published :: "Pg \<Rightarrow> uuid set" where
  "pg_published s = raw_id ` {r \<in> set (pg_rows s). raw_published_at r \<noteq> None}"

text \<open>The table is well formed and only messages of \<open>A\<close> are published.\<close>

definition pg_safe :: "uuid set \<Rightarrow> Pg \<Rightarrow> bool" where
  "pg_safe A s \<longleftrightarrow> pg_inv s \<and> pg_published s \<subseteq> A"

lemma keeps_safe:
  assumes "keeps pg_inv stmt" "\<And>t s s' x. pg_inv s \<Longrightarrow> stmt t s = Ok (s', x) \<Longrightarrow> pg_published s' \<subseteq> pg_published s \<union> A"
  shows "keeps (pg_safe A) stmt"
  unfolding keeps_def pg_safe_def
proof (intro allI impI conjI)
  fix t s s' x assume s: "pg_inv s \<and> pg_published s \<subseteq> A" "stmt t s = Ok (s', x)"
  from s keepsD [OF assms(1)] show "pg_inv s'" by blast
  from s assms(2) [of s t s' x] show "pg_published s' \<subseteq> A" by blast
qed

lemma sql_update_published:
  assumes "sql_update p f s = Ok (s', n)"
    "\<And>r. p r \<Longrightarrow> raw_id (f r) = raw_id r \<and> (raw_published_at (f r) = raw_published_at r \<or> raw_id r \<in> A)"
  shows "pg_published s' \<subseteq> pg_published s \<union> A"
proof
  fix i assume "i \<in> pg_published s'"
  then obtain r where r: "r \<in> set (pg_rows s)" "i = raw_id (if p r then f r else r)"
    "raw_published_at (if p r then f r else r) \<noteq> None"
    using assms(1) by (auto simp: sql_update_Ok pg_published_def)
  then show "i \<in> pg_published s \<union> A"
    using assms(2) [of r] by (cases "p r") (auto simp: pg_published_def)
qed

lemma sql_delete_published: "sql_delete p s = Ok (s', n) \<Longrightarrow> pg_published s' \<subseteq> pg_published s"
  by (auto simp: sql_delete_def pg_published_def)

lemma keeps_pg_safe:
  "keeps (pg_safe A) (claim_rows db n w ms)"
  "keeps (pg_safe A) (poison_sweep_rows db ids es w u)"
  "keeps (pg_safe A) (release_rows ids w)"
  "keeps (pg_safe A) (extend_lease_rows db ids ms w)"
  "keeps (pg_safe A) (fail_retry_rows db ids es ds w)"
  "keeps (pg_safe A) (fail_dead_rows db ids es rs w)"
  "set ids \<subseteq> A \<Longrightarrow> keeps (pg_safe A) (complete_rows ids w)"
proof -
  show "keeps (pg_safe A) (claim_rows db n w ms)"
  proof (rule keeps_safe [OF keeps_pg_inv(1)])
    fix t s s' x assume "claim_rows db n w ms t s = Ok (s', x)"
    then obtain u k where "sql_update (\<lambda>r. raw_id r \<in> set (map raw_id (claimed_rows db n t (pg_rows s))))
        (raw_leased w u) s = Ok (s', k)" by (auto simp: claim_rows_def Let_def and_then_eq_Ok_iff)
    then show "pg_published s' \<subseteq> pg_published s \<union> A"
      by (rule sql_update_published) (simp add: raw_leased_def)
  qed
  show "keeps (pg_safe A) (poison_sweep_rows db ids es w u)"
    by (rule keeps_safe [OF keeps_pg_inv(2)], unfold poison_sweep_rows_def, erule sql_update_published) simp
  show "keeps (pg_safe A) (release_rows ids w)"
    by (rule keeps_safe [OF keeps_pg_inv(4)], unfold release_rows_def, erule sql_update_published) simp
  show "keeps (pg_safe A) (fail_dead_rows db ids es rs w)"
    by (rule keeps_safe [OF keeps_pg_inv(7)], unfold fail_dead_rows_def, erule sql_update_published) simp
  show "keeps (pg_safe A) (complete_rows ids w)" if "set ids \<subseteq> A"
    using that
    by (intro keeps_safe [OF keeps_pg_inv(3)], unfold complete_rows_def, elim sql_update_published) auto
  show "keeps (pg_safe A) (extend_lease_rows db ids ms w)"
    by (rule keeps_safe [OF keeps_pg_inv(5)], unfold extend_lease_rows_def and_then_eq_Ok_iff, elim exE conjE,
        erule sql_update_published) simp
  show "keeps (pg_safe A) (fail_retry_rows db ids es ds w)"
    by (rule keeps_safe [OF keeps_pg_inv(6)], unfold fail_retry_rows_def, simp only: split: if_splits,
        erule sql_update_published) simp_all
qed

section \<open>Calls\<close>

lemma pg_acquire_keeps:
  assumes "others_keep P db" "P s" "\<And>n w ms. keeps P (claim_rows db n w ms)"
    "\<And>ids es w u. keeps P (poison_sweep_rows db ids es w u)"
  shows "P (fst (pg_acquire lib st db rq s))"
proof -
  let ?claim = "claim_rows db (unat (ar_batch_size rq)) (worker_as_str (ar_worker rq)) (millis_i64 (ar_lease rq))"
  obtain s1 r where c: "pg_call st db 0 (\<lambda>exec. exec 0 ?claim) s = (s1, r)" by fastforce
  have s1: "P s1" using pg_call_one [OF assms(1,2,3), of st 0] c by (metis fst_conv)
  show ?thesis
    unfolding pg_acquire_def Let_def c using s1 pg_call_one [OF assms(1) s1 assms(4), of st 1]
    by (auto split: sum.splits prod.splits) (metis fst_conv)+
qed

lemma pg_call_empty: "P s \<Longrightarrow> P (fst c) \<Longrightarrow> P (fst (if b then (s, x) else c))"
  by simp

lemma pg_fail_keeps:
  assumes "others_keep P db" "P s"
    "\<And>ids es ds w. keeps P (fail_retry_rows db ids es ds w)" "\<And>ids es rs w. keeps P (fail_dead_rows db ids es rs w)"
  shows "P (fst (pg_fail st db w items s))"
  unfolding pg_fail_def
  by (rule pg_call_empty [where P = P, OF assms(2)], rule pg_call_keeps [OF assms(1,2)]) (rule fail_body_keeps [OF _ _ assms(3,4)])

text \<open>C11. No call breaks the table, whatever goes wrong: after any operation of the PostgreSQL store, finished or
  failed at any step, in either transaction mode and with other clients at work between its
  transactions, every row meets the constraints of the schema, only pending rows carry a lease, and
  message ids and sequence numbers stay unique.\<close>

theorem pg_calls_keep_invariant:
  assumes "pg_inv s" "others_keep pg_inv db"
  shows "pg_inv (fst (pg_acquire lib st db rq s)) \<and> pg_inv (fst (pg_complete st db w cs s))
    \<and> pg_inv (fst (pg_fail st db w fs s)) \<and> pg_inv (fst (pg_release st db w ms s))
    \<and> pg_inv (fst (pg_extend_lease st db w ms d s)) \<and> pg_inv (fst (pg_purge st db pq s))
    \<and> pg_inv (fst (pg_stats st db s)) \<and> pg_inv (fst (pg_list_dead lib st db q s))
    \<and> pg_inv (fst (pg_retry_dead st db ms s)) \<and> pg_inv (fst (pg_purge_dead st db ms s))"
proof (intro conjI)
  note one = pg_call_one [OF assms(2,1)]
  show "pg_inv (fst (pg_acquire lib st db rq s))"
    by (rule pg_acquire_keeps [OF assms(2,1)]) (rule keeps_pg_inv)+
  show "pg_inv (fst (pg_fail st db w fs s))"
    by (rule pg_fail_keeps [OF assms(2,1)]) (rule keeps_pg_inv)+
  show "pg_inv (fst (pg_complete st db w cs s))" "pg_inv (fst (pg_release st db w ms s))"
    "pg_inv (fst (pg_extend_lease st db w ms d s))" "pg_inv (fst (pg_retry_dead st db ms s))"
    "pg_inv (fst (pg_purge_dead st db ms s))"
    unfolding pg_complete_def pg_release_def pg_extend_lease_def pg_retry_dead_def pg_purge_dead_def
    by (rule pg_call_empty [where P = pg_inv, OF assms(1)], rule one, rule keeps_pg_inv)+
  show "pg_inv (fst (pg_purge st db pq s))"
    unfolding pg_purge_def
    by (rule pg_call_keeps [OF assms(2,1)]) (rule purge_body_keeps, assumption, assumption, (rule keeps_pg_inv)+)
  show "pg_inv (fst (pg_stats st db s))"
    unfolding pg_stats_def by (rule one) (rule keeps_pg_inv)
  show "pg_inv (fst (pg_list_dead lib st db q s))"
  proof -
    let ?c = "pg_call st db 0 (\<lambda>exec. exec 0 (list_dead_rows q (unat (min (limit q) max_list_dead_limit)))) s"
    have "fst (pg_list_dead lib st db q s) = fst ?c"
      by (auto simp: pg_list_dead_def Let_def split: prod.splits sum.splits)
    with one [OF keeps_pg_inv(14)] show ?thesis by simp
  qed
qed

end
