(* ===== verification/Postgres_Refinement.thy ===== *)
theory Postgres_Refinement
  imports Postgres_Props
begin

text \<open>
  The table seen through \<^verbatim>\<open>decode_row\<close>: how each statement acts on the decoded records, and that the calls of
  the PostgreSQL store do on them what the contract of \<open>Store_Contract\<close> says, with durations in whole
  milliseconds and rows addressed by message id.
\<close>

section \<open>The decoded table\<close>

definition decoded :: "PgLib \<Rightarrow> RawRow \<Rightarrow> OutboxRecord option" where
  "decoded lib r = (case decode_row lib r of Inr x \<Rightarrow> Some x | Inl _ \<Rightarrow> None)"

definition pg_records :: "PgLib \<Rightarrow> Pg \<Rightarrow> OutboxRecord list" where
  "pg_records lib s = List.map_filter (decoded lib) (pg_rows s)"

text \<open>The columns of the message itself, which no update touches.\<close>

definition decode_envelope :: "PgLib \<Rightarrow> RawRow \<Rightarrow> SerializedEnvelope option" where
  "decode_envelope lib r =
     (if raw_metadata_version r \<noteq> metadata_version_current
       \<or> \<not> (0 \<le> raw_message_version r \<and> raw_message_version r < 2 ^ 16) then None
      else case decode_metadata lib r of Inl _ \<Rightarrow> None | Inr md \<Rightarrow>
        (case decode_headers_column (raw_headers r) of Inl _ \<Rightarrow> None | Inr h \<Rightarrow>
          Some \<lparr>env_id = raw_id r, message_type = message_type_from_parts (raw_message_type r) (of_int (raw_message_version r)),
                body = raw_payload r, metadata = md, env_headers = h\<rparr>))"

lemma decoded_eq:
  "decoded lib r = Some x \<longleftrightarrow>
     (\<exists>e reason owner. decode_envelope lib r = Some e
       \<and> (case raw_dead_reason r of None \<Rightarrow> reason = None | Some v \<Rightarrow> decode_dead_reason v = reason \<and> reason \<noteq> None)
       \<and> (case raw_locked_by r of None \<Rightarrow> owner = None | Some v \<Rightarrow> worker_parse v = Ok (WorkerId v) \<and> owner = Some (WorkerId v))
       \<and> 0 \<le> raw_attempts r \<and> raw_attempts r < 2 ^ 32
       \<and> x = \<lparr>envelope = e, sequence = raw_sequence r, created_at = raw_created_at r, ordering_key = raw_ordering_key r,
              attempts = of_int (raw_attempts r), available_at = raw_available_at r, locked_by = owner,
              locked_until = raw_locked_until r, published_at = raw_published_at r, dead_at = raw_dead_at r,
              dead_reason = reason, last_error = map_option truncate_error (raw_last_error r)\<rparr>)"
  (is "?L \<longleftrightarrow> ?R")
proof -
  let ?e = "\<lambda>md h. set_headers h (envelope_from_parts (raw_id r)
      (message_type_from_parts (raw_message_type r) (of_int (raw_message_version r))) (raw_payload r) md None)"
  have e: "?e md h = \<lparr>env_id = raw_id r, message_type = message_type_from_parts (raw_message_type r) (of_int (raw_message_version r)),
      body = raw_payload r, metadata = md, env_headers = h\<rparr>" for md h
    by (simp add: set_headers_def envelope_from_parts_def)
  have dec: "?L \<longleftrightarrow> decode_record lib r = Ok x"
    by (cases "decode_record lib r") (simp_all add: decoded_def decode_row_def)
  have build: "builder_last_error (raw_last_error r) (builder_dead (raw_dead_at r) reason (builder_published_at (raw_published_at r)
      (builder_lease owner (raw_locked_until r) (builder_available_at (raw_available_at r) (builder_attempts (of_int (raw_attempts r))
      (builder_ordering_key (raw_ordering_key r) (record_builder e (raw_sequence r) (raw_created_at r))))))))
    = \<lparr>envelope = e, sequence = raw_sequence r, created_at = raw_created_at r, ordering_key = raw_ordering_key r,
              attempts = of_int (raw_attempts r), available_at = raw_available_at r, locked_by = owner,
              locked_until = raw_locked_until r, published_at = raw_published_at r, dead_at = raw_dead_at r,
              dead_reason = reason, last_error = map_option truncate_error (raw_last_error r)\<rparr>" for e reason owner
    by (simp add: record_builder_def builder_last_error_def builder_dead_def builder_published_at_def
        builder_lease_def builder_available_at_def builder_attempts_def builder_ordering_key_def)
  show ?thesis
    unfolding dec decode_record_def Let_def build and_then_eq_Ok_iff e
    by (cases "raw_dead_reason r"; cases "raw_locked_by r")
       (auto simp: decode_envelope_def and_then_eq_Ok_iff parse_opt_def worker_parse_iff split: sum.splits if_splits option.splits)
qed

lemma decode_envelope_frame:
  "decode_envelope lib (r\<lparr>raw_locked_by := a\<rparr>) = decode_envelope lib r"
  "decode_envelope lib (r\<lparr>raw_locked_until := b\<rparr>) = decode_envelope lib r"
  "decode_envelope lib (r\<lparr>raw_published_at := b\<rparr>) = decode_envelope lib r"
  "decode_envelope lib (r\<lparr>raw_attempts := n\<rparr>) = decode_envelope lib r"
  "decode_envelope lib (r\<lparr>raw_last_error := c\<rparr>) = decode_envelope lib r"
  "decode_envelope lib (r\<lparr>raw_available_at := t\<rparr>) = decode_envelope lib r"
  "decode_envelope lib (r\<lparr>raw_dead_at := b\<rparr>) = decode_envelope lib r"
  "decode_envelope lib (r\<lparr>raw_dead_reason := c\<rparr>) = decode_envelope lib r"
  by (simp_all add: decode_envelope_def decode_metadata_def cong: if_cong sum.case_cong)

lemma decode_envelope_id: "decode_envelope lib r = Some e \<Longrightarrow> env_id e = raw_id r"
  by (simp add: decode_envelope_def split: if_splits sum.splits) auto

text \<open>A pending row that a worker holds decodes exactly when its message does.\<close>

definition record_of :: "SerializedEnvelope \<Rightarrow> RawRow \<Rightarrow> WorkerId option \<Rightarrow> DeadReason option \<Rightarrow> OutboxRecord" where
  "record_of e r owner reason =
     \<lparr>envelope = e, sequence = raw_sequence r, created_at = raw_created_at r, ordering_key = raw_ordering_key r,
      attempts = of_int (raw_attempts r), available_at = raw_available_at r, locked_by = owner,
      locked_until = raw_locked_until r, published_at = raw_published_at r, dead_at = raw_dead_at r,
      dead_reason = reason, last_error = map_option truncate_error (raw_last_error r)\<rparr>"

definition valid_worker :: "WorkerId \<Rightarrow> bool" where
  "valid_worker w \<longleftrightarrow> worker_parse (worker_as_str w) = Ok w"

lemma valid_worker_str: "valid_worker w \<Longrightarrow> worker_parse (worker_as_str w) = Ok (WorkerId (worker_as_str w))"
  by (cases w) (simp add: valid_worker_def)

lemma WorkerId_as_str [simp]: "WorkerId (worker_as_str w) = w"
  by (cases w) simp

lemma raw_ok_range: "raw_ok r \<Longrightarrow> 0 \<le> raw_attempts r \<and> raw_attempts r < 2 ^ 32 \<and> raw_attempts r \<le> i32_max"
  by (auto simp: raw_ok_def store_check_def violated_check_def i32_max_def split: if_splits option.splits)

lemma raw_ok_dead_reason: "raw_ok r \<Longrightarrow> raw_dead_at r = None \<longleftrightarrow> raw_dead_reason r = None"
  by (auto simp: raw_ok_def store_check_def violated_check_def split: if_splits option.splits)

lemma raw_ok_locked: "raw_ok r \<Longrightarrow> raw_locked_by r = Some v \<Longrightarrow> raw_dead_reason r = None \<and> raw_dead_at r = None \<and> raw_published_at r = None"
  using raw_ok_dead_reason by (auto simp: raw_ok_def)

lemma decoded_held:
  assumes "raw_ok r" "raw_locked_by r = Some (worker_as_str w)" "valid_worker w"
  shows "decoded lib r = map_option (\<lambda>e. record_of e r (Some w) None) (decode_envelope lib r)"
proof (cases "decode_envelope lib r")
  case None
  then have "decoded lib r \<noteq> Some x" for x by (simp add: decoded_eq)
  with None show ?thesis by (cases "decoded lib r") auto
next
  case (Some e)
  have "decoded lib r = Some (record_of e r (Some w) None)"
    unfolding decoded_eq using Some assms raw_ok_range [OF assms(1)] raw_ok_locked [OF assms(1,2)]
    by (auto simp: record_of_def valid_worker_str)
  with Some show ?thesis by simp
qed

lemma decoded_free:
  assumes "raw_ok r" "raw_locked_by r = None" "raw_dead_reason r = map_option encode_dead_reason reason"
  shows "decoded lib r = map_option (\<lambda>e. record_of e r None reason) (decode_envelope lib r)"
proof (cases "decode_envelope lib r")
  case None
  then have "decoded lib r \<noteq> Some x" for x by (simp add: decoded_eq)
  with None show ?thesis by (cases "decoded lib r") auto
next
  case (Some e)
  have "decode_dead_reason (encode_dead_reason y) = Some y" for y
    by (cases y) (simp_all add: decode_dead_reason_def)
  then have "decoded lib r = Some (record_of e r None reason)"
    unfolding decoded_eq using Some assms raw_ok_range [OF assms(1)]
    by (cases reason) (auto simp: record_of_def)
  with Some show ?thesis by simp
qed

lemma attempts_increment:
  assumes "0 \<le> n" "n + 1 \<le> i32_max"
  shows "saturating_add (of_int n) 1 = (of_int (n + 1) :: u32)"
proof -
  have "uint (of_int n :: u32) = n" using assms by (simp add: uint_word_of_int i32_max_def)
  then have "unat (of_int n :: u32) = nat n" by (simp add: unat_eq_nat_uint)
  then show ?thesis using assms by (simp add: saturating_add_def i32_max_def nat_less_iff)
qed

text \<open>An update of the rows a worker holds, seen on the records.\<close>

lemma map_filter_update:
  assumes "\<And>r. r \<in> set rs \<Longrightarrow> p r \<Longrightarrow> d (f r) = map_option g (d r)"
    "\<And>r x. r \<in> set rs \<Longrightarrow> d r = Some x \<Longrightarrow> p r \<longleftrightarrow> q x"
  shows "List.map_filter d (map (\<lambda>r. if p r then f r else r) rs) = map (\<lambda>x. if q x then g x else x) (List.map_filter d rs)"
  using assms by (induction rs) (auto simp: List.map_filter_simps split: option.splits)

text \<open>References that agree with the table: an id names at most the row it was taken from.\<close>

definition genuine :: "PgLib \<Rightarrow> Pg \<Rightarrow> MessageRef list \<Rightarrow> bool" where
  "genuine lib s refs \<longleftrightarrow>
     (\<forall>m \<in> set refs. \<forall>x \<in> set (pg_records lib s). mr_id m = env_id (envelope x) \<longrightarrow> m = message_ref x)"

lemma decoded_fields:
  assumes "decoded lib r = Some x"
  shows "env_id (envelope x) = raw_id r" "locked_by x = map_option WorkerId (raw_locked_by r)"
    "sequence x = raw_sequence r" "created_at x = raw_created_at r" "available_at x = raw_available_at r"
    "locked_until x = raw_locked_until r" "published_at x = raw_published_at r" "dead_at x = raw_dead_at r"
    "message_ref x = \<lparr>mr_id = raw_id r, mr_created_at = raw_created_at r\<rparr>"
proof -
  from assms [unfolded decoded_eq] obtain e reason owner where
    x: "decode_envelope lib r = Some e" "x = record_of e r owner reason"
    "case raw_locked_by r of None \<Rightarrow> owner = None | Some v \<Rightarrow> worker_parse v = Ok (WorkerId v) \<and> owner = Some (WorkerId v)"
    unfolding record_of_def by blast
  from x(3) have "owner = map_option WorkerId (raw_locked_by r)" by (auto split: option.splits)
  then show "env_id (envelope x) = raw_id r" "locked_by x = map_option WorkerId (raw_locked_by r)"
    "sequence x = raw_sequence r" "created_at x = raw_created_at r" "available_at x = raw_available_at r"
    "locked_until x = raw_locked_until r" "published_at x = raw_published_at r" "dead_at x = raw_dead_at r"
    "message_ref x = \<lparr>mr_id = raw_id r, mr_created_at = raw_created_at r\<rparr>"
    by (simp_all add: x(2) record_of_def message_ref_def decode_envelope_id [OF x(1)])
qed

lemma pg_records_mem: "x \<in> set (pg_records lib s) \<longleftrightarrow> (\<exists>r \<in> set (pg_rows s). decoded lib r = Some x)"
proof -
  have "x \<in> set (List.map_filter d rs) \<longleftrightarrow> (\<exists>r \<in> set rs. d r = Some x)" for d and rs :: "RawRow list"
    by (induction rs) (auto simp: List.map_filter_simps split: option.splits)
  then show ?thesis by (simp add: pg_records_def)
qed

lemma update_owned_refines:
  assumes "pg_inv s" "valid_worker w" "genuine lib s refs"
    and "sql_update (\<lambda>r. raw_id r \<in> set (map mr_id refs) \<and> raw_locked_by r = Some (worker_as_str w)) f s = Ok (s', n)"
    and "\<And>r. r \<in> set (pg_rows s) \<Longrightarrow> raw_id r \<in> mr_id ` set refs \<Longrightarrow> raw_ok r \<Longrightarrow> raw_ok (f r) \<Longrightarrow>
      raw_locked_by r = Some (worker_as_str w) \<Longrightarrow> decoded lib (f r) = map_option g (decoded lib r)"
    and "\<And>r. raw_ok r \<Longrightarrow> raw_locked_by r = Some (worker_as_str w) \<Longrightarrow> update_ok f r"
  shows "pg_records lib s' = update_owned w refs g (pg_records lib s)"
proof -
  let ?p = "\<lambda>r. raw_id r \<in> set (map mr_id refs) \<and> raw_locked_by r = Some (worker_as_str w)"
  from assms(4) have s': "s' = s\<lparr>pg_rows := map (\<lambda>r. if ?p r then f r else r) (pg_rows s)\<rparr>"
    and ok: "\<forall>r \<in> set (pg_rows s). ?p r \<longrightarrow> store_check (f r) = None" by (auto simp: sql_update_Ok)
  have "List.map_filter (decoded lib) (map (\<lambda>r. if ?p r then f r else r) (pg_rows s))
      = map (\<lambda>x. if locked_by x = Some w \<and> message_ref x \<in> set refs then g x else x) (List.map_filter (decoded lib) (pg_rows s))"
  proof (rule map_filter_update)
    fix r assume r: "r \<in> set (pg_rows s)" "?p r"
    with assms(1) have i: "raw_ok r" by (simp add: pg_inv_def)
    moreover have "raw_ok (f r)" using ok r assms(6) [OF i] by (simp add: raw_ok_def update_ok_def)
    ultimately show "decoded lib (f r) = map_option g (decoded lib r)" using assms(5) r by auto
  next
    fix r x assume r: "r \<in> set (pg_rows s)" and x: "decoded lib r = Some x"
    then have "x \<in> set (pg_records lib s)" by (auto simp: pg_records_mem)
    with assms(3) have "m = message_ref x" if "m \<in> set refs" "mr_id m = raw_id r" for m
      using that by (simp add: genuine_def decoded_fields(1) [OF x])
    then have "raw_id r \<in> set (map mr_id refs) \<longleftrightarrow> message_ref x \<in> set refs"
      by (force simp: decoded_fields(9) [OF x])
    moreover have "raw_locked_by r = Some (worker_as_str w) \<longleftrightarrow> locked_by x = Some w"
      unfolding decoded_fields(2) [OF x] by (cases "raw_locked_by r"; cases w) auto
    ultimately show "?p r \<longleftrightarrow> locked_by x = Some w \<and> message_ref x \<in> set refs" by blast
  qed
  then show ?thesis by (simp add: pg_records_def s' update_owned_def)
qed

lemma decoded_completed:
  assumes "raw_ok r" "raw_locked_by r = Some (worker_as_str w)" "valid_worker w"
    and "raw_ok (r\<lparr>raw_published_at := Some t, raw_attempts := raw_attempts r + 1, raw_locked_by := None, raw_locked_until := None\<rparr>)"
      (is "raw_ok ?r'")
  shows "decoded lib ?r' = map_option (row_completed t) (decoded lib r)"
proof -
  have "decoded lib ?r' = map_option (\<lambda>e. record_of e ?r' None None) (decode_envelope lib r)"
    using decoded_free [OF assms(4), of None] raw_ok_locked [OF assms(1,2)] by (simp add: decode_envelope_frame)
  moreover have "saturating_add (of_int (raw_attempts r)) 1 = (of_int (raw_attempts r + 1) :: u32)"
    using raw_ok_range [OF assms(1)] raw_ok_range [OF assms(4)] by (simp add: attempts_increment)
  ultimately show ?thesis
    unfolding decoded_held [OF assms(1-3)]
    by (auto simp: record_of_def row_completed_def option.map_comp intro!: option.map_cong)
qed

lemma decoded_released:
  assumes "raw_ok r" "raw_locked_by r = Some (worker_as_str w)" "valid_worker w"
    and "raw_ok (r\<lparr>raw_locked_by := None, raw_locked_until := None\<rparr>)" (is "raw_ok ?r'")
  shows "decoded lib ?r' = map_option clear_lease (decoded lib r)"
proof -
  have "decoded lib ?r' = map_option (\<lambda>e. record_of e ?r' None None) (decode_envelope lib r)"
    using decoded_free [OF assms(4), of None] raw_ok_locked [OF assms(1,2)] by (simp add: decode_envelope_frame)
  then show ?thesis
    unfolding decoded_held [OF assms(1-3)]
    by (auto simp: record_of_def clear_lease_def option.map_comp intro!: option.map_cong)
qed

lemma decoded_extended:
  assumes "raw_ok r" "raw_locked_by r = Some (worker_as_str w)" "valid_worker w"
    and "raw_ok (r\<lparr>raw_locked_until := Some u\<rparr>)" (is "raw_ok ?r'")
  shows "decoded lib ?r' = map_option (\<lambda>x. x\<lparr>locked_until := Some u\<rparr>) (decoded lib r)"
  unfolding decoded_held [OF assms(1-3)]
  using decoded_held [OF assms(4) _ assms(3)] assms(2)
  by (auto simp: record_of_def option.map_comp decode_envelope_frame intro!: option.map_cong)

section \<open>The calls by reference\<close>

lemma pg_call_one_Ok:
  assumes "pg_call st db 0 (\<lambda>exec. exec 0 stmt) s = (s', Ok x)"
  shows "stmt (db_now db 0) s = Ok (s', x)"
  using assms
  by (auto simp: pg_call_def pg_exec_pool_def pg_tx_def pg_exec_tx_def meanwhile_def Let_def map_err_def
      split: sum.splits option.splits if_splits prod.splits)

lemma pg_complete_refines:
  assumes "pg_inv s" "valid_worker w" "genuine lib s (map cm_message items)" "pg_complete st db w items s = (s', Ok n)"
  shows "pg_records lib s' = spec_complete (db_now db 0) w items (pg_records lib s)"
proof (cases "items = []")
  case True
  with assms(4) show ?thesis by (simp add: pg_complete_def spec_complete_def update_owned_def)
next
  case False
  with assms(4) have "complete_rows (map (\<lambda>i. mr_id (cm_message i)) items) (worker_as_str w) (db_now db 0) s = Ok (s', n)"
    by (intro pg_call_one_Ok) (simp add: pg_complete_def)
  then have "sql_update (\<lambda>r. raw_id r \<in> set (map mr_id (map cm_message items)) \<and> raw_locked_by r = Some (worker_as_str w))
      (\<lambda>r. r\<lparr>raw_published_at := Some (db_now db 0), raw_attempts := raw_attempts r + 1, raw_locked_by := None,
        raw_locked_until := None\<rparr>) s = Ok (s', n)" by (simp add: complete_rows_def comp_def image_image)
  from update_owned_refines [OF assms(1-3) this] show ?thesis
    unfolding spec_complete_def by (simp add: decoded_completed [OF _ _ assms(2)] update_ok_def)
qed

lemma pg_release_refines:
  assumes "pg_inv s" "valid_worker w" "genuine lib s refs" "pg_release st db w refs s = (s', Ok n)"
  shows "pg_records lib s' = spec_release w refs (pg_records lib s)"
proof (cases "refs = []")
  case True
  with assms(4) show ?thesis by (simp add: pg_release_def spec_release_def update_owned_def)
next
  case False
  with assms(4) have "release_rows (map mr_id refs) (worker_as_str w) (db_now db 0) s = Ok (s', n)"
    by (intro pg_call_one_Ok) (simp add: pg_release_def)
  from update_owned_refines [OF assms(1-3) this [unfolded release_rows_def]] show ?thesis
    unfolding spec_release_def by (simp add: decoded_released [OF _ _ assms(2)] update_ok_def)
qed

lemma pg_extend_refines:
  assumes "pg_inv s" "valid_worker w" "genuine lib s refs" "pg_extend_lease st db w refs d s = (s', Ok n)"
  shows "pg_records lib s' = spec_extend (db_now db 0 + millis_i64 d * 1000000) w refs (pg_records lib s)"
proof (cases "refs = []")
  case True
  with assms(4) show ?thesis by (simp add: pg_extend_lease_def spec_extend_def update_owned_def)
next
  case False
  with assms(4) have "extend_lease_rows db (map mr_id refs) (millis_i64 d) (worker_as_str w) (db_now db 0) s = Ok (s', n)"
    by (intro pg_call_one_Ok) (simp add: pg_extend_lease_def)
  then have "sql_update (\<lambda>r. raw_id r \<in> set (map mr_id refs) \<and> raw_locked_by r = Some (worker_as_str w))
      (\<lambda>r. r\<lparr>raw_locked_until := Some (db_now db 0 + millis_i64 d * 1000000)\<rparr>) s = Ok (s', n)"
    by (auto simp: extend_lease_rows_def and_then_eq_Ok_iff sql_add_ms_def split: if_splits)
  from update_owned_refines [OF assms(1-3) this] show ?thesis
    unfolding spec_extend_def by (simp add: decoded_extended [OF _ _ assms(2)] update_ok_def raw_ok_def)
qed

section \<open>Failures\<close>

definition pick_ok :: "Db \<Rightarrow> bool" where
  "pick_ok db \<longleftrightarrow> (\<forall>k ks. db_pick db (k # ks) \<in> set (k # ks))"

lemma filter_upt_eq: "k < n \<Longrightarrow> filter (\<lambda>j. j = k) [0..<n] = [k :: nat]"
  by (induction n) (auto simp: less_Suc_eq filter_empty_conv)

lemma joined_distinct:
  assumes "pick_ok db" "distinct ids" "k < length ids" "ids ! k = raw_id r"
  shows "joined db ids r = Some k"
proof -
  have "filter (\<lambda>j. ids ! j = raw_id r) [0..<length ids] = filter (\<lambda>j. j = k) [0..<length ids]"
  proof (intro filter_cong refl)
    fix j assume "j \<in> set [0..<length ids]"
    with nth_eq_iff_index_eq [OF assms(2) _ assms(3), of j] assms(4) show "(ids ! j = raw_id r) = (j = k)" by simp
  qed
  also have "\<dots> = [k]" using assms(3) by (rule filter_upt_eq)
  finally show ?thesis using assms(1) unfolding joined_def pick_ok_def by fastforce
qed

fun is_retry :: "FailureOutcome \<Rightarrow> bool" where
  "is_retry (Retry _) = True"
| "is_retry (Dead _) = False"

fun round_outcome :: "FailureOutcome \<Rightarrow> FailureOutcome" where
  "round_outcome (Retry d) = Retry (nat (millis_i64 d) * 1000000)"
| "round_outcome (Dead x) = Dead x"

text \<open>The record that the failure of the item named by its reference makes of it.\<close>

definition fail_record :: "instant \<Rightarrow> FailedMessage list \<Rightarrow> OutboxRecord \<Rightarrow> OutboxRecord" where
  "fail_record t items x =
     (case failure_for items (message_ref x) of
        None \<Rightarrow> x
      | Some i \<Rightarrow> row_failed t (fm_error i) (round_outcome (fm_outcome i)) x)"

lemma retry_items_eq:
  "retry_items items = map (\<lambda>i. (mr_id (fm_message i), fm_error i, case fm_outcome i of Retry d \<Rightarrow> millis_i64 d | Dead _ \<Rightarrow> 0))
     (filter (\<lambda>i. is_retry (fm_outcome i)) items)"
  by (induction items) (auto split: FailureOutcome.splits)

lemma dead_items_eq:
  "dead_items items = map (\<lambda>i. (mr_id (fm_message i), fm_error i, case fm_outcome i of Dead x \<Rightarrow> encode_dead_reason x | Retry _ \<Rightarrow> []))
     (filter (\<lambda>i. \<not> is_retry (fm_outcome i)) items)"
  by (induction items) (auto split: FailureOutcome.splits)

lemma millis_i64_nonneg: "0 \<le> millis_i64 d"
  by (simp add: millis_i64_def i64_max_def)

lemma decoded_failed_retry:
  assumes "raw_ok r" "raw_locked_by r = Some (worker_as_str w)" "valid_worker w" "0 \<le> ms"
    and "raw_ok (r\<lparr>raw_attempts := raw_attempts r + 1, raw_last_error := Some err, raw_locked_by := None,
      raw_locked_until := None, raw_available_at := t + ms * 1000000\<rparr>)" (is "raw_ok ?r'")
  shows "decoded lib ?r' = map_option (row_failed t err (Retry (nat ms * 1000000))) (decoded lib r)"
proof -
  have "decoded lib ?r' = map_option (\<lambda>e. record_of e ?r' None None) (decode_envelope lib r)"
    using decoded_free [OF assms(5), of None] raw_ok_locked [OF assms(1,2)] by (simp add: decode_envelope_frame)
  moreover have "saturating_add (of_int (raw_attempts r)) 1 = (of_int (raw_attempts r + 1) :: u32)"
    using raw_ok_range [OF assms(1)] raw_ok_range [OF assms(5)] by (simp add: attempts_increment)
  ultimately show ?thesis
    unfolding decoded_held [OF assms(1-3)] using assms(4)
    by (auto simp: record_of_def row_failed_def Let_def option.map_comp intro!: option.map_cong)
qed

lemma decoded_failed_dead:
  assumes "raw_ok r" "raw_locked_by r = Some (worker_as_str w)" "valid_worker w"
    and "raw_ok (r\<lparr>raw_attempts := raw_attempts r + 1, raw_last_error := Some err, raw_dead_at := Some t,
      raw_dead_reason := Some (encode_dead_reason reason), raw_locked_by := None, raw_locked_until := None\<rparr>)" (is "raw_ok ?r'")
  shows "decoded lib ?r' = map_option (row_failed t err (Dead reason)) (decoded lib r)"
proof -
  have "decoded lib ?r' = map_option (\<lambda>e. record_of e ?r' None (Some reason)) (decode_envelope lib r)"
    using decoded_free [OF assms(4), of "Some reason"] by (simp add: decode_envelope_frame)
  moreover have "saturating_add (of_int (raw_attempts r)) 1 = (of_int (raw_attempts r + 1) :: u32)"
    using raw_ok_range [OF assms(1)] raw_ok_range [OF assms(4)] by (simp add: attempts_increment)
  ultimately show ?thesis
    unfolding decoded_held [OF assms(1-3)] using raw_ok_locked [OF assms(1,2)]
    by (auto simp: record_of_def row_failed_def Let_def option.map_comp intro!: option.map_cong)
qed

lemma failure_for_item:
  assumes "distinct (map fm_message items)" "i \<in> set items"
  shows "failure_for items (fm_message i) = Some i"
  using assms by (induction items) (auto simp: failure_for_def)

lemma fail_record_item:
  assumes "distinct (map fm_message items)" "i \<in> set items" "decoded lib r = Some x"
    "genuine lib s (map fm_message items)" "r \<in> set (pg_rows s)" "mr_id (fm_message i) = raw_id r"
  shows "fail_record t items x = row_failed t (fm_error i) (round_outcome (fm_outcome i)) x"
proof -
  have "x \<in> set (pg_records lib s)" using assms(3,5) by (auto simp: pg_records_mem)
  with assms(2,4,6) have "fm_message i = message_ref x"
    by (simp add: genuine_def decoded_fields(1) [OF assms(3)])
  with failure_for_item [OF assms(1,2)] show ?thesis by (simp add: fail_record_def)
qed

lemma fail_retry_refines:
  fixes items :: "FailedMessage list"
  defines "L \<equiv> filter (\<lambda>i. is_retry (fm_outcome i)) items"
  assumes "pg_inv s" "valid_worker w" "genuine lib s (map fm_message items)" "pick_ok db"
    and d: "distinct (map (\<lambda>i. mr_id (fm_message i)) items)"
    and "fail_retry_rows db (map fst (retry_items items)) (map (\<lambda>x. fst (snd x)) (retry_items items))
      (map (\<lambda>x. snd (snd x)) (retry_items items)) (worker_as_str w) t s = Ok (s', n)"
  shows "pg_records lib s' = update_owned w (map fm_message L) (fail_record t items) (pg_records lib s)"
proof -
  let ?ids = "map (\<lambda>i. mr_id (fm_message i)) L"
  let ?ms = "\<lambda>i. case fm_outcome i of Retry d \<Rightarrow> millis_i64 d | Dead _ \<Rightarrow> 0"
  let ?f = "\<lambda>r. r\<lparr>raw_attempts := raw_attempts r + 1, raw_last_error := map_option (\<lambda>k. map fm_error L ! k) (joined db ?ids r),
      raw_locked_by := None, raw_locked_until := None,
      raw_available_at := (case joined db ?ids r of Some k \<Rightarrow> t + map ?ms L ! k * 1000000 | None \<Rightarrow> raw_available_at r)\<rparr>"
  have upd: "sql_update (\<lambda>r. raw_id r \<in> set (map mr_id (map fm_message L)) \<and> raw_locked_by r = Some (worker_as_str w)) ?f s = Ok (s', n)"
  proof -
    have "map fst (retry_items items) = ?ids" "map (\<lambda>x. fst (snd x)) (retry_items items) = map fm_error L"
      "map (\<lambda>x. snd (snd x)) (retry_items items) = map ?ms L" "map mr_id (map fm_message L) = ?ids"
      by (simp_all add: retry_items_eq L_def)
    note e = this
    show ?thesis using assms(7) unfolding e fail_retry_rows_def by (simp only: split: if_splits) simp
  qed
  have dL: "distinct ?ids" "distinct (map fm_message items)"
    using d unfolding L_def by (auto simp: distinct_map_filter distinct_map inj_on_def)
  show ?thesis
  proof (rule update_owned_refines [OF assms(2,3) _ upd])
    show "genuine lib s (map fm_message L)" using assms(4) by (auto simp: genuine_def L_def)
  next
    fix r assume r: "r \<in> set (pg_rows s)" "raw_id r \<in> mr_id ` set (map fm_message L)" "raw_ok r" "raw_ok (?f r)"
      "raw_locked_by r = Some (worker_as_str w)"
    then obtain k where k: "k < length L" "mr_id (fm_message (L ! k)) = raw_id r" by (auto simp: in_set_conv_nth)
    have j: "joined db ?ids r = Some k" using k by (intro joined_distinct [OF assms(5) dL(1)]) simp_all
    have i: "L ! k \<in> set items" "is_retry (fm_outcome (L ! k))" using nth_mem [OF k(1)] by (simp_all add: L_def)
    then obtain d where oc: "fm_outcome (L ! k) = Retry d" by (cases "fm_outcome (L ! k)") auto
    have "decoded lib (?f r) = map_option (row_failed t (fm_error (L ! k)) (Retry (nat (millis_i64 d) * 1000000))) (decoded lib r)"
      using decoded_failed_retry [OF r(3,5) assms(3) millis_i64_nonneg [of d], where err = "fm_error (L ! k)" and t = t and lib = lib] r(4) k(1)
      by (simp add: j oc)
    with fail_record_item [OF dL(2) i(1) _ assms(4) r(1) k(2), where t = t] oc
    show "decoded lib (?f r) = map_option (fail_record t items) (decoded lib r)"
      by (cases "decoded lib r") simp_all
  qed (simp add: update_ok_def)
qed

lemma fail_dead_refines:
  fixes items :: "FailedMessage list"
  defines "L \<equiv> filter (\<lambda>i. \<not> is_retry (fm_outcome i)) items"
  assumes "pg_inv s" "valid_worker w" "genuine lib s (map fm_message items)" "pick_ok db"
    and d: "distinct (map (\<lambda>i. mr_id (fm_message i)) items)"
    and "fail_dead_rows db (map fst (dead_items items)) (map (\<lambda>x. fst (snd x)) (dead_items items))
      (map (\<lambda>x. snd (snd x)) (dead_items items)) (worker_as_str w) t s = Ok (s', n)"
  shows "pg_records lib s' = update_owned w (map fm_message L) (fail_record t items) (pg_records lib s)"
proof -
  let ?ids = "map (\<lambda>i. mr_id (fm_message i)) L"
  let ?rs = "\<lambda>i. case fm_outcome i of Dead x \<Rightarrow> encode_dead_reason x | Retry _ \<Rightarrow> []"
  let ?f = "\<lambda>r. r\<lparr>raw_attempts := raw_attempts r + 1, raw_last_error := map_option (\<lambda>k. map fm_error L ! k) (joined db ?ids r),
      raw_dead_at := Some t, raw_dead_reason := map_option (\<lambda>k. map ?rs L ! k) (joined db ?ids r),
      raw_locked_by := None, raw_locked_until := None\<rparr>"
  have upd: "sql_update (\<lambda>r. raw_id r \<in> set (map mr_id (map fm_message L)) \<and> raw_locked_by r = Some (worker_as_str w)) ?f s = Ok (s', n)"
  proof -
    have "map fst (dead_items items) = ?ids" "map (\<lambda>x. fst (snd x)) (dead_items items) = map fm_error L"
      "map (\<lambda>x. snd (snd x)) (dead_items items) = map ?rs L" "map mr_id (map fm_message L) = ?ids"
      by (simp_all add: dead_items_eq L_def)
    note e = this
    show ?thesis using assms(7) unfolding e fail_dead_rows_def .
  qed
  have dL: "distinct ?ids" "distinct (map fm_message items)"
    using d unfolding L_def by (auto simp: distinct_map_filter distinct_map inj_on_def)
  show ?thesis
  proof (rule update_owned_refines [OF assms(2,3) _ upd])
    show "genuine lib s (map fm_message L)" using assms(4) by (auto simp: genuine_def L_def)
  next
    fix r assume r: "r \<in> set (pg_rows s)" "raw_id r \<in> mr_id ` set (map fm_message L)" "raw_ok r" "raw_ok (?f r)"
      "raw_locked_by r = Some (worker_as_str w)"
    then obtain k where k: "k < length L" "mr_id (fm_message (L ! k)) = raw_id r" by (auto simp: in_set_conv_nth)
    have j: "joined db ?ids r = Some k" using k by (intro joined_distinct [OF assms(5) dL(1)]) simp_all
    have i: "L ! k \<in> set items" "\<not> is_retry (fm_outcome (L ! k))" using nth_mem [OF k(1)] by (simp_all add: L_def)
    then obtain x where oc: "fm_outcome (L ! k) = Dead x" by (cases "fm_outcome (L ! k)") auto
    have "decoded lib (?f r) = map_option (row_failed t (fm_error (L ! k)) (Dead x)) (decoded lib r)"
      using decoded_failed_dead [OF r(3,5) assms(3), where err = "fm_error (L ! k)" and t = t and reason = x and lib = lib] r(4) k(1)
      by (simp add: j oc)
    with fail_record_item [OF dL(2) i(1) _ assms(4) r(1) k(2), where t = t] oc
    show "decoded lib (?f r) = map_option (fail_record t items) (decoded lib r)"
      by (cases "decoded lib r") simp_all
  qed (simp add: update_ok_def)
qed

lemma update_owned_twice:
  assumes "\<And>x. locked_by x = Some w \<Longrightarrow> message_ref x \<in> set a \<Longrightarrow> locked_by (g x) = None"
  shows "update_owned w b g (update_owned w a g rs) = update_owned w (a @ b) g rs"
  using assms by (auto simp: update_owned_def)

lemma failure_for_None_iff: "failure_for items m = None \<longleftrightarrow> m \<notin> set (map fm_message items)"
  by (auto simp: failure_for_def find_None_iff)

lemma fail_record_unlocks:
  assumes "message_ref x \<in> set (map fm_message items)"
  shows "locked_by (fail_record t items x) = None"
proof -
  from assms obtain i where "failure_for items (message_ref x) = Some i"
    using failure_for_None_iff [of items "message_ref x"] by (cases "failure_for items (message_ref x)") auto
  then show ?thesis by (simp add: fail_record_def)
qed

lemma failure_for_round:
  "failure_for (map (\<lambda>i. i\<lparr>fm_outcome := round_outcome (fm_outcome i)\<rparr>) items) m
     = map_option (\<lambda>i. i\<lparr>fm_outcome := round_outcome (fm_outcome i)\<rparr>) (failure_for items m)"
  by (induction items) (simp_all add: failure_for_def)

lemma spec_fail_eq:
  "update_owned w (map fm_message items) (fail_record t items) rs
     = spec_fail t w (map (\<lambda>i. i\<lparr>fm_outcome := round_outcome (fm_outcome i)\<rparr>) items) rs"
  unfolding update_owned_def spec_fail_def failure_for_round
proof (rule map_cong [OF refl])
  fix x
  show "(if locked_by x = Some w \<and> message_ref x \<in> set (map fm_message items) then fail_record t items x else x)
    = (if locked_by x = Some w then
         case map_option (\<lambda>i. i\<lparr>fm_outcome := round_outcome (fm_outcome i)\<rparr>) (failure_for items (message_ref x)) of
           None \<Rightarrow> x | Some f \<Rightarrow> row_failed t (fm_error f) (fm_outcome f) x
       else x)"
    using failure_for_None_iff [of items "message_ref x"]
    by (cases "failure_for items (message_ref x)") (simp_all add: fail_record_def)
qed

lemma genuine_updated:
  assumes "genuine lib s refs" "map message_ref (pg_records lib s') = map message_ref (pg_records lib s)"
  shows "genuine lib s' refs"
  unfolding genuine_def
proof (intro ballI impI)
  fix m x assume m: "m \<in> set refs" "x \<in> set (pg_records lib s')" "mr_id m = env_id (envelope x)"
  then have "message_ref x \<in> set (map message_ref (pg_records lib s))" unfolding assms(2) [symmetric] by simp
  then obtain y where y: "y \<in> set (pg_records lib s)" "message_ref y = message_ref x" by auto
  then have "env_id (envelope y) = env_id (envelope x)" by (simp add: message_ref_def)
  with assms(1) m y show "m = message_ref x" by (auto simp: genuine_def)
qed

text \<open>The statements of a call see one time and no other client: always in a transaction of their own.\<close>

definition one_transaction :: "PostgresOutboxSettings \<Rightarrow> Db \<Rightarrow> bool" where
  "one_transaction st db \<longleftrightarrow> ps_statement_timeout st \<noteq> 0 \<or> (\<forall>k. db_others db k = id \<and> db_now db k = db_now db 0)"

lemma pg_call_body_Ok:
  fixes stmts :: "'a exec \<Rightarrow> Pg \<Rightarrow> Pg \<times> ('b, SqlxError) result"
  assumes "one_transaction st db" "pg_call st db 0 stmts s = (s', Ok x)"
  obtains exec where "stmts exec s = (s', Ok x)"
    "\<And>j stmt s s' y. exec j stmt s = (s', Ok y) \<Longrightarrow> stmt (db_now db 0) s = Ok (s', y)"
proof (cases "ps_statement_timeout st = 0")
  case True
  then have e: "stmt (db_now db 0) s = Ok (s', y)" if "pg_exec_pool db 0 j stmt s = (s', Ok y)"
    for j s s' y and stmt :: "instant \<Rightarrow> Pg \<Rightarrow> (Pg \<times> 'a, SqlxError) result"
  proof -
    have "meanwhile db j s = s" "db_now db j = db_now db 0"
      using assms(1) True by (simp_all add: one_transaction_def meanwhile_def)
    with that show ?thesis by (auto simp: pg_exec_pool_def Let_def split: sum.splits option.splits prod.splits)
  qed
  have "stmts (pg_exec_pool db 0) s = (s', Ok x)"
    using assms(2) True by (cases "stmts (pg_exec_pool db 0) s") (simp add: pg_call_def)
  then show ?thesis by (rule that [where exec = "pg_exec_pool db 0"]) (rule e)
next
  case False
  have e: "stmt (db_now db 0) s = Ok (s', y)" if "pg_exec_tx db 0 j stmt s = (s', Ok y)"
    for j s s' y and stmt :: "instant \<Rightarrow> Pg \<Rightarrow> (Pg \<times> 'a, SqlxError) result"
    using that by (auto simp: pg_exec_tx_def split: sum.splits option.splits prod.splits)
  have "stmts (pg_exec_tx db 0) s = (s', Ok x)"
    using assms(2) False
    by (auto simp: pg_call_def pg_tx_def meanwhile_def Let_def map_err_def split: sum.splits option.splits prod.splits if_splits)
  then show ?thesis by (rule that [where exec = "pg_exec_tx db 0"]) (rule e)
qed

text \<open>A successful call of \<^verbatim>\<open>fail\<close> ran both statements, one after the other.\<close>

lemma pg_fail_Ok:
  assumes "pg_fail st db w items s = (s', Ok n)" "items \<noteq> []" "one_transaction st db"
  shows "\<exists>s1 n1 n2.
    (if retry_items items = [] then s1 = s
     else fail_retry_rows db (map fst (retry_items items)) (map (\<lambda>x. fst (snd x)) (retry_items items))
       (map (\<lambda>x. snd (snd x)) (retry_items items)) (worker_as_str w) (db_now db 0) s = Ok (s1, n1))
    \<and> (if dead_items items = [] then s' = s1
       else fail_dead_rows db (map fst (dead_items items)) (map (\<lambda>x. fst (snd x)) (dead_items items))
         (map (\<lambda>x. snd (snd x)) (dead_items items)) (worker_as_str w) (db_now db 0) s1 = Ok (s', n2))"
proof -
  have "pg_call st db 0 (fail_body db w items) s = (s', Ok n)" using assms(1,2) by (simp add: pg_fail_def)
  then obtain exec where e: "fail_body db w items exec s = (s', Ok n)"
    "\<And>j stmt s s' n. exec j stmt s = (s', Ok n) \<Longrightarrow> stmt (db_now db 0) s = Ok (s', n)"
    by (rule pg_call_body_Ok [OF assms(3)]) blast
  show ?thesis
    using e(1) unfolding fail_body_def Let_def
    by (auto split: prod.splits sum.splits if_splits dest!: e(2))
qed

lemma pg_fail_refines:
  assumes "pg_inv s" "valid_worker w" "genuine lib s (map fm_message items)" "pick_ok db"
    "distinct (map (\<lambda>i. mr_id (fm_message i)) items)" "one_transaction st db"
    "pg_fail st db w items s = (s', Ok n)"
  shows "pg_records lib s' = spec_fail (db_now db 0) w (map (\<lambda>i. i\<lparr>fm_outcome := round_outcome (fm_outcome i)\<rparr>) items) (pg_records lib s)"
proof (cases "items = []")
  case True
  with assms(7) show ?thesis by (simp add: pg_fail_def spec_fail_def failure_for_def cong: if_cong)
next
  case False
  let ?t = "db_now db 0" and ?R = "filter (\<lambda>i. is_retry (fm_outcome i)) items" and ?D = "filter (\<lambda>i. \<not> is_retry (fm_outcome i)) items"
  let ?g = "fail_record ?t items"
  from pg_fail_Ok [OF assms(7) False assms(6)] obtain s1 n1 n2 where
    1: "if retry_items items = [] then s1 = s
     else fail_retry_rows db (map fst (retry_items items)) (map (\<lambda>x. fst (snd x)) (retry_items items))
       (map (\<lambda>x. snd (snd x)) (retry_items items)) (worker_as_str w) ?t s = Ok (s1, n1)" and
    2: "if dead_items items = [] then s' = s1
       else fail_dead_rows db (map fst (dead_items items)) (map (\<lambda>x. fst (snd x)) (dead_items items))
         (map (\<lambda>x. snd (snd x)) (dead_items items)) (worker_as_str w) ?t s1 = Ok (s', n2)" by blast
  have r1: "pg_records lib s1 = update_owned w (map fm_message ?R) ?g (pg_records lib s)"
    using 1 fail_retry_refines [OF assms(1-5)]
    by (cases "?R = []") (simp_all add: retry_items_eq update_owned_def)
  have i1: "pg_inv s1"
    using 1 assms(1) keepsD [OF keeps_pg_inv(6)] by (metis (full_types))
  have "map message_ref (pg_records lib s1) = map message_ref (pg_records lib s)"
    unfolding r1 by (simp add: update_owned_def fail_record_def split: option.splits)
  note g1 = genuine_updated [OF assms(3) this]
  have r2: "pg_records lib s' = update_owned w (map fm_message ?D) ?g (pg_records lib s1)"
    using 2 fail_dead_refines [OF i1 assms(2) g1 assms(4,5)]
    by (cases "?D = []") (simp_all add: dead_items_eq update_owned_def)
  have "update_owned w (map fm_message ?R @ map fm_message ?D) ?g (pg_records lib s)
      = update_owned w (map fm_message items) ?g (pg_records lib s)"
  proof -
    have "set (map fm_message ?R @ map fm_message ?D) = set (map fm_message items)" by auto
    then show ?thesis by (simp only: update_owned_def)
  qed
  moreover have "pg_records lib s' = update_owned w (map fm_message ?R @ map fm_message ?D) ?g (pg_records lib s)"
    unfolding r2 r1 by (rule update_owned_twice) (auto intro: fail_record_unlocks)
  ultimately show ?thesis by (simp only: spec_fail_eq)
qed

end
