(* ===== verification/Postgres_Acquire.thy ===== *)
theory Postgres_Acquire
  imports Postgres_Refinement "HOL-Library.Multiset"
begin

text \<open>
  The claim of the PostgreSQL store: which rows an acquire call leases, how it splits them into records and poisoned
  rows, what it does with the latter, and that a claim over a readable table is the claim of the contract.
\<close>

section \<open>Splitting the claimed rows\<close>

definition row_error :: "PgLib \<Rightarrow> RawRow \<Rightarrow> RowError option" where
  "row_error lib r = (case decode_row lib r of Inr _ \<Rightarrow> None | Inl e \<Rightarrow> Some e)"

lemma decode_all_eq: "decode_all lib rs = (List.map_filter (decoded lib) rs, List.map_filter (row_error lib) rs)"
  by (induction rs) (auto simp: List.map_filter_simps decoded_def row_error_def Let_def split: sum.splits prod.splits)

lemma row_error_id: "row_error lib r = Some e \<Longrightarrow> re_id e = raw_id r"
  by (auto simp: row_error_def decode_row_def map_err_def split: sum.splits)

lemma row_error_None: "row_error lib r = None \<longleftrightarrow> decoded lib r \<noteq> None"
  by (auto simp: row_error_def decoded_def split: sum.splits)

lemma mset_map_filter: "mset xs = mset ys \<Longrightarrow> mset (List.map_filter f xs) = mset (List.map_filter f ys)"
  by (simp add: List.map_filter_def)

lemma set_map_filter_iff: "y \<in> set (List.map_filter f xs) \<longleftrightarrow> (\<exists>x \<in> set xs. f x = Some y)"
  by (induction xs) (auto simp: List.map_filter_simps split: option.splits)

lemma map_filter_Nil_iff: "List.map_filter f xs = [] \<longleftrightarrow> (\<forall>x \<in> set xs. f x = None)"
  by (induction xs) (auto simp: List.map_filter_simps split: option.splits)

lemma distinct_map_map_filter:
  assumes "distinct (map k xs)" "\<And>x y. f x = Some y \<Longrightarrow> h y = k x"
  shows "distinct (map h (List.map_filter f xs))"
  using assms(1) by (induction xs) (auto simp: List.map_filter_simps set_map_filter_iff assms(2) split: option.splits)

section \<open>The claim\<close>

text \<open>An unordered result holds the rows it should, in some order.\<close>

definition scan_ok :: "Db \<Rightarrow> bool" where
  "scan_ok db \<longleftrightarrow> (\<forall>rs. mset (db_scan db rs) = mset rs)"

definition lease_end :: "Db \<Rightarrow> duration \<Rightarrow> instant" where
  "lease_end db d = db_now db 0 + millis_i64 d * 1000000"

definition poisoned_raw :: "instant \<Rightarrow> RowError \<Rightarrow> RawRow \<Rightarrow> RawRow" where
  "poisoned_raw t e r =
     r\<lparr>raw_dead_at := Some t, raw_dead_reason := Some (encode_dead_reason Undecodable),
       raw_last_error := Some (truncate_last_error (re_detail e)), raw_locked_by := None, raw_locked_until := None\<rparr>"

lemma pg_call_one_later:
  assumes "pg_call st db k (\<lambda>exec. exec 0 stmt) s = (s', Ok x)"
  shows "stmt (db_now db k) (meanwhile db k s) = Ok (s', x)"
  using assms
  by (auto simp: pg_call_def pg_exec_pool_def pg_tx_def pg_exec_tx_def Let_def map_err_def
      split: sum.splits option.splits if_splits prod.splits)

lemma claim_rows_Ok:
  assumes "pg_inv s" "claim_rows db n w ms t s = Ok (s1, rows)"
  shows "s1 = s\<lparr>pg_rows := map (\<lambda>r. if r \<in> set (claimed_rows db n t (pg_rows s))
      then raw_leased w (t + ms * 1000000) r else r) (pg_rows s)\<rparr>"
    "scan_ok db \<Longrightarrow> mset rows = mset (map (raw_leased w (t + ms * 1000000)) (claimed_rows db n t (pg_rows s)))"
proof -
  let ?cl = "claimed_rows db n t (pg_rows s)" and ?u = "t + ms * 1000000"
  let ?p = "\<lambda>r. raw_id r \<in> set (map raw_id ?cl)"
  from assms(2) have s1: "s1 = s\<lparr>pg_rows := map (\<lambda>r. if ?p r then raw_leased w ?u r else r) (pg_rows s)\<rparr>"
    and rows: "rows = db_scan db (filter ?p (pg_rows s1))"
    by (auto simp: claim_rows_def Let_def and_then_eq_Ok_iff sql_add_ms_def sql_update_Ok split: if_splits)
  have p: "?p r \<longleftrightarrow> r \<in> set ?cl" if "r \<in> set (pg_rows s)" for r
    using claim_pending(2) [OF assms(1) that] by auto
  show "s1 = s\<lparr>pg_rows := map (\<lambda>r. if r \<in> set ?cl then raw_leased w ?u r else r) (pg_rows s)\<rparr>"
    unfolding s1 using p by (auto intro!: map_cong arg_cong [where f = "\<lambda>x. s\<lparr>pg_rows := x\<rparr>"])
  have "filter ?p (pg_rows s1) = map (raw_leased w ?u) (filter ?p (pg_rows s))"
  proof -
    have "filter ?p (map (\<lambda>r. if ?p r then raw_leased w ?u r else r) rs) = map (raw_leased w ?u) (filter ?p rs)" for rs
      by (induction rs) (auto simp: raw_leased_def)
    then show ?thesis by (simp add: s1)
  qed
  also have "filter ?p (pg_rows s) = filter (\<lambda>r. r \<in> set ?cl) (pg_rows s)" using p by (intro filter_cong) simp_all
  finally have f: "filter ?p (pg_rows s1) = map (raw_leased w ?u) (filter (\<lambda>r. r \<in> set ?cl) (pg_rows s))" .
  have d: "distinct (pg_rows s)" using assms(1) by (auto simp: pg_inv_def distinct_map)
  then have "distinct ?cl" by (simp add: claimed_rows_def)
  moreover have "set (filter (\<lambda>r. r \<in> set ?cl) (pg_rows s)) = set ?cl" using claimed_rows_subset by fastforce
  ultimately have "mset (filter (\<lambda>r. r \<in> set ?cl) (pg_rows s)) = mset ?cl"
    using d set_eq_iff_mset_eq_distinct [of "filter (\<lambda>r. r \<in> set ?cl) (pg_rows s)" ?cl] by (simp del: mset_filter)
  then show "scan_ok db \<Longrightarrow> mset rows = mset (map (raw_leased w ?u) ?cl)"
    unfolding rows f scan_ok_def by simp
qed

lemma joined_error:
  assumes "pick_ok db" "distinct (map re_id es)" "e \<in> set es" "re_id e = raw_id r"
  shows "map_option (\<lambda>k. map (\<lambda>e. truncate_last_error (re_detail e)) es ! k) (joined db (map re_id es) r)
    = Some (truncate_last_error (re_detail e))"
proof -
  from assms(3) obtain k where k: "k < length es" "es ! k = e" by (auto simp: in_set_conv_nth)
  have "joined db (map re_id es) r = Some k"
    by (rule joined_distinct [OF assms(1,2)]) (use k assms(4) in simp_all)
  with k show ?thesis by simp
qed

text \<open>The rows after an acquire call: the claimed ones leased, those of them that do not decode dead.\<close>

definition acquired_rows :: "PgLib \<Rightarrow> Db \<Rightarrow> AcquireRequest \<Rightarrow> RawRow list \<Rightarrow> RawRow list" where
  "acquired_rows lib db rq rs =
     (let lease = raw_leased (worker_as_str (ar_worker rq)) (lease_end db (ar_lease rq)) in
      map (\<lambda>r. if r \<in> set (claimed_rows db (unat (ar_batch_size rq)) (db_now db 0) rs)
               then (case row_error lib (lease r) of None \<Rightarrow> lease r | Some e \<Rightarrow> poisoned_raw (db_now db 1) e r)
               else r) rs)"

text \<open>What the sweep does to a row.\<close>

definition swept :: "Db \<Rightarrow> RowError list \<Rightarrow> string \<Rightarrow> RawRow \<Rightarrow> RawRow" where
  "swept db es w r =
     (if raw_id r \<in> set (map re_id es) \<and> raw_locked_by r = Some w
      then r\<lparr>raw_dead_at := Some (db_now db 1), raw_dead_reason := Some (encode_dead_reason Undecodable),
             raw_last_error := map_option (\<lambda>k. map (\<lambda>e. truncate_last_error (re_detail e)) es ! k) (joined db (map re_id es) r),
             raw_locked_by := None, raw_locked_until := None\<rparr> else r)"

lemma poison_sweep_Ok:
  "poison_sweep_rows db (map re_id es) (map (\<lambda>e. truncate_last_error (re_detail e)) es) w (encode_dead_reason Undecodable)
     (db_now db 1) s = Ok (s', n) \<Longrightarrow> s' = s\<lparr>pg_rows := map (swept db es w) (pg_rows s)\<rparr>"
  by (simp only: poison_sweep_rows_def sql_update_Ok swept_def [abs_def])

lemma swept_other: "raw_id r \<notin> set (map re_id es) \<Longrightarrow> swept db es w r = r"
  by (simp add: swept_def)

lemma swept_error:
  assumes "pick_ok db" "distinct (map re_id es)" "e \<in> set es" "re_id e = raw_id r"
  shows "swept db es w (raw_leased w u r) = poisoned_raw (db_now db 1) e r"
proof -
  have "raw_id (raw_leased w u r) = raw_id r" by (simp add: raw_leased_def)
  note j = joined_error [OF assms(1-3), of "raw_leased w u r", unfolded this, OF assms(4)]
  have "raw_id r \<in> set (map re_id es)" using assms(3) by (simp flip: assms(4))
  with j show ?thesis by (simp add: swept_def poisoned_raw_def) (simp add: raw_leased_def)
qed

text \<open>The errors of a claim belong to its rows.\<close>

lemma claim_error_row:
  assumes "pg_inv s" "r \<in> set (pg_rows s)" "q \<in> set (claimed_rows db n t (pg_rows s))"
    "row_error lib (raw_leased w u q) = Some e" "re_id e = raw_id r"
  shows "q = r"
proof -
  have "raw_id q = raw_id r" using row_error_id [OF assms(4)] assms(5) by (simp add: raw_leased_def)
  then show ?thesis using claimed_rows_subset [OF assms(3)] assms(1,2)
    by (auto simp: pg_inv_def distinct_map dest: inj_onD)
qed

lemma swept_rows:
  assumes "pg_inv s" "pick_ok db" "distinct (map re_id es)"
    and es: "\<And>e. e \<in> set es \<longleftrightarrow> (\<exists>r \<in> set (claimed_rows db n t (pg_rows s)). row_error lib (raw_leased w u r) = Some e)"
    and r: "r \<in> set (pg_rows s)"
  shows "swept db es w (if r \<in> set (claimed_rows db n t (pg_rows s)) then raw_leased w u r else r)
    = (if r \<in> set (claimed_rows db n t (pg_rows s))
       then (case row_error lib (raw_leased w u r) of None \<Rightarrow> raw_leased w u r | Some e \<Rightarrow> poisoned_raw (db_now db 1) e r)
       else r)" (is "swept db es w (if r \<in> ?C then ?L r else r) = _")
proof -
  note uniq = claim_error_row [OF assms(1) r]
  show ?thesis
  proof (cases "r \<in> ?C \<and> row_error lib (?L r) \<noteq> None")
    case True
    then obtain e where e: "row_error lib (?L r) = Some e" "e \<in> set es" using es by blast
    from row_error_id [OF e(1)] have "re_id e = raw_id r" by (simp add: raw_leased_def)
    from swept_error [OF assms(2,3) e(2) this] True e(1) show ?thesis by simp
  next
    case False
    then have "raw_id r \<notin> set (map re_id es)" using uniq es by fastforce
    with False swept_other [of r es db w] swept_other [of "?L r" es db w] show ?thesis by (auto simp: raw_leased_def)
  qed
qed

lemma claimed_ids:
  assumes "pg_inv s" "mset rows = mset (map (raw_leased w u) (claimed_rows db n t (pg_rows s)))"
  shows "distinct (map re_id (List.map_filter (row_error lib) rows))"
proof -
  have "distinct (map raw_id (claimed_rows db n t (pg_rows s)))" using assms(1)
    by (auto simp: claimed_rows_def pg_inv_def distinct_map inj_on_def dest!: in_set_takeD)
  then have "distinct (map raw_id (map (raw_leased w u) (claimed_rows db n t (pg_rows s))))"
    by (simp add: raw_leased_def comp_def)
  then have "distinct (map raw_id rows)" using assms(2) by (metis mset_map mset_eq_imp_distinct_iff)
  then show ?thesis by (rule distinct_map_map_filter) (rule row_error_id)
qed

lemma pg_acquire_Ok:
  fixes lib st db rq s
  defines "cl \<equiv> map (raw_leased (worker_as_str (ar_worker rq)) (lease_end db (ar_lease rq)))
    (claimed_rows db (unat (ar_batch_size rq)) (db_now db 0) (pg_rows s))"
  assumes "pg_inv s" "scan_ok db" "pg_acquire lib st db rq s = (s', Ok b)"
    "List.map_filter (row_error lib) cl \<noteq> [] \<Longrightarrow> pick_ok db \<and> db_others db 1 = id"
  shows "mset (ab_records b) = mset (List.map_filter (decoded lib) cl)"
    "mset (ab_poisoned b) = mset (map poisoned_row (List.map_filter (row_error lib) cl))"
    "s' = s\<lparr>pg_rows := acquired_rows lib db rq (pg_rows s)\<rparr>"
proof -
  let ?w = "worker_as_str (ar_worker rq)" and ?n = "unat (ar_batch_size rq)" and ?ms = "millis_i64 (ar_lease rq)"
  let ?C = "claimed_rows db ?n (db_now db 0) (pg_rows s)" and ?L = "raw_leased ?w (lease_end db (ar_lease rq))"
  obtain s1 rows where call: "pg_call st db 0 (\<lambda>exec. exec 0 (claim_rows db ?n ?w ?ms)) s = (s1, Ok rows)"
    using assms(4) by (auto simp: pg_acquire_def Let_def split: prod.splits sum.splits)
  note c = claim_rows_Ok [OF assms(2) pg_call_one_Ok [OF call]]
  let ?es = "List.map_filter (row_error lib) rows"
  have m: "mset rows = mset cl" using c(2) [OF assms(3)] by (simp add: cl_def lease_end_def)
  have b: "ab_records b = List.map_filter (decoded lib) rows" "ab_poisoned b = map poisoned_row ?es"
    using assms(4) call
    by (auto simp: pg_acquire_def Let_def decode_all_eq split: prod.splits sum.splits if_splits)
  show "mset (ab_records b) = mset (List.map_filter (decoded lib) cl)" unfolding b by (rule mset_map_filter [OF m])
  show "mset (ab_poisoned b) = mset (map poisoned_row (List.map_filter (row_error lib) cl))"
    unfolding b mset_map mset_map_filter [OF m] ..
  have s1: "s1 = s\<lparr>pg_rows := map (\<lambda>r. if r \<in> set ?C then ?L r else r) (pg_rows s)\<rparr>"
    using c(1) by (simp add: lease_end_def)
  have es: "e \<in> set ?es \<longleftrightarrow> (\<exists>r \<in> set ?C. row_error lib (?L r) = Some e)" for e
    using mset_eq_setD [OF m] by (auto simp: set_map_filter_iff cl_def)
  show "s' = s\<lparr>pg_rows := acquired_rows lib db rq (pg_rows s)\<rparr>"
  proof (cases "?es = []")
    case True
    then have "\<forall>r \<in> set ?C. row_error lib (?L r) = None" using es by (metis empty_iff list.set(1) not_None_eq)
    then have "acquired_rows lib db rq (pg_rows s) = pg_rows s1" by (auto simp: acquired_rows_def Let_def s1)
    moreover have "s' = s1" using assms(4) call True by (simp add: pg_acquire_def decode_all_eq)
    ultimately show ?thesis using s1 by simp
  next
    case False
    then have "List.map_filter (row_error lib) cl \<noteq> []" using mset_map_filter [OF m, of "row_error lib"] by auto
    from assms(5) [OF this] have pk: "pick_ok db" "db_others db 1 = id" by simp_all
    obtain x where "pg_call st db 1 (\<lambda>exec. exec 0 (poison_sweep_rows db (map re_id ?es)
        (map (\<lambda>e. truncate_last_error (re_detail e)) ?es) ?w (encode_dead_reason Undecodable))) s1 = (s', Ok x)"
      using assms(4) call False by (auto simp: pg_acquire_def Let_def decode_all_eq split: prod.splits sum.splits if_splits)
    from poison_sweep_Ok [OF pg_call_one_later [OF this]]
    have s': "s' = s1\<lparr>pg_rows := map (swept db ?es ?w) (pg_rows s1)\<rparr>" using pk(2) by (simp add: meanwhile_def)
    have "map (swept db ?es ?w) (pg_rows s1) = acquired_rows lib db rq (pg_rows s)"
      using swept_rows [OF assms(2) pk(1) claimed_ids [OF assms(2) m [unfolded cl_def]] es]
      by (simp add: s1 acquired_rows_def Let_def)
    then show ?thesis unfolding s' s1 by simp
  qed
qed

section \<open>A readable table\<close>

definition readable :: "PgLib \<Rightarrow> Pg \<Rightarrow> bool" where
  "readable lib s \<longleftrightarrow> (\<forall>r \<in> set (pg_rows s). decoded lib r \<noteq> None)"

lemma decoded_expires:
  assumes "decoded lib r = Some x"
  shows "expires_at (delivery (metadata (envelope x))) = raw_expires_at r"
proof -
  have "decode_metadata lib r = Ok md \<Longrightarrow> expires_at (delivery md) = raw_expires_at r" for md
    by (auto simp: decode_metadata_def and_then_eq_Ok_iff)
  with assms show ?thesis
    by (auto simp: decoded_eq decode_envelope_def split: if_splits sum.splits)
qed

lemma decoded_claimable:
  assumes "decoded lib r = Some x"
  shows "claimable x t \<longleftrightarrow> raw_claimable t r" "claim_key x = (raw_available_at r, raw_sequence r)"
  using decoded_fields [OF assms] decoded_expires [OF assms]
  by (auto simp: claimable_def raw_claimable_def lease_free_def raw_lease_free_def claim_key_def split: option.splits)

lemma decoded_leased:
  assumes "raw_ok r" "raw_claimable t r" "valid_worker w" "decoded lib r = Some x"
  shows "decoded lib (raw_leased (worker_as_str w) u r) = Some (row_leased w u x)"
proof -
  let ?r = "raw_leased (worker_as_str w) u r"
  have ok: "raw_ok ?r"
    using assms(1,2) by (auto simp: raw_ok_def raw_claimable_def raw_leased_def store_check_def violated_check_def
        split: if_splits option.splits)
  from assms(4) [unfolded decoded_eq] obtain e reason owner where e: "decode_envelope lib r = Some e"
    and x: "x = record_of e r owner reason" and rs: "case raw_dead_reason r of None \<Rightarrow> reason = None | Some v \<Rightarrow> decode_dead_reason v = reason \<and> reason \<noteq> None"
    unfolding record_of_def by blast
  have "raw_dead_reason r = None"
    using assms(2) raw_ok_dead_reason [OF assms(1)] by (simp add: raw_claimable_def)
  with rs have "reason = None" by simp
  with decoded_held [OF ok _ assms(3), of lib] e show ?thesis
    by (simp add: raw_leased_def decode_envelope_frame x record_of_def row_leased_def)
qed

lemma sort_key_cong: "(\<And>x. x \<in> set xs \<Longrightarrow> k x = k' x) \<Longrightarrow> sort_key k xs = sort_key k' xs"
proof (induction xs)
  case (Cons a xs)
  have "insort_key k a ys = insort_key k' a ys" if "\<And>x. x \<in> set ys \<Longrightarrow> k x = k' x" "k a = k' a" for ys
    using that by (induction ys) auto
  from this [of "sort_key k' xs"] Cons show ?case by simp
qed simp

lemma readable_records: "readable lib s \<Longrightarrow> pg_records lib s = map (\<lambda>r. the (decoded lib r)) (pg_rows s)"
  by (auto simp: pg_records_def readable_def List.map_filter_def intro: filter_True)

lemma readable_claimed:
  assumes "readable lib s" "\<And>i. \<not> db_skip db i"
  shows "spec_claimed t n (pg_records lib s) = map (\<lambda>r. the (decoded lib r)) (claimed_rows db n t (pg_rows s))"
proof -
  let ?f = "\<lambda>r. the (decoded lib r)"
  have d: "decoded lib r = Some (?f r)" if "r \<in> set (pg_rows s)" for r
    using assms(1) that by (auto simp: readable_def)
  have "filter (\<lambda>x. claimable x t) (map ?f (pg_rows s)) = map ?f (filter (raw_claimable t) (pg_rows s))"
    unfolding filter_map comp_def by (intro arg_cong [where f = "map ?f"] filter_cong refl) (simp add: decoded_claimable(1) [OF d])
  moreover have "sort_key claim_key (map ?f (filter (raw_claimable t) (pg_rows s)))
      = map ?f (sort_key (\<lambda>r. (raw_available_at r, raw_sequence r)) (filter (raw_claimable t) (pg_rows s)))"
    unfolding map_sort_key [symmetric]
    by (intro arg_cong [where f = "map ?f"] sort_key_cong) (simp add: decoded_claimable(2) [OF d])
  ultimately show ?thesis
    using assms(2) by (simp add: spec_claimed_def claimed_rows_def readable_records [OF assms(1)] take_map)
qed

lemma pg_acquire_refines:
  assumes "pg_inv s" "scan_ok db" "valid_worker (ar_worker rq)" "readable lib s"
    "\<And>i. \<not> db_skip db i" "pg_acquire lib st db rq s = (s', Ok b)"
  shows "ab_poisoned b = []"
    "mset (ab_records b) = mset (map (row_leased (ar_worker rq) (lease_end db (ar_lease rq)))
       (spec_claimed (db_now db 0) (unat (ar_batch_size rq)) (pg_records lib s)))"
    "pg_records lib s' = spec_acquire (db_now db 0) (lease_end db (ar_lease rq)) (ar_worker rq)
       (unat (ar_batch_size rq)) (pg_records lib s)"
proof -
  let ?w = "ar_worker rq" and ?u = "lease_end db (ar_lease rq)" and ?f = "\<lambda>r. the (decoded lib r)"
  let ?C = "claimed_rows db (unat (ar_batch_size rq)) (db_now db 0) (pg_rows s)"
  let ?L = "raw_leased (worker_as_str ?w) ?u"
  have L: "decoded lib (?L r) = Some (row_leased ?w ?u (?f r))" if "r \<in> set ?C" for r
  proof (rule decoded_leased [OF _ _ assms(3)])
    show "raw_ok r" "raw_claimable (db_now db 0) r" "decoded lib r = Some (?f r)"
      using claimed_rows_subset [OF that] assms(1,4) by (auto simp: pg_inv_def readable_def)
  qed
  then have e: "row_error lib (?L r) = None" if "r \<in> set ?C" for r using that by (simp add: row_error_None)
  have e0: "List.map_filter (row_error lib) (map ?L ?C) = []" by (simp add: map_filter_Nil_iff e)
  have ok: "mset (ab_records b) = mset (List.map_filter (decoded lib) (map ?L ?C))"
    "mset (ab_poisoned b) = mset (map poisoned_row (List.map_filter (row_error lib) (map ?L ?C)))"
    "s' = s\<lparr>pg_rows := acquired_rows lib db rq (pg_rows s)\<rparr>"
    by (rule pg_acquire_Ok [OF assms(1,2,6)], simp add: e0)+
  from e0 ok(2) show "ab_poisoned b = []" by simp
  have "List.map_filter (decoded lib) (map ?L rs) = map (row_leased ?w ?u) (map ?f rs)" if "set rs \<subseteq> set ?C" for rs
    using that by (induction rs) (auto simp: List.map_filter_simps L)
  with ok(1) show "mset (ab_records b) = mset (map (row_leased ?w ?u)
      (spec_claimed (db_now db 0) (unat (ar_batch_size rq)) (pg_records lib s)))"
    unfolding readable_claimed [OF assms(4,5)] by simp
  have "inj_on ?f (set (pg_rows s))"
  proof (rule inj_onI)
    fix r q assume "r \<in> set (pg_rows s)" "q \<in> set (pg_rows s)" "?f r = ?f q"
    moreover from this assms(4) have "raw_id r = raw_id q"
      by (metis decoded_fields(1) option.collapse readable_def)
    ultimately show "r = q" using assms(1) by (auto simp: pg_inv_def distinct_map dest: inj_onD)
  qed
  then have mem: "?f r \<in> ?f ` set ?C \<longleftrightarrow> r \<in> set ?C" if "r \<in> set (pg_rows s)" for r
    using that claimed_rows_subset by (subst inj_on_image_mem_iff [where B = "set (pg_rows s)"]) auto
  have "acquired_rows lib db rq (pg_rows s) = map (\<lambda>r. if r \<in> set ?C then ?L r else r) (pg_rows s)"
    by (auto simp: acquired_rows_def Let_def e)
  then have "pg_records lib s' = List.map_filter (decoded lib) (map (\<lambda>r. if r \<in> set ?C then ?L r else r) (pg_rows s))"
    by (simp add: pg_records_def ok(3))
  also have "\<dots> = map (\<lambda>r. if r \<in> set ?C then row_leased ?w ?u (?f r) else ?f r) (pg_rows s)"
  proof -
    have "List.map_filter (decoded lib) (map (\<lambda>r. if r \<in> set ?C then ?L r else r) rs)
        = map (\<lambda>r. if r \<in> set ?C then row_leased ?w ?u (?f r) else ?f r) rs" if "set rs \<subseteq> set (pg_rows s)" for rs
      using that assms(4) by (induction rs) (auto simp: List.map_filter_simps L readable_def)
    then show ?thesis by simp
  qed
  also have "\<dots> = map (\<lambda>x. if x \<in> ?f ` set ?C then row_leased ?w ?u x else x) (map ?f (pg_rows s))"
    using mem by simp
  finally show "pg_records lib s' = spec_acquire (db_now db 0) ?u ?w (unat (ar_batch_size rq)) (pg_records lib s)"
    unfolding spec_acquire_def readable_claimed [OF assms(4,5)] by (simp add: readable_records [OF assms(4)])
qed

end
