(* ===== verification/Postgres_Claims.thy ===== *)
theory Postgres_Claims
  imports Postgres_Acquire
begin

text \<open>
  The properties of the PostgreSQL store that need its whole model, a concrete codec and database, and the
  witnesses on them.
\<close>

section \<open>A concrete codec and database\<close>

fun demo_text :: "string option \<Rightarrow> Json" where
  "demo_text None = JNull"
| "demo_text (Some t) = JString t"

fun demo_text_of :: "Json \<Rightarrow> string option" where
  "demo_text_of (JString t) = Some t"
| "demo_text_of _ = None"

definition demo_rest_to :: "MetadataRest \<Rightarrow> Json option" where
  "demo_rest_to r =
     Some (JArray [demo_text (tr_traceparent (rest_trace r)), demo_text (tr_tracestate (rest_trace r)),
       demo_text (rr_source (rest_routing r)), demo_text (rr_destination (rest_routing r)),
       demo_text (rr_reply_to (rest_routing r)),
       (case dr_sent_at_ms (rest_delivery r) of None \<Rightarrow> JNull | Some n \<Rightarrow> JNumber n),
       demo_text (dr_deduplication_id (rest_delivery r))])"

definition demo_rest_of :: "Json \<Rightarrow> (MetadataRest, string) result" where
  "demo_rest_of v =
     (case v of
        JArray [a, b, c, d, e, f, g] \<Rightarrow>
          Ok \<lparr>rest_trace = \<lparr>tr_traceparent = demo_text_of a, tr_tracestate = demo_text_of b\<rparr>,
              rest_routing = \<lparr>rr_source = demo_text_of c, rr_destination = demo_text_of d, rr_reply_to = demo_text_of e\<rparr>,
              rest_delivery = \<lparr>dr_sent_at_ms = (case f of JNumber n \<Rightarrow> Some n | _ \<Rightarrow> None),
                dr_deduplication_id = demo_text_of g\<rparr>\<rparr>
      | _ \<Rightarrow> Err ''not a metadata remainder'')"

definition demo_pg_lib :: PgLib where
  "demo_pg_lib =
     \<lparr>pl_rest_to_value = demo_rest_to, pl_rest_from_value = demo_rest_of, pl_object = rev,
      pl_timestamptz = (\<lambda>t. t div 1000 * 1000), pl_time_ok = (\<lambda>t. 0 \<le> t \<and> t < 10 ^ 20),
      pl_fault_text = (\<lambda>_. ''unreadable'')\<rparr>"

lemma demo_text_of_text [simp]: "demo_text_of (demo_text x) = x"
  by (cases x) simp_all

lemma demo_pg_lib_ok: "pg_lib_ok demo_pg_lib"
proof -
  have "demo_rest_of (the (demo_rest_to r)) = Ok r" for r
    by (auto simp: demo_rest_to_def demo_rest_of_def split: option.splits)
  then have "\<exists>v. demo_rest_to r = Some v \<and> demo_rest_of v = Ok r" for r
    using demo_rest_to_def by auto
  moreover have "t div 1000000 * 1000000 \<le> t" for t :: int by presburger
  then have "t div 1000000 * 1000000 < 10 ^ 20" if "t < 10 ^ 20" for t :: int
    using that by (rule le_less_trans)
  ultimately show ?thesis
    by (simp add: pg_lib_ok_def demo_pg_lib_def rev_map [symmetric] pos_imp_zdiv_nonneg_iff)
qed

definition demo_pg_envelope :: "string Envelope" where
  "demo_pg_envelope =
     \<lparr>env_id = 7, message_type = \<lparr>mt_name = ''orders.created'', mt_version = 2\<rparr>, body = ''order'',
      metadata =
        \<lparr>correlation = \<lparr>correlation_id = Some (CorrelationId ''c1''), conversation_id = 7, causation_id = None, request_id = None\<rparr>,
         trace = \<lparr>traceparent = None, tracestate = None\<rparr>,
         routing = \<lparr>source = Some (EndpointAddress ''billing''), destination = None, reply_to = None\<rparr>,
         delivery = \<lparr>content_type = ContentType ''text/plain'', sent_at = Some 1234567, expires_at = Some 5000000001, deduplication_id = None\<rparr>,
         tenant_id = Some ''t1''\<rparr>,
      env_headers = Some [(''k'', ''v''), (''l'', ''w'')]\<rparr>"

definition demo_db :: Db where
  "demo_db =
     \<lparr>db_error = (\<lambda>_ _. None), db_applied = (\<lambda>_. True), db_now = (\<lambda>_. 1000), db_skip = (\<lambda>_. False), db_scan = rev,
      db_pick = hd, db_time_ok = (\<lambda>_. True), db_others = (\<lambda>_. id)\<rparr>"

definition demo_row :: "uuid \<Rightarrow> int \<Rightarrow> RawRow" where
  "demo_row i seq = staged_row demo_pg_lib (demo_pg_envelope\<lparr>env_id := i\<rparr>) ''{}'' (ContentType ''application/json'') None 10 seq"

text \<open>Two rows that decode and one whose metadata version is unknown.\<close>

definition demo_table :: Pg where
  "demo_table = \<lparr>pg_rows = [demo_row 1 1, (demo_row 2 2)\<lparr>raw_metadata_version := 9\<rparr>, demo_row 3 3], pg_next_sequence = 4\<rparr>"

lemma demo_pg_envelope_valid:
  "envelope_valid demo_pg_envelope" "valid_content_type (ContentType ''application/json'')"
proof -
  have h: "headers_wf (custom_headers demo_pg_envelope)" by code_simp
  have "content_type_parse ''text/plain'' = Ok (ContentType ''text/plain'')"
    "content_type_parse ''application/json'' = Ok (ContentType ''application/json'')"
    "correlation_id_parse ''c1'' = Ok (CorrelationId ''c1'')"
    "endpoint_parse ''billing'' = Ok (EndpointAddress ''billing'')" by code_simp+
  then have "valid_content_type (ContentType ''text/plain'')" "valid_correlation_id (CorrelationId ''c1'')"
    "valid_endpoint (EndpointAddress ''billing'')" "valid_content_type (ContentType ''application/json'')"
    unfolding content_type_parse_iff correlation_id_parse_iff endpoint_parse_iff by blast+
  with h show "envelope_valid demo_pg_envelope" "valid_content_type (ContentType ''application/json'')"
    by (simp_all add: envelope_valid_def Let_def demo_pg_envelope_def)
qed

theorem staged_row_decodes_witness:
  "pg_lib_ok demo_pg_lib \<and> envelope_valid demo_pg_envelope
    \<and> (\<exists>e'. envelope_eq e' (stored_form demo_pg_lib (ContentType ''application/json'') ''{}'' demo_pg_envelope)
      \<and> decode_row demo_pg_lib (staged_row demo_pg_lib demo_pg_envelope ''{}'' (ContentType ''application/json'') None 10 1)
        = Ok ((record_builder e' 1 10)\<lparr>ordering_key := None\<rparr>))"
proof -
  have "pred_option (pl_time_ok demo_pg_lib) (sent_at (delivery (metadata demo_pg_envelope)))"
    by (simp add: demo_pg_lib_def demo_pg_envelope_def)
  from staged_row_decodes [OF demo_pg_lib_ok demo_pg_envelope_valid this] demo_pg_lib_ok demo_pg_envelope_valid(1)
  show ?thesis by blast
qed

lemma demo_table_inv: "pg_inv demo_table"
  by code_simp

definition demo_request :: AcquireRequest where
  "demo_request = \<lparr>ar_worker = WorkerId ''w1'', ar_batch_size = 2, ar_lease = 5000000, ar_ordering = Unordered\<rparr>"

theorem pg_calls_keep_invariant_witness:
  "pg_inv demo_table \<and> pg_inv (fst (pg_acquire demo_pg_lib postgres_settings_default demo_db demo_request demo_table))"
proof -
  have "others_keep pg_inv demo_db" by (simp add: others_keep_def demo_db_def)
  from pg_calls_keep_invariant [OF demo_table_inv this] demo_table_inv show ?thesis by blast
qed

section \<open>Claims\<close>

lemma claimed_rows_least:
  assumes "r \<in> set rs" "raw_claimable t r" "\<not> db_skip db (raw_id r)" "r \<notin> set (claimed_rows db n t rs)"
  shows "length (claimed_rows db n t rs) = n"
    "q \<in> set (claimed_rows db n t rs) \<Longrightarrow> (raw_available_at q, raw_sequence q) \<le> (raw_available_at r, raw_sequence r)"
proof -
  let ?k = "\<lambda>r. (raw_available_at r, raw_sequence r)"
  let ?xs = "filter (\<lambda>r. \<not> db_skip db (raw_id r)) (sort_key ?k (filter (raw_claimable t) rs))"
  have "sorted (map ?k ?xs)" by (rule sorted_filter) (rule sorted_sort_key)
  moreover have "r \<in> set ?xs" using assms(1-3) by simp
  moreover have "r \<notin> set (take n ?xs)" using assms(4) by (simp add: claimed_rows_def)
  ultimately show "length (claimed_rows db n t rs) = n" "q \<in> set (claimed_rows db n t rs) \<Longrightarrow> ?k q \<le> ?k r"
    using take_least(1) [of ?k ?xs r n] take_least(2) [of ?k ?xs r n q] unfolding claimed_rows_def by blast+
qed

lemma length_split_rows:
  "length (List.map_filter (decoded lib) rs) + length (List.map_filter (row_error lib) rs) = length rs"
  by (induction rs) (auto simp: List.map_filter_simps decoded_def row_error_def split: sum.splits)

text \<open>C8. What one successful claim on PostgreSQL does. It takes at most the requested number of rows, all due,
  unlocked or with a lapsed lease, unexpired and not terminal, the first ones in \<^verbatim>\<open>available_at, sequence\<close>
  order among those no other transaction holds. Every row taken is returned exactly once: as a
  record with the lease of the caller, or, when it does not decode, as a poisoned row, which the
  same call has moved to the dead letters as undecodable with the reason and without a lease. No other
  row changes.\<close>

theorem pg_acquire_correct:
  assumes "pg_inv s" "scan_ok db" "pick_ok db" "db_others db 1 = id" "pg_acquire lib st db rq s = (s', Ok b)"
  shows "\<exists>cl. set cl \<subseteq> {r \<in> set (pg_rows s). raw_claimable (db_now db 0) r}
    \<and> distinct cl \<and> length cl \<le> unat (ar_batch_size rq)
    \<and> (\<forall>r \<in> set (pg_rows s). raw_claimable (db_now db 0) r \<longrightarrow> \<not> db_skip db (raw_id r) \<longrightarrow> r \<notin> set cl \<longrightarrow>
         length cl = unat (ar_batch_size rq)
         \<and> (\<forall>q \<in> set cl. (raw_available_at q, raw_sequence q) \<le> (raw_available_at r, raw_sequence r)))
    \<and> length (ab_records b) + length (ab_poisoned b) = length cl
    \<and> (let lease = raw_leased (worker_as_str (ar_worker rq)) (lease_end db (ar_lease rq)) in
        mset (ab_records b) = mset (List.map_filter (decoded lib) (map lease cl))
        \<and> mset (ab_poisoned b) = mset (map poisoned_row (List.map_filter (row_error lib) (map lease cl)))
        \<and> s' = s\<lparr>pg_rows := map (\<lambda>r. if r \<in> set cl
              then (case row_error lib (lease r) of None \<Rightarrow> lease r | Some e \<Rightarrow> poisoned_raw (db_now db 1) e r)
              else r) (pg_rows s)\<rparr>)"
proof -
  let ?C = "claimed_rows db (unat (ar_batch_size rq)) (db_now db 0) (pg_rows s)"
  let ?L = "raw_leased (worker_as_str (ar_worker rq)) (lease_end db (ar_lease rq))"
  have ok: "mset (ab_records b) = mset (List.map_filter (decoded lib) (map ?L ?C))"
    "mset (ab_poisoned b) = mset (map poisoned_row (List.map_filter (row_error lib) (map ?L ?C)))"
    "s' = s\<lparr>pg_rows := acquired_rows lib db rq (pg_rows s)\<rparr>"
    using assms(3,4) by - (rule pg_acquire_Ok [OF assms(1,2,5)], simp)+
  have "length (ab_records b) + length (ab_poisoned b) = length ?C"
    using length_split_rows [of lib "map ?L ?C"] arg_cong [OF ok(1), of size] arg_cong [OF ok(2), of size] by simp
  moreover have "distinct ?C" using assms(1) by (auto simp: claimed_rows_def pg_inv_def distinct_map)
  moreover have "length ?C \<le> unat (ar_batch_size rq)" by (simp add: claimed_rows_def)
  ultimately show ?thesis
    using claimed_rows_subset claimed_rows_least [where t = "db_now db 0" and rs = "pg_rows s"] ok
    by (intro exI [of _ ?C]) (force simp: Let_def acquired_rows_def)
qed

lemma demo_db_ok: "scan_ok demo_db" "pick_ok demo_db" "db_others demo_db 1 = id" "\<And>k. \<not> db_skip demo_db k"
  by (simp_all add: scan_ok_def pick_ok_def demo_db_def)

theorem pg_acquire_correct_witness:
  "\<exists>b. pg_acquire demo_pg_lib postgres_settings_default demo_db demo_request demo_table
      = (fst (pg_acquire demo_pg_lib postgres_settings_default demo_db demo_request demo_table), Ok b)
    \<and> length (ab_records b) = 1 \<and> length (ab_poisoned b) = 1
    \<and> (\<exists>cl. length cl = 2 \<and> mset (ab_records b) = mset (List.map_filter (decoded demo_pg_lib)
        (map (raw_leased ''w1'' (lease_end demo_db 5000000)) cl)))"
proof -
  let ?r = "pg_acquire demo_pg_lib postgres_settings_default demo_db demo_request demo_table"
  have "(case snd ?r of Inl _ \<Rightarrow> False | Inr b \<Rightarrow> length (ab_records b) = 1 \<and> length (ab_poisoned b) = 1)"
    by code_simp
  then obtain b where b: "?r = (fst ?r, Ok b)" "length (ab_records b) = 1" "length (ab_poisoned b) = 1"
    by (cases ?r) (auto split: sum.splits)
  from pg_acquire_correct [OF demo_table_inv demo_db_ok(1-3) b(1)] obtain cl where
    "length (ab_records b) + length (ab_poisoned b) = length cl"
    "mset (ab_records b) = mset (List.map_filter (decoded demo_pg_lib)
      (map (raw_leased (worker_as_str (ar_worker demo_request)) (lease_end demo_db (ar_lease demo_request))) cl))"
    unfolding Let_def by blast
  with b show ?thesis by (intro exI [of _ b] conjI exI [of _ cl]) (simp_all add: demo_request_def)
qed


text \<open>An instance: a worker claims two rows, fails one of them for good and completes the other one.\<close>

definition demo_readable :: Pg where
  "demo_readable = \<lparr>pg_rows = [demo_row 1 1, demo_row 3 3], pg_next_sequence = 4\<rparr>"

definition demo_claimed :: Pg where
  "demo_claimed = fst (pg_acquire demo_pg_lib postgres_settings_default demo_db demo_request demo_readable)"

definition demo_failure :: FailedMessage where
  "demo_failure = \<lparr>fm_message = \<lparr>mr_id = 3, mr_created_at = 10\<rparr>, fm_error = ''no route'', fm_outcome = Dead PermanentError\<rparr>"


end
