(* ===== verification/Postgres_Staging.thy ===== *)
theory Postgres_Staging
  imports Postgres_Claims
begin

text \<open>
  The other half of \<^verbatim>\<open>reliar-store-postgres/src/store.rs\<close>: construction of the store, and staging a message in the
  caller's transaction. The transaction is the table as its statements see it, its search path and
  whether a statement of it has failed. The catalogue queries of the construction, which of the
  statements of a call fails, the time of the transaction and the table an unqualified name
  resolves to under a search path are arguments.
\<close>

section \<open>Construction\<close>

record SchemaCheck =
  chk_resolved_schema :: "string option"
  chk_configured_exists :: bool
  chk_search_path :: string

record PgCatalog =
  cat_check :: "string \<Rightarrow> (SchemaCheck, SqlxError) result"
  cat_others :: "string \<Rightarrow> (string list, SqlxError) result"

record ('a, 'e) Serializer =
  ser_content_type :: ContentType
  ser_serialize :: "'a \<Rightarrow> (bytes, 'e) result"

record ('a, 'e) PostgresOutboxStore =
  po_settings :: PostgresOutboxSettings
  po_serializer :: "('a, 'e) Serializer"

definition verify_schema :: "PgCatalog \<Rightarrow> string \<Rightarrow> (SchemaCheck, PostgresStoreError) result" where
  "verify_schema cat schema =
     map_err (\<lambda>err. if is_undefined_table err then NotMigrated schema else PgDatabase err)
       (cat_check cat (schema @ ''.outbox''))"

definition other_outbox_schemas :: "PgCatalog \<Rightarrow> string \<Rightarrow> (string list, PostgresStoreError) result" where
  "other_outbox_schemas cat schema = map_err PgDatabase (cat_others cat schema)"

definition pg_connect ::
    "PgCatalog \<Rightarrow> PostgresOutboxSettings \<Rightarrow> ('a, 'e) Serializer \<Rightarrow> (('a, 'e) PostgresOutboxStore, PostgresStoreError) result" where
  "pg_connect cat st ser =
     (if \<not> is_valid_schema_name (ps_schema st) then Err (InvalidSchema (ps_schema st))
      else and_then (verify_schema cat (ps_schema st)) (\<lambda>check.
        if chk_resolved_schema check \<noteq> Some (ps_schema st)
        then (if \<not> chk_configured_exists check then Err (NotMigrated (ps_schema st))
              else Err (SchemaResolution (ps_schema st) (chk_search_path check)))
        else and_then (other_outbox_schemas cat (ps_schema st)) (\<lambda>_.
          Ok \<lparr>po_settings = st, po_serializer = ser\<rparr>)))"

definition pg_new ::
    "PgCatalog \<Rightarrow> ('a, 'e) Serializer \<Rightarrow> (('a, 'e) PostgresOutboxStore, PostgresStoreError) result" where
  "pg_new cat json = pg_connect cat postgres_settings_default json"

definition pg_with_settings ::
    "PgCatalog \<Rightarrow> PostgresOutboxSettings \<Rightarrow> ('a, 'e) Serializer \<Rightarrow> (('a, 'e) PostgresOutboxStore, PostgresStoreError) result" where
  "pg_with_settings cat st json = pg_connect cat st json"

definition pg_content_type :: "('a, 'e) PostgresOutboxStore \<Rightarrow> ContentType" where
  "pg_content_type self = ser_content_type (po_serializer self)"

section \<open>The caller's transaction\<close>

record PgTx =
  tx_pg :: Pg
  tx_search_path :: string
  tx_aborted :: bool

datatype TableName = OwnTable | OtherTable | NoTable

record TxEnv =
  te_error :: "nat \<Rightarrow> SqlxError option"
  te_now :: instant
  te_table :: "string \<Rightarrow> TableName"

text \<open>A statement that fails aborts the transaction, and no statement runs in an aborted one.\<close>

definition tx_statement ::
    "TxEnv \<Rightarrow> nat \<Rightarrow> (PgTx \<Rightarrow> (PgTx \<times> 'a, SqlxError) result) \<Rightarrow> PgTx \<Rightarrow> PgTx \<times> ('a, SqlxError) result" where
  "tx_statement env k stmt tx =
     (if tx_aborted tx then (tx, Err (SqlDatabase (Some ''25P02'') None))
      else case te_error env k of
             Some e \<Rightarrow> (tx\<lparr>tx_aborted := True\<rparr>, Err e)
           | None \<Rightarrow> (case stmt tx of Inl e \<Rightarrow> (tx\<lparr>tx_aborted := True\<rparr>, Err e) | Inr (tx', x) \<Rightarrow> (tx', Ok x)))"

text \<open>The caller's \<^verbatim>\<open>commit\<close>: the table the transaction began on, when a statement has failed.\<close>

definition pg_committed :: "Pg \<Rightarrow> PgTx \<Rightarrow> Pg" where
  "pg_committed s tx = (if tx_aborted tx then s else tx_pg tx)"

definition append_row :: "RawRow \<Rightarrow> Pg \<Rightarrow> Pg" where
  "append_row r s = s\<lparr>pg_rows := pg_rows s @ [r], pg_next_sequence := pg_next_sequence s + 1\<rparr>"

text \<open>\<^verbatim>\<open>INSERT INTO outbox ..\<close> without \<^verbatim>\<open>ON CONFLICT\<close>, into whichever table the name means.\<close>

definition insert_statement ::
    "PgLib \<Rightarrow> TxEnv \<Rightarrow> 'a Envelope \<Rightarrow> bytes \<Rightarrow> ContentType \<Rightarrow> string option \<Rightarrow> PgTx \<Rightarrow> (PgTx \<times> unit, SqlxError) result" where
  "insert_statement lib env e payload ct key tx =
     (case te_table env (tx_search_path tx) of
        NoTable \<Rightarrow> Err (SqlDatabase (Some ''42P01'') None)
      | OtherTable \<Rightarrow> Ok (tx, ())
      | OwnTable \<Rightarrow>
          (let s = tx_pg tx; row = staged_row lib e payload ct key (te_now env) (pg_next_sequence s)
           in case store_check row of
                Some err \<Rightarrow> Err err
              | None \<Rightarrow>
                  if list_ex (\<lambda>r. raw_id r = env_id e) (pg_rows s)
                  then Err (SqlDatabase (Some ''23505'') (Some ''pk_outbox''))
                  else Ok (tx\<lparr>tx_pg := append_row row s\<rparr>, ())))"

definition pg_insert_row ::
    "PgLib \<Rightarrow> TxEnv \<Rightarrow> 'a Envelope \<Rightarrow> bytes \<Rightarrow> ContentType \<Rightarrow> string option \<Rightarrow> PgTx \<Rightarrow> PgTx \<times> (unit, SqlxError) result" where
  "pg_insert_row lib env e payload ct key = tx_statement env 2 (insert_statement lib env e payload ct key)"

definition set_search_path :: "TxEnv \<Rightarrow> string \<Rightarrow> PgTx \<Rightarrow> PgTx \<times> (string, SqlxError) result" where
  "set_search_path env schema tx =
     (case tx_statement env 0 (\<lambda>tx. Ok (tx, tx_search_path tx)) tx of
        (tx1, Inl e) \<Rightarrow> (tx1, Err e)
      | (tx1, Inr previous) \<Rightarrow>
          (case tx_statement env 1 (\<lambda>tx. Ok (tx\<lparr>tx_search_path := schema @ '',public''\<rparr>, ())) tx1 of
             (tx2, Inl e) \<Rightarrow> (tx2, Err e)
           | (tx2, Inr _) \<Rightarrow> (tx2, Ok previous)))"

definition restore_search_path :: "TxEnv \<Rightarrow> string \<Rightarrow> PgTx \<Rightarrow> PgTx \<times> (unit, SqlxError) result" where
  "restore_search_path env previous = tx_statement env 3 (\<lambda>tx. Ok (tx\<lparr>tx_search_path := previous\<rparr>, ()))"

definition insert_staged ::
    "PgLib \<Rightarrow> PostgresOutboxSettings \<Rightarrow> TxEnv \<Rightarrow> 'a Envelope \<Rightarrow> bytes \<Rightarrow> ContentType \<Rightarrow> string option \<Rightarrow> PgTx
     \<Rightarrow> PgTx \<times> (unit, SqlxError) result" where
  "insert_staged lib st env e payload ct key tx =
     (let (tx1, restore) =
        (if ps_enqueue_sets_search_path st
         then map_prod id (\<lambda>r. and_then r (\<lambda>p. Ok (Some p))) (set_search_path env (ps_schema st) tx)
         else (tx, Ok None))
      in case restore of
           Inl err \<Rightarrow> (tx1, Err err)
         | Inr previous \<Rightarrow>
             (case pg_insert_row lib env e payload ct key tx1 of
                (tx2, Inl err) \<Rightarrow> (tx2, Err err)
              | (tx2, Inr _) \<Rightarrow>
                  (case previous of
                     None \<Rightarrow> (tx2, Ok ())
                   | Some p \<Rightarrow> restore_search_path env p tx2)))"

record EnqueueOptions =
  eo_ordering_key :: "string option"

definition enqueue_options_default :: EnqueueOptions where
  "enqueue_options_default = \<lparr>eo_ordering_key = None\<rparr>"

definition with_ordering_key :: "string \<Rightarrow> EnqueueOptions \<Rightarrow> EnqueueOptions" where
  "with_ordering_key key opts = opts\<lparr>eo_ordering_key := Some key\<rparr>"

definition pg_enqueue_with ::
    "PgLib \<Rightarrow> ('a, 'e) PostgresOutboxStore \<Rightarrow> TxEnv \<Rightarrow> 'a Envelope \<Rightarrow> EnqueueOptions \<Rightarrow> PgTx
     \<Rightarrow> PgTx \<times> (MessageId, 'e EnqueueError) result" where
  "pg_enqueue_with lib self env e opts tx =
     (case ser_serialize (po_serializer self) (body e) of
        Inl err \<Rightarrow> (tx, Err (EnqueueSerialize err))
      | Inr payload \<Rightarrow>
          map_prod id (\<lambda>r. and_then (map_err (map_enqueue_error (env_id e)) r) (\<lambda>_. Ok (env_id e)))
            (insert_staged lib (po_settings self) env e payload (pg_content_type self) (eo_ordering_key opts) tx))"

definition pg_enqueue ::
    "PgLib \<Rightarrow> ('a, 'e) PostgresOutboxStore \<Rightarrow> TxEnv \<Rightarrow> 'a Envelope \<Rightarrow> PgTx \<Rightarrow> PgTx \<times> (MessageId, 'e EnqueueError) result" where
  "pg_enqueue lib self env e = pg_enqueue_with lib self env e enqueue_options_default"

text \<open>\<^verbatim>\<open>Infallible\<close> has no values; here no \<^verbatim>\<open>Serialize\<close> error is ever built.\<close>

type_synonym infallible = unit

definition pg_stage ::
    "PgLib \<Rightarrow> PostgresOutboxSettings \<Rightarrow> TxEnv \<Rightarrow> SerializedEnvelope \<Rightarrow> PgTx \<Rightarrow> PgTx \<times> (MessageId, infallible EnqueueError) result" where
  "pg_stage lib st env e tx =
     map_prod id (\<lambda>r. and_then (map_err (map_enqueue_error (env_id e)) r) (\<lambda>_. Ok (env_id e)))
       (insert_staged lib st env e (body e) (content_type (delivery (metadata e)))
         (eo_ordering_key enqueue_options_default) tx)"

section \<open>What a call does\<close>

lemma pg_connect_Ok_iff:
  "pg_connect cat st ser = Ok store \<longleftrightarrow>
     is_valid_schema_name (ps_schema st)
     \<and> (\<exists>check. cat_check cat (ps_schema st @ ''.outbox'') = Ok check \<and> chk_resolved_schema check = Some (ps_schema st))
     \<and> is_ok (cat_others cat (ps_schema st)) \<and> store = \<lparr>po_settings = st, po_serializer = ser\<rparr>"
  by (auto simp: pg_connect_def verify_schema_def other_outbox_schemas_def and_then_eq_Ok_iff is_ok_iff)

text \<open>The path under which the row is inserted.\<close>

definition insert_path :: "PostgresOutboxSettings \<Rightarrow> PgTx \<Rightarrow> string" where
  "insert_path st tx = (if ps_enqueue_sets_search_path st then ps_schema st @ '',public'' else tx_search_path tx)"

lemma tx_statement_Err: "tx_statement env k stmt tx = (tx', Err e) \<Longrightarrow> tx_aborted tx'"
  by (auto simp: tx_statement_def split: if_splits option.splits sum.splits prod.splits)

lemma tx_statement_Ok:
  "tx_statement env k stmt tx = (tx', Ok x) \<longleftrightarrow> \<not> tx_aborted tx \<and> te_error env k = None \<and> stmt tx = Ok (tx', x)"
  by (auto simp: tx_statement_def split: if_splits option.splits sum.splits prod.splits)

lemma insert_statement_Ok:
  assumes "insert_statement lib env e payload ct key tx = Ok (tx', u)" "te_table env (tx_search_path tx) = OwnTable"
  shows "tx' = tx\<lparr>tx_pg := append_row (staged_row lib e payload ct key (te_now env) (pg_next_sequence (tx_pg tx))) (tx_pg tx)\<rparr>"
    "env_id e \<notin> raw_id ` set (pg_rows (tx_pg tx))"
  using assms by (auto simp: insert_statement_def Let_def list_ex_iff split: option.splits if_splits)

lemma insert_statement_path:
  "insert_statement lib env e payload ct key tx = Ok (tx', u) \<Longrightarrow> tx_search_path tx' = tx_search_path tx"
  by (auto simp: insert_statement_def Let_def split: TableName.splits option.splits if_splits)

lemma insert_staged_Err: "insert_staged lib st env e payload ct key tx = (tx', Err err) \<Longrightarrow> tx_aborted tx'"
  by (auto simp: insert_staged_def set_search_path_def restore_search_path_def pg_insert_row_def and_then_def
      dest: tx_statement_Err split: prod.splits sum.splits if_splits option.splits)

lemma insert_staged_Ok:
  assumes "insert_staged lib st env e payload ct key tx = (tx', Ok u)" "te_table env (insert_path st tx) = OwnTable"
  shows "\<not> tx_aborted tx"
    "tx' = tx\<lparr>tx_pg := append_row (staged_row lib e payload ct key (te_now env) (pg_next_sequence (tx_pg tx))) (tx_pg tx)\<rparr>"
    "env_id e \<notin> raw_id ` set (pg_rows (tx_pg tx))"
proof -
  show "\<not> tx_aborted tx"
    using assms(1)
    by (auto simp: insert_staged_def set_search_path_def pg_insert_row_def tx_statement_Ok and_then_def
        split: prod.splits sum.splits if_splits)
  let ?tx1 = "tx\<lparr>tx_search_path := insert_path st tx\<rparr>"
  have "\<exists>tx2. insert_statement lib env e payload ct key ?tx1 = Ok (tx2, ()) \<and> tx' = tx2\<lparr>tx_search_path := tx_search_path tx\<rparr>"
    using assms(1)
    by (auto simp: insert_staged_def set_search_path_def restore_search_path_def pg_insert_row_def tx_statement_Ok
        and_then_def insert_path_def dest: insert_statement_path split: prod.splits sum.splits if_splits option.splits)
  then obtain tx2 where tx2: "insert_statement lib env e payload ct key ?tx1 = Ok (tx2, ())"
    "tx' = tx2\<lparr>tx_search_path := tx_search_path tx\<rparr>" by blast
  from insert_statement_Ok [OF tx2(1)] assms(2) tx2(2)
  show "tx' = tx\<lparr>tx_pg := append_row (staged_row lib e payload ct key (te_now env) (pg_next_sequence (tx_pg tx))) (tx_pg tx)\<rparr>"
    "env_id e \<notin> raw_id ` set (pg_rows (tx_pg tx))" by simp_all
qed

text \<open>Without a fault a call in a live transaction fails exactly on a reused id.\<close>

lemma staged_row_check: "store_check (staged_row lib e payload ct key t seq) = None"
  by (simp add: store_check_def violated_check_def staged_row_def Let_def i32_max_def)

lemma staged_row_fields [simp]:
  "raw_id (staged_row lib e payload ct key t seq) = env_id e"
  "raw_sequence (staged_row lib e payload ct key t seq) = seq"
  "raw_locked_by (staged_row lib e payload ct key t seq) = None"
  by (simp_all add: staged_row_def Let_def)

lemma insert_staged_runs:
  assumes "\<not> tx_aborted tx" "\<And>k. te_error env k = None" "te_table env (insert_path st tx) = OwnTable"
  shows "snd (insert_staged lib st env e payload ct key tx) =
    (if env_id e \<in> raw_id ` set (pg_rows (tx_pg tx)) then Err (SqlDatabase (Some ''23505'') (Some ''pk_outbox'')) else Ok ())"
proof -
  have "list_ex (\<lambda>r. raw_id r = env_id e) rs \<longleftrightarrow> env_id e \<in> raw_id ` set rs" for rs
    by (induction rs) auto
  then show ?thesis
    using assms
    by (auto simp: insert_staged_def set_search_path_def restore_search_path_def pg_insert_row_def tx_statement_def
        insert_statement_def staged_row_check insert_path_def Let_def split: option.splits if_splits)
qed

lemma append_row_inv:
  assumes "pg_inv s" "env_id e \<notin> raw_id ` set (pg_rows s)"
  shows "pg_inv (append_row (staged_row lib e payload ct key t (pg_next_sequence s)) s)"
proof -
  have "raw_sequence r \<noteq> pg_next_sequence s" if "r \<in> set (pg_rows s)" for r
    using assms(1) that by (auto simp: pg_inv_def)
  with assms show ?thesis
    by (auto simp: pg_inv_def append_row_def raw_ok_def staged_row_check)
qed

text \<open>The record a staged message becomes.\<close>

definition staged_as :: "PgLib \<Rightarrow> 'a Envelope \<Rightarrow> bytes \<Rightarrow> ContentType \<Rightarrow> string option \<Rightarrow> instant \<Rightarrow> int \<Rightarrow> OutboxRecord \<Rightarrow> bool" where
  "staged_as lib e payload ct key t seq x \<longleftrightarrow>
     (\<exists>e'. envelope_eq e' (stored_form lib ct payload e) \<and> x = (record_builder e' seq t)\<lparr>ordering_key := key\<rparr>)"

definition stageable :: "PgLib \<Rightarrow> 'a Envelope \<Rightarrow> bool" where
  "stageable lib e \<longleftrightarrow> envelope_valid e \<and> pred_option (pl_time_ok lib) (sent_at (delivery (metadata e)))"

lemma insert_staged_record:
  assumes "pg_lib_ok lib" "stageable lib e" "valid_content_type ct" "pg_inv (tx_pg tx)"
    "te_table env (insert_path st tx) = OwnTable" "insert_staged lib st env e payload ct key tx = (tx', Ok u)"
  shows "\<exists>x. staged_as lib e payload ct key (te_now env) (pg_next_sequence (tx_pg tx)) x
      \<and> pg_records lib (tx_pg tx') = pg_records lib (tx_pg tx) @ [x]"
    "pg_inv (tx_pg tx')"
proof -
  note ok = insert_staged_Ok [OF assms(6,5)]
  show "pg_inv (tx_pg tx')" using append_row_inv [OF assms(4) ok(3)] by (simp add: ok(2))
  obtain e' where e': "envelope_eq e' (stored_form lib ct payload e)"
    "decode_row lib (staged_row lib e payload ct key (te_now env) (pg_next_sequence (tx_pg tx)))
      = Ok ((record_builder e' (pg_next_sequence (tx_pg tx)) (te_now env))\<lparr>ordering_key := key\<rparr>)"
    using decode_staged_row [OF assms(1) _ assms(3)] assms(2) unfolding stageable_def by blast
  then show "\<exists>x. staged_as lib e payload ct key (te_now env) (pg_next_sequence (tx_pg tx)) x
      \<and> pg_records lib (tx_pg tx') = pg_records lib (tx_pg tx) @ [x]"
    unfolding staged_as_def
    by (intro exI conjI) (assumption | rule refl | simp add: ok(2) pg_records_def append_row_def decoded_def List.map_filter_def)+
qed

text \<open>C12. Staging a message in the caller's transaction, on every branch. When \<^verbatim>\<open>enqueue_with\<close> returns, it returns the
  message's id, that id was new, and the transaction holds exactly one more row: a pending record
  that decodes to the envelope with the serializer's bytes and content type and the given ordering
  key; the search path is what it was, the transaction can go on and its table is well formed. A
  serializer's refusal leaves the transaction as it was; every other error leaves it aborted, so that a
  commit keeps nothing of it. When no statement is made to fail the call fails exactly on a reused
  id, with the error \<^verbatim>\<open>Duplicate\<close>.\<close>

theorem pg_enqueue_correct:
  assumes "pg_lib_ok lib" "stageable lib e" "valid_content_type (pg_content_type self)" "pg_inv (tx_pg tx)"
    "te_table env (insert_path (po_settings self) tx) = OwnTable" "\<not> tx_aborted tx"
    "pg_enqueue_with lib self env e opts tx = (tx', r)"
  shows "(\<forall>i. r = Ok i \<longrightarrow> i = env_id e \<and> env_id e \<notin> raw_id ` set (pg_rows (tx_pg tx))
        \<and> tx_search_path tx' = tx_search_path tx \<and> \<not> tx_aborted tx' \<and> pg_inv (tx_pg tx')
        \<and> (\<exists>payload x. ser_serialize (po_serializer self) (body e) = Ok payload
            \<and> staged_as lib e payload (pg_content_type self) (eo_ordering_key opts) (te_now env) (pg_next_sequence (tx_pg tx)) x
            \<and> pg_records lib (tx_pg tx') = pg_records lib (tx_pg tx) @ [x]))
    \<and> (\<forall>err. r = Err err \<longrightarrow>
        (case ser_serialize (po_serializer self) (body e) of
           Inl x \<Rightarrow> tx' = tx \<and> err = EnqueueSerialize x
         | Inr _ \<Rightarrow> tx_aborted tx' \<and> pg_committed s tx' = s))
    \<and> ((\<forall>k. te_error env k = None) \<longrightarrow> is_ok (ser_serialize (po_serializer self) (body e)) \<longrightarrow>
        r = (if env_id e \<in> raw_id ` set (pg_rows (tx_pg tx)) then Err (EnqueueDuplicate (env_id e)) else Ok (env_id e)))"
proof (cases "ser_serialize (po_serializer self) (body e)")
  case (Inl err)
  with assms(7) show ?thesis by (auto simp: pg_enqueue_with_def is_ok_iff)
next
  case (Inr payload)
  let ?ct = "pg_content_type self" and ?key = "eo_ordering_key opts"
  obtain q where q: "insert_staged lib (po_settings self) env e payload ?ct ?key tx = (tx', q)"
    "r = and_then (map_err (map_enqueue_error (env_id e)) q) (\<lambda>_. Ok (env_id e))"
    using assms(7) Inr
    by (cases "insert_staged lib (po_settings self) env e payload ?ct ?key tx") (auto simp: pg_enqueue_with_def)
  have runs: "(\<forall>k. te_error env k = None) \<longrightarrow>
      q = (if env_id e \<in> raw_id ` set (pg_rows (tx_pg tx)) then Err (SqlDatabase (Some ''23505'') (Some ''pk_outbox'')) else Ok ())"
    using insert_staged_runs [OF assms(6) _ assms(5), of lib e payload ?ct ?key] q(1) by simp
  show ?thesis
  proof (cases q)
    case (Inl err)
    then have "tx_aborted tx'" using insert_staged_Err q(1) by blast
    with Inl Inr q(2) runs show ?thesis
      by (auto simp: is_ok_iff pg_committed_def map_enqueue_error_def is_constraint_violation_def simp del: not_None_eq split: if_splits)
  next
    case ok: (Inr u)
    note st = insert_staged_Ok [OF q(1) [unfolded ok] assms(5)]
    note rec = insert_staged_record [OF assms(1-5) q(1) [unfolded ok]]
    from Inr q(2) ok st rec runs assms(6) show ?thesis
      by (auto simp: is_ok_iff map_enqueue_error_def is_constraint_violation_def)
  qed
qed

definition demo_tx :: PgTx where
  "demo_tx = \<lparr>tx_pg = demo_readable, tx_search_path = ''app'', tx_aborted = False\<rparr>"

definition demo_tx_env :: TxEnv where
  "demo_tx_env = \<lparr>te_error = (\<lambda>_. None), te_now = 20, te_table = (\<lambda>p. if p = ''reliar,public'' then OwnTable else NoTable)\<rparr>"

definition demo_pg_store :: "(string, unit) PostgresOutboxStore" where
  "demo_pg_store = \<lparr>po_settings = pg_enqueue_sets_search_path True postgres_settings_default,
     po_serializer = \<lparr>ser_content_type = ContentType ''application/json'', ser_serialize = (\<lambda>b. Ok (''{'' @ b @ ''}''))\<rparr>\<rparr>"

lemma demo_stageable: "stageable demo_pg_lib demo_pg_envelope"
  using demo_pg_envelope_valid(1) by (simp add: stageable_def demo_pg_lib_def demo_pg_envelope_def)

theorem pg_enqueue_correct_witness:
  "\<exists>tx'. pg_enqueue_with demo_pg_lib demo_pg_store demo_tx_env demo_pg_envelope (with_ordering_key ''k'' enqueue_options_default) demo_tx
      = (tx', Ok 7)
    \<and> tx_search_path tx' = ''app''
    \<and> (\<exists>x. staged_as demo_pg_lib demo_pg_envelope ''{order}'' (ContentType ''application/json'') (Some ''k'') 20 4 x
        \<and> pg_records demo_pg_lib (tx_pg tx') = pg_records demo_pg_lib demo_readable @ [x])"
proof -
  let ?r = "pg_enqueue_with demo_pg_lib demo_pg_store demo_tx_env demo_pg_envelope (with_ordering_key ''k'' enqueue_options_default) demo_tx"
  have r: "?r = (fst ?r, Ok 7)" by code_simp
  have c: "pg_inv (tx_pg demo_tx)" by code_simp
  have t: "te_table demo_tx_env (insert_path (po_settings demo_pg_store) demo_tx) = OwnTable" "\<not> tx_aborted demo_tx" by code_simp+
  have "valid_content_type (pg_content_type demo_pg_store)"
    using demo_pg_envelope_valid(2) by (simp add: pg_content_type_def demo_pg_store_def)
  note p = pg_enqueue_correct [OF demo_pg_lib_ok demo_stageable this c t r]
  have "ser_serialize (po_serializer demo_pg_store) (body demo_pg_envelope) = Ok ''{order}''"
    by (simp add: demo_pg_store_def demo_pg_envelope_def)
  with p r show ?thesis
    by (intro exI [of _ "fst ?r"])
       (auto simp: pg_content_type_def demo_pg_store_def with_ordering_key_def demo_tx_def demo_tx_env_def demo_readable_def)
qed

end
