(* ===== verification/Postgres_Dispatch.thy ===== *)
theory Postgres_Dispatch
  imports Postgres_Staging Dispatcher_Claims
begin

text \<open>
  The dispatcher over the PostgreSQL store. The state is the table with the database's behaviour in the calls
  to come, one \<open>Db\<close> per call; other parties stage, claim, fail, release, renew, purge and requeue. The
  store meets \<open>outbox_provider\<close>, rows identified by message id, whatever step of a call fails, so the
  guarantees proved in \<open>dispatched\<close> hold of it.
\<close>

section \<open>Calls that publish nothing\<close>

lemma delete_safe:
  assumes "keeps pg_inv stmt" "\<And>t s s' x. stmt t s = Ok (s', x) \<Longrightarrow> \<exists>p. sql_delete p s = Ok (s', x)"
  shows "keeps (pg_safe A) stmt"
  by (rule keeps_safe [OF assms(1)]) (meson assms(2) sql_delete_published le_supI1)

lemma keeps_pg_safe_admin:
  "keeps (pg_safe A) (purge_published_rows db ms n)"
  "keeps (pg_safe A) (purge_dead_retention_rows db ms n)"
  "keeps (pg_safe A) (pg_purge_dead_rows ids)"
  "keeps (pg_safe A) (purge_expired_sweep_rows db n x)"
  "keeps (pg_safe A) (pg_retry_dead_rows ids)"
proof -
  show "keeps (pg_safe A) (purge_published_rows db ms n)" "keeps (pg_safe A) (purge_dead_retention_rows db ms n)"
    "keeps (pg_safe A) (pg_purge_dead_rows ids)"
    by (rule delete_safe, rule keeps_pg_inv,
        auto simp: purge_published_rows_def purge_dead_retention_rows_def pg_purge_dead_rows_def and_then_eq_Ok_iff)+
  show "keeps (pg_safe A) (purge_expired_sweep_rows db n x)"
    by (rule keeps_safe [OF keeps_pg_inv(10)], unfold purge_expired_sweep_rows_def, erule sql_update_published) simp
  show "keeps (pg_safe A) (pg_retry_dead_rows ids)"
    by (rule keeps_safe [OF keeps_pg_inv(11)], unfold pg_retry_dead_rows_def, erule sql_update_published) simp
qed

text \<open>Between the transactions of one call, other clients keep the table well formed and publish nothing.\<close>

definition others_ok :: "Db \<Rightarrow> bool" where
  "others_ok db \<longleftrightarrow> (\<forall>A. others_keep (pg_safe A) db)"

lemma pg_calls_safe:
  assumes "others_ok db" "pg_safe A s"
  shows "pg_safe A (fst (pg_acquire lib st db rq s))" "pg_safe A (fst (pg_fail st db w fs s))"
    "pg_safe A (fst (pg_release st db w ms s))" "pg_safe A (fst (pg_extend_lease st db w ms d s))"
    "pg_safe A (fst (pg_purge st db pq s))" "pg_safe A (fst (pg_retry_dead st db ms s))"
    "pg_safe A (fst (pg_purge_dead st db ms s))"
    "(\<lambda>i. mr_id (cm_message i)) ` set cs \<subseteq> A \<Longrightarrow> pg_safe A (fst (pg_complete st db w cs s))"
proof -
  have o: "others_keep (pg_safe A) db" using assms(1) by (simp add: others_ok_def)
  note one = pg_call_one [OF o assms(2)]
  show "pg_safe A (fst (pg_acquire lib st db rq s))"
    by (rule pg_acquire_keeps [OF o assms(2)]) (rule keeps_pg_safe)+
  show "pg_safe A (fst (pg_fail st db w fs s))"
    by (rule pg_fail_keeps [OF o assms(2)]) (rule keeps_pg_safe)+
  show "pg_safe A (fst (pg_purge st db pq s))"
    unfolding pg_purge_def
    by (rule pg_call_keeps [OF o assms(2)]) (rule purge_body_keeps, assumption, assumption, (rule keeps_pg_safe_admin)+)
  show "pg_safe A (fst (pg_release st db w ms s))" "pg_safe A (fst (pg_extend_lease st db w ms d s))"
    unfolding pg_release_def pg_extend_lease_def
    by (rule pg_call_empty [where P = "pg_safe A", OF assms(2)], rule one, rule keeps_pg_safe)+
  show "pg_safe A (fst (pg_retry_dead st db ms s))" "pg_safe A (fst (pg_purge_dead st db ms s))"
    unfolding pg_retry_dead_def pg_purge_dead_def
    by (rule pg_call_empty [where P = "pg_safe A", OF assms(2)], rule one, rule keeps_pg_safe_admin)+
  show "pg_safe A (fst (pg_complete st db w cs s))" if "(\<lambda>i. mr_id (cm_message i)) ` set cs \<subseteq> A"
    unfolding pg_complete_def
    by (rule pg_call_empty [where P = "pg_safe A", OF assms(2)], rule one, rule keeps_pg_safe) (use that in simp)
qed

lemma pg_acquire_bounded:
  assumes "pg_inv s" "scan_ok db" "pg_acquire lib st db rq s = (s', Ok b)"
  shows "length (ab_records b) \<le> unat (ar_batch_size rq)"
proof -
  let ?w = "worker_as_str (ar_worker rq)" and ?n = "unat (ar_batch_size rq)" and ?ms = "millis_i64 (ar_lease rq)"
  obtain s1 rows where call: "pg_call st db 0 (\<lambda>exec. exec 0 (claim_rows db ?n ?w ?ms)) s = (s1, Ok rows)"
    using assms(3) by (auto simp: pg_acquire_def Let_def split: prod.splits sum.splits)
  have "ab_records b = List.map_filter (decoded lib) rows"
    using assms(3) call by (auto simp: pg_acquire_def Let_def decode_all_eq split: prod.splits sum.splits if_splits)
  then have "length (ab_records b) \<le> length rows" using length_split_rows [of lib rows] by simp
  also have "length rows = length (claimed_rows db ?n (db_now db 0) (pg_rows s))"
    using arg_cong [OF claim_rows_Ok(2) [OF assms(1) pg_call_one_Ok [OF call] assms(2)], of size] by simp
  finally show ?thesis by (simp add: claimed_rows_def)
qed

section \<open>The store as the dispatcher calls it\<close>

type_synonym pg_state = "Pg \<times> (nat \<Rightarrow> Db)"

definition pg_op :: "(Db \<Rightarrow> Pg \<Rightarrow> Pg \<times> 'a) \<Rightarrow> pg_state \<Rightarrow> pg_state \<times> 'a" where
  "pg_op f = (\<lambda>(s, dbs). case f (dbs 0) s of (s', r) \<Rightarrow> ((s', \<lambda>k. dbs (Suc k)), r))"

definition pg_ops :: "PgLib \<Rightarrow> PostgresOutboxSettings \<Rightarrow> (pg_state, PostgresStoreError) store_ops" where
  "pg_ops lib st =
     \<lparr>so_acquire = (\<lambda>rq. pg_op (\<lambda>db. pg_acquire lib st db rq)),
      so_complete = (\<lambda>w cs. pg_op (\<lambda>db. pg_complete st db w cs)),
      so_fail = (\<lambda>w fs. pg_op (\<lambda>db. pg_fail st db w fs)),
      so_release = (\<lambda>w ms. pg_op (\<lambda>db. pg_release st db w ms)),
      so_extend_lease = (\<lambda>w ms d. pg_op (\<lambda>db. pg_extend_lease st db w ms d)),
      so_kind = postgres_error_kind\<rparr>"

definition pg_state_inv :: "pg_state \<Rightarrow> bool" where
  "pg_state_inv = (\<lambda>(s, dbs). pg_inv s \<and> (\<forall>k. others_ok (dbs k) \<and> scan_ok (dbs k)))"

lemma pg_op_state:
  assumes "pg_state_inv x" "\<And>db s A. others_ok db \<Longrightarrow> pg_safe A s \<Longrightarrow> B \<subseteq> A \<Longrightarrow> pg_safe A (fst (f db s))"
  shows "pg_state_inv (fst (pg_op f x))" "pg_published (fst (fst (pg_op f x))) \<subseteq> pg_published (fst x) \<union> B"
proof -
  obtain s dbs where x: "x = (s, dbs)" by (cases x)
  from assms(1) have i: "pg_inv s" "others_ok (dbs 0)" by (simp_all add: x pg_state_inv_def)
  have "pg_safe (pg_published s \<union> B) (fst (f (dbs 0) s))"
    using i by (intro assms(2)) (auto simp: pg_safe_def)
  with assms(1) show "pg_state_inv (fst (pg_op f x))" "pg_published (fst (fst (pg_op f x))) \<subseteq> pg_published (fst x) \<union> B"
    by (auto simp: x pg_op_def pg_state_inv_def pg_safe_def split: prod.splits)
qed

lemmas pg_op_quiet = pg_op_state [where B = "{}", simplified]

interpretation pg_provider: outbox_provider "\<lambda>x. pg_published (fst x)" pg_state_inv mr_id
  "so_acquire (pg_ops lib st)" "so_complete (pg_ops lib st)" "so_fail (pg_ops lib st)" "so_release (pg_ops lib st)"
  "so_extend_lease (pg_ops lib st)" for lib st
proof -
  have cs: "(\<lambda>i. mr_id (cm_message i)) ` set cs \<subseteq> A \<longleftrightarrow> mr_id ` cm_message ` set cs \<subseteq> A" for cs A by auto
  note safe = pg_calls_safe
  note ops = pg_ops_def
  show "outbox_provider (\<lambda>x. pg_published (fst x)) pg_state_inv mr_id (so_acquire (pg_ops lib st))
      (so_complete (pg_ops lib st)) (so_fail (pg_ops lib st)) (so_release (pg_ops lib st)) (so_extend_lease (pg_ops lib st))"
  proof
    fix s rq s' b assume s: "pg_state_inv s" "so_acquire (pg_ops lib st) rq s = (s', Ok b)"
    then show "length (ab_records b) \<le> unat (ar_batch_size rq)"
      by (auto simp: ops pg_op_def pg_state_inv_def intro: pg_acquire_bounded split: prod.splits)
  next
    fix s w cs assume s: "pg_state_inv s"
    note c = pg_op_state [OF s, of "mr_id ` cm_message ` set cs" "\<lambda>db. pg_complete st db w cs"]
    show "pg_state_inv (fst (so_complete (pg_ops lib st) w cs s))"
      "pg_published (fst (fst (so_complete (pg_ops lib st) w cs s))) \<subseteq> pg_published (fst s) \<union> mr_id ` cm_message ` set cs"
      unfolding ops store_ops.simps by (rule c, rule safe(8), assumption, assumption, simp add: cs)+
  qed (simp_all add: ops pg_op_quiet safe)
qed

section \<open>The other parties\<close>

inductive pg_env :: "PgLib \<Rightarrow> PostgresOutboxSettings \<Rightarrow> pg_state \<Rightarrow> pg_state \<Rightarrow> bool" for lib st where
  pe_stage: "env_id (e :: SerializedEnvelope) \<notin> raw_id ` set (pg_rows s) \<Longrightarrow>
    pg_env lib st (s, dbs) (append_row (staged_row lib e payload ct key t (pg_next_sequence s)) s, dbs)"
| pe_acquire: "others_ok db \<Longrightarrow> pg_env lib st (s, dbs) (fst (pg_acquire lib st db rq s), dbs)"
| pe_fail: "others_ok db \<Longrightarrow> pg_env lib st (s, dbs) (fst (pg_fail st db w fs s), dbs)"
| pe_release: "others_ok db \<Longrightarrow> pg_env lib st (s, dbs) (fst (pg_release st db w ms s), dbs)"
| pe_extend: "others_ok db \<Longrightarrow> pg_env lib st (s, dbs) (fst (pg_extend_lease st db w ms d s), dbs)"
| pe_purge: "others_ok db \<Longrightarrow> pg_env lib st (s, dbs) (fst (pg_purge st db pq s), dbs)"
| pe_retry_dead: "others_ok db \<Longrightarrow> pg_env lib st (s, dbs) (fst (pg_retry_dead st db ms s), dbs)"
| pe_purge_dead: "others_ok db \<Longrightarrow> pg_env lib st (s, dbs) (fst (pg_purge_dead st db ms s), dbs)"

lemma pg_env_safe:
  assumes "pg_env lib st x x'" "pg_state_inv x"
  shows "pg_safe (pg_published (fst x)) (fst x') \<and> snd x' = snd x"
proof -
  have own: "pg_safe (pg_published (fst x)) (fst x)"
    using assms(2) by (auto simp: pg_safe_def pg_state_inv_def)
  from assms(1) show ?thesis
  proof (cases rule: pg_env.cases)
    case (pe_stage e s dbs payload ct key t)
    then have "pg_inv (append_row (staged_row lib e payload ct key t (pg_next_sequence s)) s)"
      using own by (intro append_row_inv) (simp_all add: pg_safe_def)
    with pe_stage show ?thesis
      by (auto simp: pg_safe_def pg_published_def append_row_def staged_row_def Let_def)
  qed (use own in \<open>simp_all add: pg_calls_safe\<close>)
qed

lemma pg_env_keeps:
  assumes "pg_env lib st x x'" "pg_state_inv x"
  shows "pg_state_inv x' \<and> pg_published (fst x') \<subseteq> pg_published (fst x)"
  using pg_env_safe [OF assms] assms(2) by (auto simp: pg_safe_def pg_state_inv_def split_def)

definition pg_config ::
    "PgLib \<Rightarrow> PostgresOutboxSettings \<Rightarrow> DispatcherSettings \<Rightarrow> WorkerId \<Rightarrow> (u32 \<Rightarrow> FailureKind \<Rightarrow> FailureOutcome)
     \<Rightarrow> (pg_state, PostgresStoreError) Config" where
  "pg_config lib st ds w p = \<lparr>cf_ops = pg_ops lib st, cf_settings = ds, cf_worker = w, cf_policy = p\<rparr>"

interpretation pg_run: dispatched "\<lambda>x. pg_published (fst x)" pg_state_inv mr_id "pg_config lib st ds w p" "pg_env lib st"
  for lib st ds w p
  using pg_env_keeps [of lib st] pg_provider.outbox_provider_axioms [of lib st]
  by (simp add: dispatched_def dispatched_axioms_def pg_config_def)

section \<open>What is published\<close>

text \<open>C5. With this dispatcher the only one that completes rows, a row of the PostgreSQL table is marked published only
  if the publish of its message was acknowledged, whatever step of whatever call fails, in either
  transaction mode, whether a commit whose reply was lost took effect or not, and while other parties
  stage, claim, fail, release, renew, purge and requeue; and outstanding publishes and unwritten
  outcomes never exceed \<^verbatim>\<open>max_in_flight\<close>.\<close>

theorem pg_published_only_after_ack:
  assumes "run_reachable (pg_config lib st ds w p) (pg_env lib st) (tb, dbs) x" "pg_state_inv (tb, dbs)"
    "pg_published tb = {}"
  shows "pg_published (fst (sy_store x)) \<subseteq> mr_id ` set_mset (lg_acked (sy_log x))
    \<and> outstanding_count (sy_loop x) \<le> max_in_flight ds"
  using pg_run.run_system_inv [OF assms(1,2)] assms(3) by (simp add: pg_run.state_ok_def pg_config_def)

text \<open>An instance: the reply to the first claim's commit is lost although it took effect; the next claim
  gets the other row, which is published, acknowledged and completed.\<close>

definition lossy_db :: "nat \<Rightarrow> Db" where
  "lossy_db k = (if k = 0 then demo_db\<lparr>db_error := (\<lambda>_ s. if s = DbStatement 0 then Some (SqlOther ''broken pipe'') else None)\<rparr> else demo_db)"

definition pg_demo_config :: "(pg_state, PostgresStoreError) Config" where
  "pg_demo_config = pg_config demo_pg_lib postgres_settings_default demo_settings (WorkerId ''w'') (\<lambda>_ _. Retry (from_secs 1))"

definition pg_demo_run :: "(pg_state, PostgresStoreError) Sys" where
  "pg_demo_run = the (run_execs pg_demo_config
     [AClaim InTime, ATick 10000000000, AClaim InTime, APermit 0, APublish 0 PublishOk, AJoin [0], ARetry (InTime, 0) (InTime, 0)]
     (sys_init (demo_readable, lossy_db) 0))"

lemma pg_demo_acked: "lg_acked (sy_log pg_demo_run) = {#\<lparr>mr_id = 3, mr_created_at = 10\<rparr>#}"
  by code_simp

lemma pg_demo_locked: "map raw_locked_by (pg_rows (fst (sy_store pg_demo_run))) = [Some ''w'', None]"
  by code_simp

lemma pg_demo_done: "list_ex (\<lambda>r. raw_id r = 3 \<and> raw_published_at r \<noteq> None) (pg_rows (fst (sy_store pg_demo_run)))"
  by code_simp

theorem pg_published_only_after_ack_witness:
  "pg_published (fst (sy_store pg_demo_run)) = {3} \<and> mr_id ` set_mset (lg_acked (sy_log pg_demo_run)) = {3}
   \<and> map raw_locked_by (pg_rows (fst (sy_store pg_demo_run))) = [Some ''w'', None]"
proof -
  have ok: "run_execs pg_demo_config
     [AClaim InTime, ATick 10000000000, AClaim InTime, APermit 0, APublish 0 PublishOk, AJoin [0], ARetry (InTime, 0) (InTime, 0)]
     (sys_init (demo_readable, lossy_db) 0) \<noteq> None" by code_simp
  have r: "run_reachable pg_demo_config (pg_env demo_pg_lib postgres_settings_default) (demo_readable, lossy_db) pg_demo_run"
    unfolding pg_demo_run_def
    by (rule run_execs_reachable [OF rr_init option.collapse [OF ok, symmetric]])
  have "others_ok (lossy_db k) \<and> scan_ok (lossy_db k)" for k
    by (simp add: lossy_db_def others_ok_def others_keep_def scan_ok_def demo_db_def)
  moreover have "pg_inv demo_readable" by code_simp
  ultimately have i: "pg_state_inv (demo_readable, lossy_db)" by (simp add: pg_state_inv_def)
  have "list_all (\<lambda>r. raw_published_at r = None) (pg_rows demo_readable)" by code_simp
  then have e: "pg_published demo_readable = {}" by (auto simp: pg_published_def list_all_iff)
  from pg_published_only_after_ack [OF r [unfolded pg_demo_config_def] i e]
  have sub: "pg_published (fst (sy_store pg_demo_run)) \<subseteq> mr_id ` set_mset (lg_acked (sy_log pg_demo_run))" ..
  from pg_demo_done have "3 \<in> pg_published (fst (sy_store pg_demo_run))"
    by (force simp: pg_published_def list_ex_iff)
  with sub pg_demo_acked pg_demo_locked show ?thesis by auto
qed

end
