(* ===== verification/Postgres_Admin.thy ===== *)
theory Postgres_Admin
  imports Postgres_Claims Dead_Letters
begin

text \<open>
  The operator's side of the PostgreSQL store: purging, and listing the dead letters page by page (an interpretation of
  \<open>dead_letters\<close>, once for the records of a page and once for its poisoned rows).
\<close>

section \<open>Dead letters\<close>

definition pg_matching :: "DeadQuery \<Rightarrow> Pg \<Rightarrow> RawRow list" where
  "pg_matching q s = sort_key raw_sequence (filter (raw_dead_matches q) (pg_rows s))"

definition page_cap :: "DeadQuery \<Rightarrow> nat" where
  "page_cap q = unat (min (limit q) max_list_dead_limit)"

text \<open>A database that answers every statement.\<close>

definition quiet :: "Db \<Rightarrow> bool" where
  "quiet db \<longleftrightarrow> (\<forall>k s. db_error db k s = None)"

lemma pg_call_one_quiet:
  assumes "quiet db" "stmt (db_now db 0) s = Ok (s', x)"
  shows "pg_call st db 0 (\<lambda>exec. exec 0 stmt) s = (s', Ok x)"
  using assms by (simp add: pg_call_def pg_exec_pool_def pg_tx_def pg_exec_tx_def meanwhile_def quiet_def Let_def)

lemma pg_matching_sorted:
  assumes "pg_inv s"
  shows "sorted_wrt (\<lambda>a b. raw_sequence a < raw_sequence b) (pg_matching q s)"
proof -
  have "distinct (map raw_sequence (pg_matching q s))"
    using assms by (auto simp: pg_matching_def pg_inv_def distinct_map inj_on_def)
  moreover have "sorted (map raw_sequence (pg_matching q s))" by (simp add: pg_matching_def)
  ultimately have "sorted_wrt (<) (map raw_sequence (pg_matching q s))" by (simp add: strict_sorted_iff)
  then show ?thesis by (simp add: sorted_wrt_map)
qed

lemma pg_matching_after:
  assumes "r \<in> set (pg_matching q s)"
  shows "pg_matching (q\<lparr>after_sequence := Some (raw_sequence r)\<rparr>) s
    = filter (\<lambda>x. raw_sequence r < raw_sequence x) (pg_matching q s)"
proof -
  have after: "case after_sequence q of None \<Rightarrow> True | Some a \<Rightarrow> a < raw_sequence r"
    using assms by (simp add: pg_matching_def raw_dead_matches_def split: option.splits)
  have "filter (raw_dead_matches (q\<lparr>after_sequence := Some (raw_sequence r)\<rparr>)) (pg_rows s)
      = filter (\<lambda>x. raw_sequence r < raw_sequence x) (filter (raw_dead_matches q) (pg_rows s))"
    using after by (auto simp: raw_dead_matches_def intro!: filter_cong split: option.splits)
  then show ?thesis by (simp add: pg_matching_def filter_sort)
qed

lemma Max_last:
  fixes k :: "'a \<Rightarrow> int"
  assumes "sorted_wrt (\<lambda>a b. k a < k b) xs" "xs \<noteq> []"
  shows "Max (k ` set xs) = k (last xs)"
proof (rule Max_eqI)
  have "xs = butlast xs @ [last xs]" using assms(2) by simp
  then have "sorted_wrt (\<lambda>a b. k a < k b) (butlast xs @ [last xs])" "set xs = insert (last xs) (set (butlast xs))"
    using assms(1) by (simp_all, metis Un_insert_right list.set(1,2) set_append sup_bot_right)
  then show "y \<le> k (last xs)" if "y \<in> k ` set xs" for y
    using that by (auto simp: sorted_wrt_append)
qed (use assms(2) in auto)

definition pg_page :: "PgLib \<Rightarrow> PostgresOutboxSettings \<Rightarrow> Db \<Rightarrow> DeadQuery \<Rightarrow> Pg \<Rightarrow> DeadLetterPage" where
  "pg_page lib st db q s =
     (case pg_list_dead lib st db q s of
        (_, Inr page) \<Rightarrow> page
      | (_, Inl _) \<Rightarrow> \<lparr>dl_records = [], dl_poisoned = [], next_after_sequence = None\<rparr>)"

lemma pg_page_eq:
  assumes "pg_inv s" "quiet db" "0 < page_cap q"
  defines "rows \<equiv> take (page_cap q) (pg_matching q s)"
  shows "pg_list_dead lib st db q s = (s, Ok (pg_page lib st db q s))"
    "dl_records (pg_page lib st db q s) = List.map_filter (decoded lib) rows"
    "dl_poisoned (pg_page lib st db q s) = map poisoned_row (List.map_filter (row_error lib) rows)"
    "next_after_sequence (pg_page lib st db q s) = (if length rows = page_cap q then Some (raw_sequence (last rows)) else None)"
proof -
  have "list_dead_rows q (page_cap q) (db_now db 0) s = Ok (s, rows)"
    by (simp add: list_dead_rows_def rows_def pg_matching_def)
  then have c: "pg_call st db 0 (\<lambda>exec. exec 0 (list_dead_rows q (page_cap q))) s = (s, Ok rows)"
    by (rule pg_call_one_quiet [OF assms(2)])
  have "rows \<noteq> [] \<Longrightarrow> Max (raw_sequence ` set rows) = raw_sequence (last rows)"
    using pg_matching_sorted [OF assms(1), of q] by (intro Max_last) (simp_all add: rows_def sorted_wrt_take)
  moreover have "rows = [] \<Longrightarrow> length rows \<noteq> page_cap q" using assms(3) by auto
  ultimately show "pg_list_dead lib st db q s = (s, Ok (pg_page lib st db q s))"
    "dl_records (pg_page lib st db q s) = List.map_filter (decoded lib) rows"
    "dl_poisoned (pg_page lib st db q s) = map poisoned_row (List.map_filter (row_error lib) rows)"
    "next_after_sequence (pg_page lib st db q s) = (if length rows = page_cap q then Some (raw_sequence (last rows)) else None)"
    using c unfolding pg_page_def pg_list_dead_def page_cap_def [symmetric] Let_def
    by (auto simp: decode_all_eq)
qed

lemma map_filter_append: "List.map_filter f (xs @ ys) = List.map_filter f xs @ List.map_filter f ys"
  by (simp add: List.map_filter_def)

interpretation pg_dead_records: dead_letters pg_matching raw_sequence page_cap "List.map_filter (decoded lib)"
    "\<lambda>q s. (dl_records (pg_page lib st db q s), next_after_sequence (pg_page lib st db q s))"
    "\<lambda>s. pg_inv s \<and> quiet db" for lib st db
  by unfold_locales
     (auto simp: map_filter_append pg_matching_sorted pg_matching_after pg_page_eq page_cap_def Let_def)

interpretation pg_dead_poisoned: dead_letters pg_matching raw_sequence page_cap "\<lambda>rs. map poisoned_row (List.map_filter (row_error lib) rs)"
    "\<lambda>q s. (dl_poisoned (pg_page lib st db q s), next_after_sequence (pg_page lib st db q s))"
    "\<lambda>s. pg_inv s \<and> quiet db" for lib st db
  by unfold_locales
     (auto simp: map_filter_append pg_matching_sorted pg_matching_after pg_page_eq page_cap_def Let_def)


definition demo_dead :: "RawRow \<Rightarrow> RawRow" where
  "demo_dead r = r\<lparr>raw_dead_at := Some 500, raw_dead_reason := Some (encode_dead_reason Undecodable)\<rparr>"

definition demo_graveyard :: Pg where
  "demo_graveyard =
     \<lparr>pg_rows = [demo_dead (demo_row 3 3), demo_row 4 4, demo_dead ((demo_row 2 2)\<lparr>raw_metadata_version := 9\<rparr>), demo_dead (demo_row 1 1)],
      pg_next_sequence = 5\<rparr>"

definition one_per_page :: DeadQuery where
  "one_per_page = \<lparr>dq_message_type = None, dq_tenant_id = None, dead_before = None, limit = 1, after_sequence = None\<rparr>"

lemma demo_graveyard_inv: "pg_inv demo_graveyard"
  by code_simp

lemma demo_graveyard_dead:
  "sort_key raw_sequence (filter (raw_dead_matches one_per_page) (pg_rows demo_graveyard))
    = [demo_dead (demo_row 1 1), demo_dead ((demo_row 2 2)\<lparr>raw_metadata_version := 9\<rparr>), demo_dead (demo_row 3 3)]"
  by code_simp


section \<open>Purging\<close>

text \<open>At most \<open>n\<close> of the rows with \<open>p\<close>: all of them when there are no more.\<close>

definition chosen :: "nat \<Rightarrow> (RawRow \<Rightarrow> bool) \<Rightarrow> Pg \<Rightarrow> RawRow set \<Rightarrow> bool" where
  "chosen n p s C \<longleftrightarrow> C \<subseteq> set (filter p (pg_rows s)) \<and> card C = min n (length (filter p (pg_rows s)))"

definition rows_out :: "RawRow set \<Rightarrow> Pg \<Rightarrow> Pg" where
  "rows_out C s = s\<lparr>pg_rows := filter (\<lambda>r. r \<notin> C) (pg_rows s)\<rparr>"

definition past_retention :: "duration option \<Rightarrow> instant \<Rightarrow> instant option \<Rightarrow> bool" where
  "past_retention keep t a = (case keep of None \<Rightarrow> False | Some d \<Rightarrow> older a (t - millis_i64 d * 1000000))"

definition expired_row :: "instant \<Rightarrow> RawRow \<Rightarrow> RawRow" where
  "expired_row t r = r\<lparr>raw_dead_at := Some t, raw_dead_reason := Some (encode_dead_reason Expired),
     raw_last_error := Some ''reliar: expired before publication'', raw_locked_by := None, raw_locked_until := None\<rparr>"

lemma pg_inv_rows: "pg_inv s \<Longrightarrow> distinct (pg_rows s) \<and> inj_on raw_id (set (pg_rows s))"
  by (simp add: pg_inv_def distinct_map)

lemma some_ids_chosen:
  assumes "pg_inv s" "scan_ok db"
  obtains C where "chosen n p s C" "\<And>r. r \<in> set (pg_rows s) \<Longrightarrow> raw_id r \<in> set (some_ids db n p s) \<longleftrightarrow> r \<in> C"
    "length (filter (\<lambda>r. r \<in> C) (pg_rows s)) = card C"
proof
  let ?xs = "take n (filter p (db_scan db (pg_rows s)))"
  have m: "mset (db_scan db (pg_rows s)) = mset (pg_rows s)" using assms(2) by (simp add: scan_ok_def)
  then have d: "distinct (db_scan db (pg_rows s))" and e: "set (db_scan db (pg_rows s)) = set (pg_rows s)"
    using pg_inv_rows [OF assms(1)] by (metis mset_eq_imp_distinct_iff, metis mset_eq_setD)
  have "length (filter p (db_scan db (pg_rows s))) = length (filter p (pg_rows s))"
    using m by (metis mset_filter size_mset)
  moreover have "card (set ?xs) = length ?xs" using d by (intro distinct_card) simp
  moreover have sub: "set ?xs \<subseteq> set (filter p (pg_rows s))" using set_take_subset [of n "filter p (db_scan db (pg_rows s))"] e by auto
  ultimately show "chosen n p s (set ?xs)" by (simp add: chosen_def min.commute)
  show "raw_id r \<in> set (some_ids db n p s) \<longleftrightarrow> r \<in> set ?xs" if "r \<in> set (pg_rows s)" for r
    unfolding some_ids_def set_map using that sub inj_on_image_mem_iff [of raw_id "set (pg_rows s)" r "set ?xs"] pg_inv_rows [OF assms(1)]
    by auto
  show "length (filter (\<lambda>r. r \<in> set ?xs) (pg_rows s)) = card (set ?xs)"
    using pg_inv_rows [OF assms(1)] sub by (subst distinct_length_filter) (auto intro: arg_cong [where f = card])
qed

lemma chosen_rows_out:
  assumes "\<And>r. r \<in> C \<Longrightarrow> \<not> p r"
  shows "chosen n p (rows_out C s) = chosen n p s"
proof -
  have "filter p (pg_rows (rows_out C s)) = filter p (pg_rows s)"
    using assms by (auto simp: rows_out_def intro!: filter_cong)
  then show ?thesis by (simp add: chosen_def fun_eq_iff)
qed

lemma delete_some:
  assumes "pg_inv s" "scan_ok db" "sql_delete (\<lambda>r. raw_id r \<in> set (some_ids db n p s) \<and> p r) s = Ok (s', k)"
  obtains C where "chosen n p s C" "k = card C" "s' = rows_out C s"
proof -
  obtain C where C: "chosen n p s C" "\<And>r. r \<in> set (pg_rows s) \<Longrightarrow> raw_id r \<in> set (some_ids db n p s) \<longleftrightarrow> r \<in> C"
    "length (filter (\<lambda>r. r \<in> C) (pg_rows s)) = card C" using some_ids_chosen [OF assms(1,2)] by metis
  then have "(raw_id r \<in> set (some_ids db n p s) \<and> p r) = (r \<in> C)" if "r \<in> set (pg_rows s)" for r
    using that by (auto simp: chosen_def)
  then have "k = card C" "s' = rows_out C s"
    using assms(3) C(3) by (auto simp: sql_delete_def rows_out_def cong: filter_cong)
  with C(1) show ?thesis by (rule that)
qed

lemma sweep_some:
  assumes "pg_inv s" "scan_ok db" "purge_expired_sweep_rows db n (encode_dead_reason Expired) t s = Ok (s', k)"
  obtains C where "chosen n (raw_sweepable t) s C" "k = card C"
    "s' = s\<lparr>pg_rows := map (\<lambda>r. if r \<in> C then expired_row t r else r) (pg_rows s)\<rparr>"
proof -
  obtain C where C: "chosen n (raw_sweepable t) s C"
    "\<And>r. r \<in> set (pg_rows s) \<Longrightarrow> raw_id r \<in> set (some_ids db n (raw_sweepable t) s) \<longleftrightarrow> r \<in> C"
    "length (filter (\<lambda>r. r \<in> C) (pg_rows s)) = card C" using some_ids_chosen [OF assms(1,2)] by metis
  then have "(raw_id r \<in> set (some_ids db n (raw_sweepable t) s)
      \<and> raw_published_at r = None \<and> raw_dead_at r = None \<and> raw_lease_free t r) = (r \<in> C)" if "r \<in> set (pg_rows s)" for r
    using that by (auto simp: chosen_def raw_sweepable_def)
  then have "k = card C" "s' = s\<lparr>pg_rows := map (\<lambda>r. if r \<in> C then expired_row t r else r) (pg_rows s)\<rparr>"
    using assms(3) C(3) by (auto simp: purge_expired_sweep_rows_def sql_update_Ok expired_row_def cong: filter_cong map_cong)
  with C(1) show ?thesis by (rule that)
qed

text \<open>The three statements of a successful \<^verbatim>\<open>purge\<close>, one after the other at one time.\<close>

lemma pg_purge_Ok:
  assumes "pg_purge st db rq s = (s', Ok rep)" "one_transaction st db"
  obtains s1 s2 where
    "case published_retention rq of None \<Rightarrow> s1 = s \<and> published_deleted rep = 0
     | Some d \<Rightarrow> purge_published_rows db (millis_i64 d) (unat (pq_batch_size rq)) (db_now db 0) s = Ok (s1, published_deleted rep)"
    "case dead_retention rq of None \<Rightarrow> s2 = s1 \<and> dead_deleted rep = 0
     | Some d \<Rightarrow> purge_dead_retention_rows db (millis_i64 d) (unat (pq_batch_size rq)) (db_now db 0) s1 = Ok (s2, dead_deleted rep)"
    "purge_expired_sweep_rows db (unat (pq_batch_size rq)) (encode_dead_reason Expired) (db_now db 0) s2 = Ok (s', expired_to_dead rep)"
proof -
  have "pg_call st db 0 (purge_body db rq) s = (s', Ok rep)" using assms(1) by (simp add: pg_purge_def)
  then obtain exec where e: "purge_body db rq exec s = (s', Ok rep)"
    "\<And>j stmt s s' n. exec j stmt s = (s', Ok n) \<Longrightarrow> stmt (db_now db 0) s = Ok (s', n)"
    by (rule pg_call_body_Ok [OF assms(2)]) blast
  show ?thesis
    using e(1) that unfolding purge_body_def Let_def
    by (auto split: prod.splits sum.splits option.splits dest!: e(2))
qed

lemma purge_published_some:
  assumes "pg_inv s" "scan_ok db"
    "case keep of None \<Rightarrow> s' = s \<and> k = 0 | Some d \<Rightarrow> purge_published_rows db (millis_i64 d) n t s = Ok (s', k)"
  obtains C where "chosen n (\<lambda>r. past_retention keep t (raw_published_at r)) s C" "k = card C" "s' = rows_out C s"
proof (cases keep)
  case None
  show ?thesis by (rule that [of "{}"]) (use None assms(3) in \<open>simp_all add: chosen_def past_retention_def rows_out_def\<close>)
next
  case (Some d)
  with assms(3) show ?thesis
    by (auto simp: purge_published_rows_def and_then_eq_Ok_iff sql_add_ms_def past_retention_def
      split: if_splits elim!: delete_some [OF assms(1,2)] intro: that)
qed

lemma purge_dead_some:
  assumes "pg_inv s" "scan_ok db"
    "case keep of None \<Rightarrow> s' = s \<and> k = 0 | Some d \<Rightarrow> purge_dead_retention_rows db (millis_i64 d) n t s = Ok (s', k)"
  obtains C where "chosen n (\<lambda>r. past_retention keep t (raw_dead_at r)) s C" "k = card C" "s' = rows_out C s"
proof (cases keep)
  case None
  show ?thesis by (rule that [of "{}"]) (use None assms(3) in \<open>simp_all add: chosen_def past_retention_def rows_out_def\<close>)
next
  case (Some d)
  with assms(3) show ?thesis
    by (auto simp: purge_dead_retention_rows_def and_then_eq_Ok_iff sql_add_ms_def past_retention_def
      split: if_splits elim!: delete_some [OF assms(1,2)] intro: that)
qed

lemma rows_out_inv: "pg_inv s \<Longrightarrow> pg_inv (rows_out C s)"
  by (auto simp: rows_out_def pg_inv_def distinct_map_filter)

lemma past_retention_Some: "past_retention keep t a \<Longrightarrow> a \<noteq> None"
  by (auto simp: past_retention_def older_def split: option.splits)


definition demo_old_table :: Pg where
  "demo_old_table =
     \<lparr>pg_rows = [(demo_row 1 1)\<lparr>raw_published_at := Some 500\<rparr>, demo_dead (demo_row 2 2), (demo_row 3 3)\<lparr>raw_expires_at := Some 20\<rparr>,
                 (demo_row 4 4)\<lparr>raw_published_at := Some 600\<rparr>, demo_row 5 5],
      pg_next_sequence = 6\<rparr>"

definition demo_purge :: PurgeRequest where
  "demo_purge = \<lparr>published_retention = Some 0, dead_retention = Some 0, pq_batch_size = 1\<rparr>"


end
