(* ===== verification/Delivery.thy ===== *)
theory Delivery
  imports Nats_Publisher Postgres_Claims
begin

text \<open>
  From the table to the consumer. The locale \<open>subject_resolver\<close> is the contract of \<^verbatim>\<open>SubjectResolver\<close> in
  \<^verbatim>\<open>reliar-transport-nats/src/subject.rs\<close>: a resolver returns only literal subjects. What a publisher delivers is proved
  for any such resolver and interpreted on both resolvers of the crate; with the row codec it gives the way of a
  message from its staging to the consumer that decodes it.
\<close>

section \<open>Publishers over a resolver\<close>

definition delivered ::
    "NatsLib \<Rightarrow> ('w, 'a) JetStream \<Rightarrow> Subject \<Rightarrow> SerializedEnvelope \<Rightarrow> bool" where
  "delivered lib js subject e \<longleftrightarrow>
     (\<exists>wire e'. subject_ok subject \<and> acked js subject wire \<and> decode lib wire = Ok e' \<and> envelope_eq e' (wire_normal lib e))"

locale subject_resolver =
  fixes resolve :: "SerializedEnvelope \<Rightarrow> (Subject, 'r) result"
  assumes legal: "resolve e = Ok s \<Longrightarrow> subject_ok s"
begin

lemma prepared:
  assumes "nats_build st resolve = Ok self" "prepare lib self e = Ok (subject, wire)"
  shows "resolve e = Ok subject" "subject_ok subject" "encode lib e = Ok wire"
proof -
  have "np_resolver self = resolve" using assms(1) by (auto simp: nats_build_def split: if_splits)
  with assms(2) show "resolve e = Ok subject" "encode lib e = Ok wire"
    by (auto simp: prepare_def and_then_eq_Ok_iff split: option.splits if_splits)
  then show "subject_ok subject" using legal by blast
qed

lemma acked_delivered:
  assumes "nats_build st resolve = Ok self" "nats_lib_ok lib" "envelope_valid e"
    "prepare lib self e = Ok (subject, wire)" "acked js subject wire"
  shows "resolve e = Ok subject \<and> delivered lib js subject e"
  using prepared [OF assms(1,4)] decode_encoded [OF assms(2,3)] assms(5) unfolding delivered_def by blast

lemma publish_delivers:
  assumes "nats_build st resolve = Ok self" "nats_lib_ok lib" "envelope_valid e"
    "nats_publish lib js self e t w = (Ok (), t', w')"
  shows "\<exists>subject. resolve e = Ok subject \<and> delivered lib js subject e"
proof -
  note v = nats_publish_verdict [OF assms(4)]
  then obtain subject wire where p: "prepare lib self e = Ok (subject, wire)"
    by (cases "prepare lib self e") auto
  with v have "acked js subject wire" by (simp add: verdict_sound_def)
  from acked_delivered [OF assms(1-3) p this] show ?thesis by blast
qed

lemma batch_delivers:
  assumes "nats_build st resolve = Ok self" "nats_lib_ok lib" "i < length es" "envelope_valid (es ! i)"
    "nats_publish_batch lib js self es t w = Some (rs, t', w')" "rs ! i = Ok ()"
  shows "\<exists>subject. resolve (es ! i) = Ok subject \<and> delivered lib js subject (es ! i)"
proof -
  have v: "case prepare lib self (es ! i) of Inl err \<Rightarrow> rs ! i = Err err
      | Inr (subject, wire) \<Rightarrow> verdict_sound js subject wire (rs ! i)"
    using publish_batch_verdicts [OF assms(1), of lib js es t w] assms(3,5) by auto
  then obtain subject wire where p: "prepare lib self (es ! i) = Ok (subject, wire)"
    using assms(6) by (cases "prepare lib self (es ! i)") auto
  with v assms(6) have "acked js subject wire" by (simp add: verdict_sound_def)
  from acked_delivered [OF assms(1,2,4) p this] show ?thesis by blast
qed

end

interpretation by_prefix: subject_resolver "prefix_subject p" for p
  by unfold_locales (auto simp: prefix_subject_def Let_def and_then_eq_Ok_iff validate_subject_iff)

interpretation by_destination: subject_resolver "destination_subject d" for d
  by unfold_locales
     (auto simp: destination_subject_def Let_def and_then_eq_Ok_iff validate_subject_iff by_prefix.legal split: option.splits)

section \<open>From staging to the consumer\<close>

text \<open>An envelope as it is stored, up to the order of its headers, and as the wire carries it.\<close>

definition arrives_as :: "PgLib \<Rightarrow> NatsLib \<Rightarrow> ContentType \<Rightarrow> bytes \<Rightarrow> 'b Envelope \<Rightarrow> SerializedEnvelope \<Rightarrow> bool" where
  "arrives_as plib nlib ct payload e e' \<longleftrightarrow>
     (\<exists>x. envelope_eq x (stored_form plib ct payload e) \<and> envelope_eq e' (wire_normal nlib x))"

lemma arrives_as_fields:
  assumes "arrives_as plib nlib ct payload e e'"
  shows "env_id e' = env_id e" "message_type e' = message_type e" "body e' = payload"
    "content_type (delivery (metadata e')) = ct" "correlation (metadata e') = correlation (metadata e)"
    "routing (metadata e') = routing (metadata e)" "tenant_id (metadata e') = tenant_id (metadata e)"
  using assms by (auto simp: arrives_as_def envelope_eq_def wire_normal_def stored_form_def Let_def)

text \<open>C7. The way of a message through the outbox: a valid envelope staged as a row of the PostgreSQL table, decoded by a
  claim and published to NATS with success is, on the subject its type has under the configured prefix, an
  acknowledged message that a consumer decodes to that envelope: its id, type, correlation, routing and
  tenant, the serializer's bytes and content type, up to what the column types and the wire format keep.\<close>

theorem staged_is_delivered:
  fixes js :: "('w, 'a) JetStream"
  assumes "pg_lib_ok plib" "nats_lib_ok nlib" "envelope_valid e" "valid_content_type ct"
    "pred_option (pl_time_ok plib) (sent_at (delivery (metadata e)))" "nats_new st = Ok self"
    "decode_row plib (staged_row plib e payload ct key t seq) = Ok r"
    "nats_publish nlib js self (envelope r) t0 w = (Ok (), t1, w1)"
  shows "\<exists>wire e'. acked js (ns_subject_prefix st @ ''.'' @ message_type_display (message_type e)) wire
    \<and> subject_ok (ns_subject_prefix st @ ''.'' @ message_type_display (message_type e))
    \<and> decode nlib wire = Ok e' \<and> arrives_as plib nlib ct payload e e'
    \<and> env_id e' = env_id e \<and> message_type e' = message_type e \<and> body e' = payload
    \<and> content_type (delivery (metadata e')) = ct \<and> correlation (metadata e') = correlation (metadata e)
    \<and> routing (metadata e') = routing (metadata e) \<and> tenant_id (metadata e') = tenant_id (metadata e)"
proof -
  from decode_staged_row [OF assms(1,3,4,5), of payload key t seq] assms(7) obtain x where
    x: "envelope_eq x (stored_form plib ct payload e)" "envelope_valid x" "envelope r = x"
    by (auto simp: record_builder_def)
  define p where "p = PrefixSubjects (ns_subject_prefix st)"
  have p: "subjects_prefix p = ns_subject_prefix st" "nats_build st (prefix_subject p) = Ok self"
    using assms(6) by (auto simp: p_def nats_new_def prefix_subjects_new_def and_then_eq_Ok_iff)
  from by_prefix.publish_delivers [OF p(2) assms(2) x(2) assms(8) [unfolded x(3)]] obtain subject where
    s: "prefix_subject p x = Ok subject" "delivered nlib js subject x" by blast
  have "message_type x = message_type e" using x(1) by (simp add: envelope_eq_def stored_form_def Let_def)
  with s(1) p(1) have subject: "subject = ns_subject_prefix st @ ''.'' @ message_type_display (message_type e)"
    by (auto simp: prefix_subject_def Let_def and_then_eq_Ok_iff)
  from s(2) obtain wire e' where w: "subject_ok subject" "acked js subject wire" "decode nlib wire = Ok e'"
    "envelope_eq e' (wire_normal nlib x)" unfolding delivered_def by blast
  with x(1) have a: "arrives_as plib nlib ct payload e e'" unfolding arrives_as_def by blast
  show ?thesis using w a arrives_as_fields [OF a] unfolding subject by blast
qed

definition delivery_settings :: NatsSettings where
  "delivery_settings = nats_settings_default\<lparr>ns_publish_timeout := 10000000\<rparr>"

lemma delivery_example:
  "is_ok (nats_new delivery_settings)"
  "is_ok (decode_row demo_pg_lib (staged_row demo_pg_lib demo_pg_envelope ''{}'' (ContentType ''application/json'') None 10 1))"
  "map_err (\<lambda>_. ()) (and_then (map_err (\<lambda>_. ()) (nats_new delivery_settings)) (\<lambda>self.
     and_then (map_err (\<lambda>_. ()) (decode_row demo_pg_lib (staged_row demo_pg_lib demo_pg_envelope ''{}'' (ContentType ''application/json'') None 10 1)))
       (\<lambda>r. map_err (\<lambda>_. ()) (fst (nats_publish demo_lib prompt_broker self (envelope r) 0 ()))))) = Ok ()"
  by code_simp+

theorem staged_is_delivered_witness:
  "\<exists>wire e'. acked prompt_broker ''reliar.orders.created.v2'' wire \<and> decode demo_lib wire = Ok e'
    \<and> env_id e' = 7 \<and> body e' = ''{}'' \<and> tenant_id (metadata e') = Some ''t1''"
proof -
  obtain self where self: "nats_new delivery_settings = Ok self" using delivery_example(1) by (auto simp: is_ok_iff)
  obtain r where r: "decode_row demo_pg_lib (staged_row demo_pg_lib demo_pg_envelope ''{}'' (ContentType ''application/json'') None 10 1) = Ok r"
    using delivery_example(2) by (auto simp: is_ok_iff)
  obtain v t1 w1 where pub: "nats_publish demo_lib prompt_broker self (envelope r) 0 () = (v, t1, w1)" by (metis prod_cases3)
  with delivery_example(3) have "v = Ok ()" by (cases v) (simp_all add: self r)
  have time: "pred_option (pl_time_ok demo_pg_lib) (sent_at (delivery (metadata demo_pg_envelope)))"
    by (simp add: demo_pg_lib_def demo_pg_envelope_def)
  have "ns_subject_prefix delivery_settings @ ''.'' @ message_type_display (message_type demo_pg_envelope) = ''reliar.orders.created.v2''"
    by code_simp
  with staged_is_delivered [OF demo_pg_lib_ok demo_lib_ok demo_pg_envelope_valid time self r pub [unfolded \<open>v = Ok ()\<close>]]
  show ?thesis by (auto simp: demo_pg_envelope_def)
qed

end
