(* ===== verification/Outbox_Publisher.thy ===== *)
theory Outbox_Publisher
  imports Postgres_Staging Nats_Publisher In_Memory_Props
begin

text \<open>
  \<^verbatim>\<open>reliar-outbox/src/publisher.rs\<close> and \<^verbatim>\<open>staging.rs\<close>: the application's publisher, which stages a message in the caller's
  transaction or sends it to the transport, as the routing policy decides. What staging promises
  is the locale \<open>outbox_staging\<close>, interpreted on the in-memory store and on the PostgreSQL store; the
  two routes of a batch are separated once and for all (\<open>scoped_batch_split\<close>).
\<close>

section \<open>The publisher\<close>

record ('tx, 'se, 'w, 'pe) OutboxPublisher =
  pub_stage :: "SerializedEnvelope \<Rightarrow> 'tx \<Rightarrow> 'tx \<times> (MessageId, 'se) result"
  pub_publish :: "SerializedEnvelope \<Rightarrow> instant \<Rightarrow> 'w \<Rightarrow> (unit, 'pe) result \<times> instant \<times> 'w"
  pub_policy :: OutboxPolicy

datatype ('se, 'pe) RouteError = RouteStage 'se | RoutePublish 'pe

fun route_error_kind :: "('se \<Rightarrow> FailureKind) \<Rightarrow> ('pe \<Rightarrow> FailureKind) \<Rightarrow> ('se, 'pe) RouteError \<Rightarrow> FailureKind" where
  "route_error_kind sk pk (RouteStage e) = sk e"
| "route_error_kind sk pk (RoutePublish e) = pk e"

datatype 'pe DirectPublishError = TransactionRequired MessageType | DirectPublish 'pe

text \<open>The borrowed transaction, the transport's world and the successes reported to the metrics sink.\<close>

record ('tx, 'w) Scope =
  sp_tx :: 'tx
  sp_world :: 'w
  sp_routed :: "(RouteKind \<times> MessageType) list"

definition outbox_publisher_new ::
    "(SerializedEnvelope \<Rightarrow> 'tx \<Rightarrow> 'tx \<times> (MessageId, 'se) result)
     \<Rightarrow> (SerializedEnvelope \<Rightarrow> instant \<Rightarrow> 'w \<Rightarrow> (unit, 'pe) result \<times> instant \<times> 'w) \<Rightarrow> OutboxPolicy
     \<Rightarrow> ('tx, 'se, 'w, 'pe) OutboxPublisher" where
  "outbox_publisher_new staging publisher policy =
     \<lparr>pub_stage = staging, pub_publish = publisher, pub_policy = policy\<rparr>"

definition in_transaction :: "'tx \<Rightarrow> 'w \<Rightarrow> ('tx, 'w) Scope" where
  "in_transaction tx w = \<lparr>sp_tx = tx, sp_world = w, sp_routed = []\<rparr>"

definition publish_direct ::
    "('tx, 'se, 'w, 'pe) OutboxPublisher \<Rightarrow> SerializedEnvelope \<Rightarrow> instant \<Rightarrow> 'w \<Rightarrow> (RouteKind \<times> MessageType) list
     \<Rightarrow> (unit, 'pe DirectPublishError) result \<times> instant \<times> 'w \<times> (RouteKind \<times> MessageType) list" where
  "publish_direct self e t w reported =
     (let route = decide (pub_policy self) (message_type e) in
      if route = Outbox then (Err (TransactionRequired (message_type e)), t, w, reported)
      else case pub_publish self e t w of
             (Inl err, t', w') \<Rightarrow> (Err (DirectPublish err), t', w', reported)
           | (Inr _, t', w') \<Rightarrow> (Ok (), t', w', reported @ [(route, message_type e)]))"

definition scoped_publish ::
    "('tx, 'se, 'w, 'pe) OutboxPublisher \<Rightarrow> SerializedEnvelope \<Rightarrow> instant \<Rightarrow> ('tx, 'w) Scope
     \<Rightarrow> (unit, ('se, 'pe) RouteError) result \<times> instant \<times> ('tx, 'w) Scope" where
  "scoped_publish self e t c =
     (let route = decide (pub_policy self) (message_type e);
          reported = sp_routed c @ [(route, message_type e)]
      in case route of
           Outbox \<Rightarrow>
             (case pub_stage self e (sp_tx c) of
                (tx, Inl err) \<Rightarrow> (Err (RouteStage err), t, c\<lparr>sp_tx := tx\<rparr>)
              | (tx, Inr _) \<Rightarrow> (Ok (), t, c\<lparr>sp_tx := tx, sp_routed := reported\<rparr>))
         | Direct \<Rightarrow>
             (case pub_publish self e t (sp_world c) of
                (Inl err, t', w) \<Rightarrow> (Err (RoutePublish err), t', c\<lparr>sp_world := w\<rparr>)
              | (Inr _, t', w) \<Rightarrow> (Ok (), t', c\<lparr>sp_world := w, sp_routed := reported\<rparr>)))"

text \<open>The inherited \<^verbatim>\<open>publish_batch\<close>.\<close>

definition scoped_publish_batch ::
    "('tx, 'se, 'w, 'pe) OutboxPublisher \<Rightarrow> SerializedEnvelope list \<Rightarrow> instant \<Rightarrow> ('tx, 'w) Scope
     \<Rightarrow> (unit, ('se, 'pe) RouteError) result list \<times> instant \<times> ('tx, 'w) Scope" where
  "scoped_publish_batch self = publish_each (scoped_publish self)"

section \<open>The two routes of a batch\<close>

definition routed :: "OutboxPolicy \<Rightarrow> SerializedEnvelope \<Rightarrow> bool" where
  "routed p e \<longleftrightarrow> decide p (message_type e) = Outbox"

fun stage_each ::
    "(SerializedEnvelope \<Rightarrow> 'tx \<Rightarrow> 'tx \<times> 'r) \<Rightarrow> SerializedEnvelope list \<Rightarrow> 'tx \<Rightarrow> 'tx \<times> 'r list" where
  "stage_each stage [] tx = (tx, [])"
| "stage_each stage (e # es) tx =
     (let (tx1, r) = stage e tx; (tx2, rs) = stage_each stage es tx1 in (tx2, r # rs))"

definition stage_result :: "(MessageId, 'se) result \<Rightarrow> (unit, ('se, 'pe) RouteError) result" where
  "stage_result r = and_then (map_err RouteStage r) (\<lambda>_. Ok ())"

lemma is_ok_stage_result [simp]: "is_ok (stage_result r) \<longleftrightarrow> is_ok r"
  by (cases r) (simp_all add: stage_result_def is_ok_iff)

lemma not_Outbox: "r \<noteq> Outbox \<longleftrightarrow> r = Direct"
  by (cases r) simp_all

text \<open>The routed messages go through staging and the others through the transport, each kind in its
  order and as if it were alone.\<close>

lemma scoped_batch_split:
  fixes self :: "('tx, 'se, 'w, 'pe) OutboxPublisher"
  defines "R \<equiv> routed (pub_policy self)"
  assumes "scoped_publish_batch self es t c = (rs, t', c')"
  shows "length rs = length es
    \<and> (\<exists>ss. stage_each (pub_stage self) (filter R es) (sp_tx c) = (sp_tx c', ss)
        \<and> map snd (filter (\<lambda>(e, _). R e) (zip es rs)) = map stage_result ss)
    \<and> (\<exists>ds. publish_each (pub_publish self) (filter (\<lambda>e. \<not> R e) es) t (sp_world c) = (ds, t', sp_world c')
        \<and> map snd (filter (\<lambda>(e, _). \<not> R e) (zip es rs)) = map (map_err RoutePublish) ds)
    \<and> sp_routed c' = sp_routed c @ map (\<lambda>(e, _). (decide (pub_policy self) (message_type e), message_type e))
        (filter (\<lambda>(_, r). is_ok r) (zip es rs))"
  using assms(2) unfolding scoped_publish_batch_def
proof (induction es arbitrary: t c rs)
  case (Cons e es)
  obtain r t1 c1 where p: "scoped_publish self e t c = (r, t1, c1)" by (cases "scoped_publish self e t c")
  obtain rs1 where b: "publish_each (scoped_publish self) es t1 c1 = (rs1, t', c')" and rs: "rs = r # rs1"
    using Cons.prems p by (auto split: prod.splits)
  note IH = Cons.IH [OF b]
  show ?case
  proof (cases "R e")
    case True
    then have d: "decide (pub_policy self) (message_type e) = Outbox" by (simp add: R_def routed_def)
    obtain tx s where s: "pub_stage self e (sp_tx c) = (tx, s)" by fastforce
    have "r = stage_result s" "t1 = t" "sp_tx c1 = tx" "sp_world c1 = sp_world c"
      "sp_routed c1 = sp_routed c @ (if is_ok r then [(Outbox, message_type e)] else [])"
      using p by (auto simp: scoped_publish_def d s stage_result_def is_ok_iff split: sum.splits)
    with IH True s d rs show ?thesis by auto
  next
    case False
    then have d: "decide (pub_policy self) (message_type e) = Direct" by (simp add: R_def routed_def not_Outbox)
    obtain s t2 w where s: "pub_publish self e t (sp_world c) = (s, t2, w)" by (cases "pub_publish self e t (sp_world c)")
    have "r = map_err RoutePublish s" "t1 = t2" "sp_tx c1 = sp_tx c" "sp_world c1 = w"
      "sp_routed c1 = sp_routed c @ (if is_ok r then [(Direct, message_type e)] else [])"
      using p by (auto simp: scoped_publish_def d s is_ok_iff split: sum.splits)
    with IH False s d rs show ?thesis by auto
  qed
qed simp

section \<open>What staging promises\<close>

locale outbox_staging =
  fixes rows :: "'tx \<Rightarrow> OutboxRecord list"
    and inv :: "'tx \<Rightarrow> bool"
    and usable :: "'tx \<Rightarrow> bool"
    and accepts :: "SerializedEnvelope \<Rightarrow> bool"
    and staged :: "SerializedEnvelope \<Rightarrow> OutboxRecord \<Rightarrow> bool"
    and stage :: "SerializedEnvelope \<Rightarrow> 'tx \<Rightarrow> 'tx \<times> (MessageId, 'se) result"
  assumes stage_Ok: "inv tx \<Longrightarrow> accepts e \<Longrightarrow> stage e tx = (tx', Ok i) \<Longrightarrow>
      i = env_id e \<and> inv tx' \<and> usable tx \<and> (usable tx' \<longrightarrow> (\<exists>x. staged e x \<and> rows tx' = rows tx @ [x]))"
    and stage_Err: "inv tx \<Longrightarrow> accepts e \<Longrightarrow> stage e tx = (tx', Err x) \<Longrightarrow> usable tx' \<Longrightarrow> inv tx' \<and> rows tx' = rows tx"
    and stage_unusable: "\<not> usable tx \<Longrightarrow> \<not> usable (fst (stage e tx))"
begin

lemma stage_each_unusable: "\<not> usable tx \<Longrightarrow> \<not> usable (fst (stage_each stage es tx))"
proof (induction es arbitrary: tx)
  case (Cons e es)
  show ?case using Cons.IH [OF stage_unusable [OF Cons.prems, of e]] by (simp add: split_def Let_def)
qed simp

text \<open>As long as the transaction is usable, it holds one new row for each call that succeeded.\<close>

lemma stage_each_rows:
  assumes "stage_each stage es tx = (tx', ss)" "inv tx" "list_all accepts es" "usable tx'"
  shows "\<exists>xs. rows tx' = rows tx @ xs \<and> list_all2 staged (map fst (filter (\<lambda>(_, s). is_ok s) (zip es ss))) xs"
  using assms
proof (induction es arbitrary: tx ss)
  case (Cons e es)
  obtain tx1 s ss1 where s: "stage e tx = (tx1, s)" "stage_each stage es tx1 = (tx', ss1)" "ss = s # ss1"
    using Cons.prems(1) by (auto split: prod.splits)
  have u: "usable tx1" using stage_each_unusable [of tx1 es] s(2) Cons.prems(4) by auto
  have a: "accepts e" "list_all accepts es" using Cons.prems(3) by simp_all
  show ?case
  proof (cases s)
    case (Inl x)
    from stage_Err [OF Cons.prems(2) a(1) s(1) [unfolded Inl] u] Cons.IH [OF s(2) _ a(2) Cons.prems(4)] s(3) Inl
    show ?thesis by (simp add: is_ok_iff)
  next
    case (Inr i)
    from stage_Ok [OF Cons.prems(2) a(1) s(1) [unfolded Inr]] u
    obtain x where x: "inv tx1" "staged e x" "rows tx1 = rows tx @ [x]" by blast
    from Cons.IH [OF s(2) x(1) a(2) Cons.prems(4)] obtain xs where
      "rows tx' = rows tx1 @ xs" "list_all2 staged (map fst (filter (\<lambda>(_, s). is_ok s) (zip es ss1))) xs" by blast
    with x s(3) Inr show ?thesis by (intro exI [of _ "x # xs"]) (simp add: is_ok_iff)
  qed
qed simp

end

section \<open>The in-memory store\<close>

definition im_staged :: "SerializedEnvelope \<Rightarrow> OutboxRecord \<Rightarrow> bool" where
  "im_staged e x \<longleftrightarrow> (\<exists>seq t. x = record_builder e seq t)"

lemma try_enqueue_cases:
  "(\<exists>s'. try_enqueue e s = (s', Err Injected) \<and> im_rows s' = im_rows s)
   \<or> (\<exists>s'. try_enqueue e s = (s', Ok (env_id e))
        \<and> im_rows s' = im_rows s @ [record_builder e (next_sequence s) (im_now s)])"
  by (auto simp: try_enqueue_def take_fail_next_enqueue_def im_insert_def insert_row_def Let_def builder_available_at_def
      builder_ordering_key_def record_builder_def)

interpretation im_staging: outbox_staging im_rows "\<lambda>_. True" "\<lambda>_. True" "\<lambda>_. True" im_staged try_enqueue
proof
  fix e tx tx' i assume "try_enqueue e tx = (tx', Ok i)"
  with try_enqueue_cases [of e tx] show "i = env_id e \<and> True \<and> True \<and> (True \<longrightarrow> (\<exists>x. im_staged e x \<and> im_rows tx' = im_rows tx @ [x]))"
    by (auto simp: im_staged_def)
next
  fix e tx tx' x assume "try_enqueue e tx = (tx', Err x)"
  with try_enqueue_cases [of e tx] show "True \<and> im_rows tx' = im_rows tx" by auto
qed simp

text \<open>A provider whose failed statement ends the transaction for good.\<close>

locale aborting_staging = outbox_staging rows inv usable accepts staged stage
  for rows :: "'tx \<Rightarrow> OutboxRecord list" and inv usable and accepts :: "SerializedEnvelope \<Rightarrow> bool" and staged
    and stage :: "SerializedEnvelope \<Rightarrow> 'tx \<Rightarrow> 'tx \<times> (MessageId, 'se) result" +
  assumes stage_aborts: "stage e tx = (tx', Err x) \<Longrightarrow> \<not> usable tx'"
    and stage_goes_on: "inv tx \<Longrightarrow> accepts e \<Longrightarrow> stage e tx = (tx', Ok i) \<Longrightarrow> usable tx'"
begin

text \<open>Afterwards the transaction is usable exactly when it was and every call succeeded.\<close>

lemma stage_each_usable:
  assumes "stage_each stage es tx = (tx', ss)" "inv tx" "list_all accepts es"
  shows "usable tx' \<longleftrightarrow> usable tx \<and> list_all is_ok ss"
  using assms
proof (induction es arbitrary: tx ss)
  case (Cons e es)
  obtain tx1 s ss1 where s: "stage e tx = (tx1, s)" "stage_each stage es tx1 = (tx', ss1)" "ss = s # ss1"
    using Cons.prems(1) by (auto split: prod.splits)
  show ?case
  proof (cases s)
    case (Inl x)
    then have "\<not> usable tx1" using stage_aborts s(1) by blast
    from stage_each_unusable [OF this, of es] s Inl show ?thesis by (simp add: is_ok_iff)
  next
    case (Inr i)
    have a: "accepts e" "list_all accepts es" using Cons.prems(3) by simp_all
    note ok = stage_Ok [OF Cons.prems(2) a(1) s(1) [unfolded Inr]]
    have "usable tx1" by (rule stage_goes_on [OF Cons.prems(2) a(1) s(1) [unfolded Inr]])
    with Cons.IH [OF s(2) _ a(2)] ok s(3) Inr show ?thesis by (simp add: is_ok_iff)
  qed
qed simp

end

section \<open>The PostgreSQL store\<close>

text \<open>Each call of \<^verbatim>\<open>stage\<close> meets its own database behaviour.\<close>

definition pg_stage_call ::
    "PgLib \<Rightarrow> PostgresOutboxSettings \<Rightarrow> SerializedEnvelope \<Rightarrow> (nat \<Rightarrow> TxEnv) \<times> PgTx
     \<Rightarrow> ((nat \<Rightarrow> TxEnv) \<times> PgTx) \<times> (MessageId, infallible EnqueueError) result" where
  "pg_stage_call lib st e = (\<lambda>(envs, tx).
     case pg_stage lib st (envs 0) e tx of (tx', r) \<Rightarrow> ((\<lambda>k. envs (Suc k), tx'), r))"

definition pg_scope_inv :: "PostgresOutboxSettings \<Rightarrow> (nat \<Rightarrow> TxEnv) \<times> PgTx \<Rightarrow> bool" where
  "pg_scope_inv st = (\<lambda>(envs, tx). pg_inv (tx_pg tx) \<and> (\<forall>k. te_table (envs k) (insert_path st tx) = OwnTable))"

definition pg_staged :: "PgLib \<Rightarrow> SerializedEnvelope \<Rightarrow> OutboxRecord \<Rightarrow> bool" where
  "pg_staged lib e x \<longleftrightarrow> (\<exists>t seq. staged_as lib e (body e) (content_type (delivery (metadata e))) None t seq x)"

lemma pg_stage_Ok:
  assumes "pg_stage lib st env e tx = (tx', Ok i)"
  shows "i = env_id e"
    "insert_staged lib st env e (body e) (content_type (delivery (metadata e))) None tx = (tx', Ok ())"
  using assms
  by (cases "insert_staged lib st env e (body e) (content_type (delivery (metadata e))) None tx";
      auto simp: pg_stage_def enqueue_options_default_def and_then_eq_Ok_iff)+

lemma pg_stage_Err: "pg_stage lib st env e tx = (tx', Err x) \<Longrightarrow> tx_aborted tx'"
  using insert_staged_Err [of lib st env e "body e" "content_type (delivery (metadata e))" None tx]
  by (cases "insert_staged lib st env e (body e) (content_type (delivery (metadata e))) None tx")
     (auto simp: pg_stage_def enqueue_options_default_def and_then_def map_err_def split: sum.splits)

lemma pg_stage_aborted:
  assumes "tx_aborted tx"
  shows "tx_aborted (fst (pg_stage lib st env e tx))"
proof -
  have "snd (pg_stage lib st env e tx) \<noteq> Ok i" for i
  proof
    assume "snd (pg_stage lib st env e tx) = Ok i"
    then have "insert_staged lib st env e (body e) (content_type (delivery (metadata e))) None tx
        = (fst (pg_stage lib st env e tx), Ok ())" using pg_stage_Ok(2) by (metis prod.collapse)
    then show False using assms
      by (auto simp: insert_staged_def set_search_path_def pg_insert_row_def tx_statement_def and_then_def
          split: if_splits prod.splits sum.splits)
  qed
  then show ?thesis using pg_stage_Err by (metis obj_sumE prod.collapse)
qed

interpretation pg_staging: aborting_staging "\<lambda>s. pg_records lib (tx_pg (snd s))" "pg_scope_inv st"
    "\<lambda>s. \<not> tx_aborted (snd s)" "\<lambda>e. pg_lib_ok lib \<and> stageable lib e" "pg_staged lib" "pg_stage_call lib st" for lib st
proof
  fix e s s' i assume s: "pg_scope_inv st s" and e: "pg_lib_ok lib \<and> stageable lib e" and c: "pg_stage_call lib st e s = (s', Ok i)"
  obtain envs tx where tx: "s = (envs, tx)" by (cases s)
  obtain tx' where tx': "pg_stage lib st (envs 0) e tx = (tx', Ok i)" "s' = (\<lambda>k. envs (Suc k), tx')"
    using c by (auto simp: tx pg_stage_call_def split: prod.splits)
  have t: "pg_inv (tx_pg tx)" "\<And>k. te_table (envs k) (insert_path st tx) = OwnTable"
    using s by (simp_all add: tx pg_scope_inv_def)
  have v: "valid_content_type (content_type (delivery (metadata e)))"
    using e by (simp add: stageable_def envelope_valid_def Let_def)
  note ok = pg_stage_Ok [OF tx'(1)]
  note st = insert_staged_Ok [OF ok(2) t(2)]
  note rec = insert_staged_record [OF conjunct1 [OF e] conjunct2 [OF e] v t(1) t(2) ok(2)]
  have "insert_path st tx' = insert_path st tx" by (simp add: insert_path_def st(2))
  with ok(1) st(1,2) rec t(2)
  show "i = env_id e \<and> pg_scope_inv st s' \<and> \<not> tx_aborted (snd s) \<and> (\<not> tx_aborted (snd s') \<longrightarrow>
      (\<exists>x. pg_staged lib e x \<and> pg_records lib (tx_pg (snd s')) = pg_records lib (tx_pg (snd s)) @ [x]))"
    by (auto simp: tx tx'(2) pg_scope_inv_def pg_staged_def)
  show "\<not> tx_aborted (snd s')" using st(1,2) by (simp add: tx'(2))
next
  fix e s s' x assume c: "pg_stage_call lib st e s = (s', Err x)"
  then show a: "\<not> \<not> tx_aborted (snd s')"
    by (cases s) (auto simp: pg_stage_call_def dest: pg_stage_Err split: prod.splits)
  then show "\<not> tx_aborted (snd s') \<Longrightarrow> pg_scope_inv st s' \<and> pg_records lib (tx_pg (snd s')) = pg_records lib (tx_pg (snd s))"
    by simp
next
  fix e and s :: "(nat \<Rightarrow> TxEnv) \<times> PgTx" assume "\<not> \<not> tx_aborted (snd s)"
  then have "tx_aborted (fst (pg_stage lib st (fst s 0) e (snd s)))" by (simp add: pg_stage_aborted)
  then show "\<not> \<not> tx_aborted (snd (fst (pg_stage_call lib st e s)))"
    by (simp add: pg_stage_call_def split_def)
qed

lemma filter_zip_all:
  "length xs = length ys \<Longrightarrow> list_all P ys \<Longrightarrow> filter (\<lambda>(_, y). P y) (zip xs ys) = zip xs ys"
  by (auto simp: list_all_iff filter_id_conv dest: set_zip_rightD)

lemma stage_each_length: "stage_each stage es tx = (tx', ss) \<Longrightarrow> length ss = length es"
  by (induction es arbitrary: tx ss) (auto split: prod.splits)

text \<open>C13. Publishing a batch through the outbox publisher within a PostgreSQL transaction, over any transport. There
  is one result per envelope, in order. The types the policy does not route go to the transport
  alone, in their order, as a plain batch of them would, whatever happens to the others, and nothing of
  them reaches the transaction. If every routed envelope was staged, committing keeps exactly one new pending
  record per routed envelope, in order, with its bytes and content type; if one was not, committing
  keeps nothing. The metrics sink hears of each success once.\<close>

theorem scoped_batch_atomic:
  assumes "pg_lib_ok lib" "pg_inv (tx_pg tx)" "\<not> tx_aborted tx" "\<And>k. te_table (envs k) (insert_path st tx) = OwnTable"
    "list_all (stageable lib) (filter (routed p) es)"
    "scoped_publish_batch (outbox_publisher_new (pg_stage_call lib st) publish p) es t (in_transaction (envs, tx) w) = (rs, t', c')"
  shows "length rs = length es
    \<and> (\<exists>ds. publish_each publish (filter (\<lambda>e. \<not> routed p e) es) t w = (ds, t', sp_world c')
        \<and> map snd (filter (\<lambda>(e, _). \<not> routed p e) (zip es rs)) = map (map_err RoutePublish) ds)
    \<and> (if list_all (\<lambda>(e, r). routed p e \<longrightarrow> is_ok r) (zip es rs)
       then \<exists>xs. pg_records lib (pg_committed s (snd (sp_tx c'))) = pg_records lib (tx_pg tx) @ xs
              \<and> list_all2 (pg_staged lib) (filter (routed p) es) xs
       else pg_committed s (snd (sp_tx c')) = s)
    \<and> sp_routed c' = map (\<lambda>(e, _). (decide p (message_type e), message_type e)) (filter (\<lambda>(_, r). is_ok r) (zip es rs))"
proof -
  let ?R = "filter (routed p) es"
  from scoped_batch_split [OF assms(6)] obtain ss where
    len: "length rs = length es" and
    ss: "stage_each (pg_stage_call lib st) ?R (envs, tx) = (sp_tx c', ss)"
    "map snd (filter (\<lambda>(e, _). routed p e) (zip es rs)) = map stage_result ss" and
    ds: "\<exists>ds. publish_each publish (filter (\<lambda>e. \<not> routed p e) es) t w = (ds, t', sp_world c')
        \<and> map snd (filter (\<lambda>(e, _). \<not> routed p e) (zip es rs)) = map (map_err RoutePublish) ds" and
    told: "sp_routed c' = map (\<lambda>(e, _). (decide p (message_type e), message_type e)) (filter (\<lambda>(_, r). is_ok r) (zip es rs))"
    by (auto simp: outbox_publisher_new_def in_transaction_def)
  have inv: "pg_scope_inv st (envs, tx)" using assms(2,4) by (simp add: pg_scope_inv_def)
  have acc: "list_all (\<lambda>e. pg_lib_ok lib \<and> stageable lib e) ?R" using assms(1,5) by (simp add: list_all_iff)
  have "list_all is_ok ss \<longleftrightarrow> list_all is_ok (map snd (filter (\<lambda>(e, _). routed p e) (zip es rs)))"
    unfolding ss(2) by (simp add: list_all_iff)
  then have ok: "list_all is_ok ss \<longleftrightarrow> list_all (\<lambda>(e, r). routed p e \<longrightarrow> is_ok r) (zip es rs)"
    by (auto simp: list_all_iff)
  have u: "\<not> tx_aborted (snd (sp_tx c')) \<longleftrightarrow> list_all is_ok ss"
    using pg_staging.stage_each_usable [OF ss(1) inv acc] assms(3) by simp
  show ?thesis
  proof (cases "list_all is_ok ss")
    case True
    then have "\<not> tx_aborted (snd (sp_tx c'))" using u by simp
    from pg_staging.stage_each_rows [OF ss(1) inv acc this] True
    have "\<exists>xs. pg_records lib (tx_pg (snd (sp_tx c'))) = pg_records lib (tx_pg tx) @ xs \<and> list_all2 (pg_staged lib) ?R xs"
      by (simp add: filter_zip_all stage_each_length [OF ss(1)])
    with True u ok len ds told show ?thesis by (simp add: pg_committed_def)
  next
    case False
    with u ok len ds told show ?thesis by (simp add: pg_committed_def)
  qed
qed

text \<open>An instance: one routed and one direct message.\<close>

definition demo_policy :: OutboxPolicy where
  "demo_policy = \<lparr>op_enabled = True, op_allowed = [''orders.created''], op_disallowed = []\<rparr>"

definition demo_direct :: SerializedEnvelope where
  "demo_direct = demo_pg_envelope\<lparr>env_id := 8, message_type := \<lparr>mt_name = ''audit'', mt_version = 1\<rparr>\<rparr>"

definition recording :: "SerializedEnvelope \<Rightarrow> instant \<Rightarrow> uuid list \<Rightarrow> (unit, unit) result \<times> instant \<times> uuid list" where
  "recording e t w = (Ok (), t + 1, w @ [env_id e])"

theorem scoped_batch_atomic_witness:
  "\<exists>c'. scoped_publish_batch (outbox_publisher_new (pg_stage_call demo_pg_lib (po_settings demo_pg_store)) recording demo_policy)
      [demo_pg_envelope, demo_direct] 0 (in_transaction (\<lambda>_. demo_tx_env, demo_tx) []) = ([Ok (), Ok ()], 1, c')
    \<and> sp_world c' = [8]
    \<and> (\<exists>x. pg_staged demo_pg_lib demo_pg_envelope x
        \<and> pg_records demo_pg_lib (pg_committed demo_readable (snd (sp_tx c'))) = pg_records demo_pg_lib demo_readable @ [x])"
proof -
  let ?r = "scoped_publish_batch (outbox_publisher_new (pg_stage_call demo_pg_lib (po_settings demo_pg_store)) recording demo_policy)
      [demo_pg_envelope, demo_direct] 0 (in_transaction (\<lambda>_. demo_tx_env, demo_tx) [])"
  have v: "fst ?r = [Ok (), Ok ()]" "fst (snd ?r) = 1" "sp_world (snd (snd ?r)) = [8]" by code_simp+
  then have r: "?r = ([Ok (), Ok ()], 1, snd (snd ?r))" by (metis prod.collapse)
  have c: "pg_inv (tx_pg demo_tx)" "\<not> tx_aborted demo_tx"
    "te_table demo_tx_env (insert_path (po_settings demo_pg_store) demo_tx) = OwnTable" by code_simp+
  have f: "filter (routed demo_policy) [demo_pg_envelope, demo_direct] = [demo_pg_envelope]" by code_simp
  have "list_all (stageable demo_pg_lib) (filter (routed demo_policy) [demo_pg_envelope, demo_direct])"
    unfolding f using demo_stageable by simp
  from scoped_batch_atomic [OF demo_pg_lib_ok c(1,2) _ this r, of demo_readable] c(3) v(3) r
  show ?thesis
    unfolding f by (intro exI [of _ "snd (snd ?r)"]) (auto simp: is_ok_iff list_all2_Cons1 demo_tx_def)
qed

end
