(* ===== verification/Test_Kit.thy ===== *)
theory Test_Kit
  imports Dispatcher In_Memory_Store
begin

text \<open>
  The publishers and the metrics sink of the test kit, \<^verbatim>\<open>reliar-outbox/src/test_support/publisher.rs\<close> and \<^verbatim>\<open>metrics.rs\<close>, and the
  dispatcher's statistics poll, which feeds such a sink. A publish is what its future does when it is
  polled: the part up to the timer on the first poll, the rest when the timer fires; a call whose
  future is dropped in between (a publish timeout, an aborted task) never does the rest.
\<close>

section \<open>The recording publisher\<close>

record RecordingInner =
  ri_published :: "MessageId list"
  ri_envelopes :: "SerializedEnvelope list"
  ri_in_flight :: nat
  ri_in_flight_peak :: nat

record RecordingPublisher =
  rp_inner :: RecordingInner
  concurrency_probe :: "duration option"

definition recording_default :: RecordingPublisher where
  "recording_default =
     \<lparr>rp_inner = \<lparr>ri_published = [], ri_envelopes = [], ri_in_flight = 0, ri_in_flight_peak = 0\<rparr>,
      concurrency_probe = None\<rparr>"

definition with_concurrency_probe :: "duration \<Rightarrow> RecordingPublisher" where
  "with_concurrency_probe d =
     \<lparr>rp_inner = \<lparr>ri_published = [], ri_envelopes = [], ri_in_flight = 0, ri_in_flight_peak = 0\<rparr>,
      concurrency_probe = Some d\<rparr>"

definition rp_published :: "RecordingPublisher \<Rightarrow> MessageId list" where
  "rp_published p = ri_published (rp_inner p)"

definition rp_count :: "MessageId \<Rightarrow> RecordingPublisher \<Rightarrow> nat" where
  "rp_count i p = length (filter (\<lambda>seen. seen = i) (ri_published (rp_inner p)))"

definition rp_envelopes :: "RecordingPublisher \<Rightarrow> SerializedEnvelope list" where
  "rp_envelopes p = ri_envelopes (rp_inner p)"

definition rp_in_flight_peak :: "RecordingPublisher \<Rightarrow> nat" where
  "rp_in_flight_peak p = ri_in_flight_peak (rp_inner p)"

datatype FakePublishError = FakeTransient string | FakePermanent string

text \<open>What a poll of a publish future leaves: a result, a timer, or a panic.\<close>

datatype 'r poll = Ready 'r | Sleeping duration | Panicked

definition recording_begin :: "SerializedEnvelope \<Rightarrow> RecordingInner \<Rightarrow> RecordingInner" where
  "recording_begin e i =
     i\<lparr>ri_in_flight := ri_in_flight i + 1,
       ri_in_flight_peak := max (ri_in_flight_peak i) (ri_in_flight i + 1),
       ri_published := ri_published i @ [env_id e],
       ri_envelopes := ri_envelopes i @ [e]\<rparr>"

text \<open>\<^verbatim>\<open>in_flight -= 1\<close> panics below zero.\<close>

definition recording_end :: "RecordingInner \<Rightarrow> RecordingInner option" where
  "recording_end i = (if ri_in_flight i = 0 then None else Some (i\<lparr>ri_in_flight := ri_in_flight i - 1\<rparr>))"

definition recording_publish :: "SerializedEnvelope \<Rightarrow> RecordingPublisher \<Rightarrow> RecordingPublisher \<times> (unit, FakePublishError) result poll" where
  "recording_publish e p =
     (let i = recording_begin e (rp_inner p) in
      case concurrency_probe p of
        Some d \<Rightarrow> (p\<lparr>rp_inner := i\<rparr>, Sleeping d)
      | None \<Rightarrow>
          (case recording_end i of
             None \<Rightarrow> (p\<lparr>rp_inner := i\<rparr>, Panicked)
           | Some i' \<Rightarrow> (p\<lparr>rp_inner := i'\<rparr>, Ready (Ok ()))))"

definition recording_resume :: "RecordingPublisher \<Rightarrow> RecordingPublisher \<times> (unit, FakePublishError) result poll" where
  "recording_resume p =
     (case recording_end (rp_inner p) of
        None \<Rightarrow> (p, Panicked)
      | Some i \<Rightarrow> (p\<lparr>rp_inner := i\<rparr>, Ready (Ok ())))"

section \<open>The scripted publisher\<close>

fun fake_error_kind :: "FakePublishError \<Rightarrow> FailureKind" where
  "fake_error_kind (FakeTransient _) = Transient"
| "fake_error_kind (FakePermanent _) = Permanent"

fun fake_error_display :: "FakePublishError \<Rightarrow> string" where
  "fake_error_display (FakeTransient detail) = ''scripted publish failure (transient): '' @ detail"
| "fake_error_display (FakePermanent detail) = ''scripted publish failure (permanent): '' @ detail"

datatype PublishStep = StepOk | StepTransient | StepPermanent | Hang duration | StepPanic

datatype Script =
    Positional "PublishStep list" "64 word"
  | Keyed "(MessageId \<times> PublishStep) list"

record ScriptedInner =
  sc_script :: Script
  sc_published :: "MessageId list"

definition scripted_new :: "PublishStep list \<Rightarrow> ScriptedInner" where
  "scripted_new steps = \<lparr>sc_script = Positional steps 0, sc_published = []\<rparr>"

text \<open>Collecting into the map: a later entry of a key replaces an earlier one.\<close>

definition scripted_keyed :: "(MessageId \<times> PublishStep) list \<Rightarrow> ScriptedInner" where
  "scripted_keyed steps =
     \<lparr>sc_script = Keyed (fold (\<lambda>(k, v) m. (k, v) # filter (\<lambda>x. fst x \<noteq> k) m) steps []), sc_published = []\<rparr>"

definition scripted_always :: "PublishStep \<Rightarrow> ScriptedInner" where
  "scripted_always s = scripted_new [s]"

definition step_for :: "MessageId \<Rightarrow> ScriptedInner \<Rightarrow> ScriptedInner \<times> PublishStep" where
  "step_for i s =
     (let s' = s\<lparr>sc_published := sc_published s @ [i]\<rparr> in
      case sc_script s of
        Positional steps nxt \<Rightarrow>
          (if steps = [] then (s', StepOk)
           else (s'\<lparr>sc_script := Positional steps (saturating_add nxt 1)\<rparr>,
                 steps ! min (unat nxt) (length steps - 1)))
      | Keyed steps \<Rightarrow> (s', case map_of steps i of None \<Rightarrow> StepOk | Some x \<Rightarrow> x))"

fun run_publish_step :: "PublishStep \<Rightarrow> (unit, FakePublishError) result poll" where
  "run_publish_step StepOk = Ready (Ok ())"
| "run_publish_step StepTransient = Ready (Err (FakeTransient ''scripted transient failure''))"
| "run_publish_step StepPermanent = Ready (Err (FakePermanent ''scripted permanent failure''))"
| "run_publish_step (Hang d) = Sleeping d"
| "run_publish_step StepPanic = Panicked"

definition scripted_publish ::
    "SerializedEnvelope \<Rightarrow> ScriptedInner \<Rightarrow> ScriptedInner \<times> (unit, FakePublishError) result poll" where
  "scripted_publish e s = map_prod id run_publish_step (step_for (env_id e) s)"

section \<open>The metrics sink\<close>

text \<open>The hooks of \<^verbatim>\<open>OutboxMetrics\<close>, as the calls a sink sees.\<close>

datatype OutboxMetrics =
    MClaimed nat
  | MPublished nat MessageType
  | MRetried nat FailureKind
  | MDead nat DeadReason
  | MPublishDuration duration MessageType
  | MPending nat
  | MExpiredPending nat
  | MOldestPendingAge duration
  | MPurged nat nat
  | MRouted RouteKind MessageType

record RecordingMetrics =
  rm_claimed :: nat
  rm_published :: "MessageType list"
  rm_retried :: "FailureKind list"
  rm_dead :: "DeadReason list"
  rm_pending :: "nat option"
  rm_expired_pending :: "nat option"
  rm_oldest_pending_age :: "duration option"
  rm_purged :: "(nat \<times> nat) option"
  rm_publish_duration :: "(duration \<times> MessageType) option"
  rm_routed :: "(RouteKind \<times> MessageType) list"

definition recording_metrics_default :: RecordingMetrics where
  "recording_metrics_default =
     \<lparr>rm_claimed = 0, rm_published = [], rm_retried = [], rm_dead = [], rm_pending = None, rm_expired_pending = None,
      rm_oldest_pending_age = None, rm_purged = None, rm_publish_duration = None, rm_routed = []\<rparr>"

fun recording_metrics :: "OutboxMetrics \<Rightarrow> RecordingMetrics \<Rightarrow> RecordingMetrics" where
  "recording_metrics (MClaimed n) m = m\<lparr>rm_claimed := rm_claimed m + n\<rparr>"
| "recording_metrics (MPublished n t) m = m\<lparr>rm_published := rm_published m @ replicate n t\<rparr>"
| "recording_metrics (MRetried n k) m = m\<lparr>rm_retried := rm_retried m @ replicate n k\<rparr>"
| "recording_metrics (MDead n r) m = m\<lparr>rm_dead := rm_dead m @ replicate n r\<rparr>"
| "recording_metrics (MPublishDuration d t) m = m\<lparr>rm_publish_duration := Some (d, t)\<rparr>"
| "recording_metrics (MPending n) m = m\<lparr>rm_pending := Some n\<rparr>"
| "recording_metrics (MExpiredPending n) m = m\<lparr>rm_expired_pending := Some n\<rparr>"
| "recording_metrics (MOldestPendingAge d) m = m\<lparr>rm_oldest_pending_age := Some d\<rparr>"
| "recording_metrics (MPurged p d) m = m\<lparr>rm_purged := Some (p, d)\<rparr>"
| "recording_metrics (MRouted r t) m = m\<lparr>rm_routed := rm_routed m @ [(r, t)]\<rparr>"

text \<open>The statistics poll: the store after the bounded call, and the hooks called.\<close>

definition report_stats ::
    "timing \<Rightarrow> ('s \<Rightarrow> 's \<times> (OutboxStats, 'e) result) \<Rightarrow> 's \<Rightarrow> 's \<times> OutboxMetrics list" where
  "report_stats tm stats s =
     (case bounded tm stats s of
        (s', Inr st) \<Rightarrow>
          (s', [MPending (pending st), MExpiredPending (expired_pending st)]
                 @ (case lag st of None \<Rightarrow> [] | Some age \<Rightarrow> [MOldestPendingAge age]))
      | (s', Inl _) \<Rightarrow> (s', []))"

section \<open>Interleaved calls of the recording publisher\<close>

text \<open>The events of concurrent calls: a first poll, a timer that fires, a parked future that is dropped.\<close>

datatype call_event = Call SerializedEnvelope | Wake | Cancel

fun call_event_run :: "call_event \<Rightarrow> RecordingPublisher \<Rightarrow> RecordingPublisher \<times> (unit, FakePublishError) result poll" where
  "call_event_run (Call e) p = recording_publish e p"
| "call_event_run Wake p = recording_resume p"
| "call_event_run Cancel p = (p, Ready (Ok ()))"

text \<open>A run up to its end, or to a panic.\<close>

fun run_calls :: "call_event list \<Rightarrow> RecordingPublisher \<Rightarrow> RecordingPublisher option" where
  "run_calls [] p = Some p"
| "run_calls (ev # es) p =
     (case call_event_run ev p of (p', Panicked) \<Rightarrow> None | (p', _) \<Rightarrow> run_calls es p')"

definition parked_by :: "bool \<Rightarrow> nat \<Rightarrow> nat" where
  "parked_by probe n = (if probe then Suc n else n)"

text \<open>Events that can happen with \<open>n\<close> calls parked, and the most calls alive at once.\<close>

fun possible :: "bool \<Rightarrow> nat \<Rightarrow> call_event list \<Rightarrow> bool" where
  "possible probe n [] = True"
| "possible probe n (Call e # es) = possible probe (parked_by probe n) es"
| "possible probe n (_ # es) = (0 < n \<and> possible probe (n - 1) es)"

fun alive_peak :: "bool \<Rightarrow> nat \<Rightarrow> call_event list \<Rightarrow> nat" where
  "alive_peak probe n [] = 0"
| "alive_peak probe n (Call e # es) = max (Suc n) (alive_peak probe (parked_by probe n) es)"
| "alive_peak probe n (_ # es) = alive_peak probe (n - 1) es"

definition called :: "call_event list \<Rightarrow> SerializedEnvelope list" where
  "called = List.map_filter (\<lambda>ev. case ev of Call e \<Rightarrow> Some e | _ \<Rightarrow> None)"

definition cancels :: "call_event list \<Rightarrow> nat" where
  "cancels es = length (filter (\<lambda>ev. ev = Cancel) es)"

lemma called_simps [simp]: "called [] = []" "called (Call e # es) = e # called es"
  "called (Wake # es) = called es" "called (Cancel # es) = called es"
  by (simp_all add: called_def List.map_filter_simps)

lemma cancels_simps [simp]: "cancels [] = 0" "cancels (Call e # es) = cancels es"
  "cancels (Wake # es) = cancels es" "cancels (Cancel # es) = Suc (cancels es)"
  by (simp_all add: cancels_def)

lemma recording_publish_facts:
  "snd (recording_publish e p) = (case concurrency_probe p of None \<Rightarrow> Ready (Ok ()) | Some d \<Rightarrow> Sleeping d)"
  "concurrency_probe (fst (recording_publish e p)) = concurrency_probe p"
  "ri_in_flight (rp_inner (fst (recording_publish e p))) = parked_by (concurrency_probe p \<noteq> None) (ri_in_flight (rp_inner p))"
  "rp_envelopes (fst (recording_publish e p)) = rp_envelopes p @ [e]"
  "rp_published (fst (recording_publish e p)) = rp_published p @ [env_id e]"
  "rp_in_flight_peak (fst (recording_publish e p)) = max (rp_in_flight_peak p) (Suc (ri_in_flight (rp_inner p)))"
  by (simp_all add: recording_publish_def recording_begin_def recording_end_def parked_by_def rp_envelopes_def rp_published_def
    rp_in_flight_peak_def Let_def split: option.splits)

lemma recording_resume_facts:
  assumes "0 < ri_in_flight (rp_inner p)"
  shows "snd (recording_resume p) = Ready (Ok ())"
    "concurrency_probe (fst (recording_resume p)) = concurrency_probe p"
    "ri_in_flight (rp_inner (fst (recording_resume p))) = ri_in_flight (rp_inner p) - 1"
    "rp_envelopes (fst (recording_resume p)) = rp_envelopes p"
    "rp_published (fst (recording_resume p)) = rp_published p"
    "rp_in_flight_peak (fst (recording_resume p)) = rp_in_flight_peak p"
  using assms by (simp_all add: recording_resume_def recording_end_def rp_envelopes_def rp_published_def rp_in_flight_peak_def)

lemma run_calls_Cons:
  "snd (call_event_run ev p) \<noteq> Panicked \<Longrightarrow> run_calls (ev # es) p = run_calls es (fst (call_event_run ev p))"
  by (auto split: prod.splits poll.splits)

text \<open>With \<open>n\<close> calls parked and \<open>c\<close> dropped ones behind it, the counter is ahead of the calls by \<open>c\<close>.\<close>

lemma run_calls_correct:
  assumes "possible (concurrency_probe p \<noteq> None) n es" "ri_in_flight (rp_inner p) = n + c"
  shows "\<exists>p'. run_calls es p = Some p'
    \<and> rp_envelopes p' = rp_envelopes p @ called es \<and> rp_published p' = rp_published p @ map env_id (called es)
    \<and> max (rp_in_flight_peak p) (alive_peak (concurrency_probe p \<noteq> None) n es) \<le> rp_in_flight_peak p'
    \<and> rp_in_flight_peak p' \<le> max (rp_in_flight_peak p) (alive_peak (concurrency_probe p \<noteq> None) n es + c + cancels es)"
  using assms
proof (induction es arbitrary: p n c)
  case (Cons ev es)
  show ?case
  proof (cases ev)
    case (Call e)
    have "snd (call_event_run ev p) \<noteq> Panicked" by (simp add: Call recording_publish_facts split: option.splits)
    note r = run_calls_Cons [OF this, of es]
    have "ri_in_flight (rp_inner (fst (recording_publish e p))) = parked_by (concurrency_probe p \<noteq> None) n + c"
      using Cons.prems(2) by (simp add: recording_publish_facts parked_by_def)
    from Cons.IH [OF _ this] Cons.prems obtain p' where
      "run_calls es (fst (recording_publish e p)) = Some p'" "rp_envelopes p' = rp_envelopes p @ called (ev # es)"
      "rp_published p' = rp_published p @ map env_id (called (ev # es))"
      "max (max (rp_in_flight_peak p) (Suc (n + c))) (alive_peak (concurrency_probe p \<noteq> None) (parked_by (concurrency_probe p \<noteq> None) n) es)
        \<le> rp_in_flight_peak p'"
      "rp_in_flight_peak p' \<le> max (max (rp_in_flight_peak p) (Suc (n + c)))
        (alive_peak (concurrency_probe p \<noteq> None) (parked_by (concurrency_probe p \<noteq> None) n) es + c + cancels es)"
      by (auto simp: Call recording_publish_facts)
    then show ?thesis unfolding r by (intro exI [of _ p']) (simp add: Call)
  next
    case Wake
    then have n: "0 < n" "ri_in_flight (rp_inner p) > 0" using Cons.prems by simp_all
    note f = recording_resume_facts [OF n(2)]
    have "snd (call_event_run ev p) \<noteq> Panicked" by (simp add: Wake f)
    note r = run_calls_Cons [OF this, of es]
    have "ri_in_flight (rp_inner (fst (recording_resume p))) = n - 1 + c" using Cons.prems(2) n by (simp add: f)
    from Cons.IH [OF _ this] Cons.prems show ?thesis unfolding r by (simp add: Wake f)
  next
    case Cancel
    with Cons.prems have "ri_in_flight (rp_inner p) = n - 1 + Suc c" by simp
    from Cons.IH [OF _ this] Cons.prems Cancel show ?thesis by simp
  qed
qed simp

lemma no_probe_no_parked: "possible False 0 es \<Longrightarrow> cancels es = 0 \<and> alive_peak False 0 es \<le> 1"
proof (induction es)
  case (Cons ev es)
  then show ?case by (cases ev) (auto simp: parked_by_def)
qed simp

lemma concurrency_probe_new: "concurrency_probe recording_default = None" "concurrency_probe (with_concurrency_probe d) = Some d"
  "ri_in_flight (rp_inner recording_default) = 0" "ri_in_flight (rp_inner (with_concurrency_probe d)) = 0"
  "rp_envelopes recording_default = []" "rp_envelopes (with_concurrency_probe d) = []"
  "rp_published recording_default = []" "rp_published (with_concurrency_probe d) = []"
  "rp_in_flight_peak recording_default = 0" "rp_in_flight_peak (with_concurrency_probe d) = 0"
  by (simp_all add: recording_default_def with_concurrency_probe_def rp_envelopes_def rp_published_def rp_in_flight_peak_def)

text \<open>A dropped call stays in the counter.\<close>

lemma recording_peak_counts_dropped:
  "alive_peak True 0 [Call e, Cancel, Call e'] = 1"
  "map_option rp_in_flight_peak (run_calls [Call e, Cancel, Call e'] (with_concurrency_probe d)) = Some 2"
  by (simp_all add: parked_by_def with_concurrency_probe_def recording_publish_def recording_begin_def rp_in_flight_peak_def)


definition kit_envelope :: "MessageId \<Rightarrow> SerializedEnvelope" where
  "kit_envelope i =
     \<lparr>env_id = i, message_type = \<lparr>mt_name = ''orders.created'', mt_version = 1\<rparr>, body = '''',
      metadata =
        \<lparr>correlation = \<lparr>correlation_id = None, conversation_id = 0, causation_id = None, request_id = None\<rparr>,
         trace = \<lparr>traceparent = None, tracestate = None\<rparr>, routing = \<lparr>source = None, destination = None, reply_to = None\<rparr>,
         delivery = delivery_default, tenant_id = None\<rparr>,
      env_headers = None\<rparr>"


section \<open>Replaying a script\<close>

text \<open>The steps that a sequence of calls gets.\<close>

fun replay :: "MessageId list \<Rightarrow> ScriptedInner \<Rightarrow> PublishStep list" where
  "replay [] s = []"
| "replay (i # is) s = (case step_for i s of (s', x) \<Rightarrow> x # replay is s')"

lemma replay_positional:
  assumes "sc_script s = Positional steps nxt" "steps \<noteq> []" "length steps \<le> 2 ^ 64"
  shows "replay is s = map (\<lambda>k. steps ! min (unat nxt + k) (length steps - 1)) [0..<length is]"
  using assms(1)
proof (induction "is" arbitrary: s nxt)
  case (Cons i "is")
  let ?s = "s\<lparr>sc_published := sc_published s @ [i], sc_script := Positional steps (saturating_add nxt 1)\<rparr>"
  have "min (unat (saturating_add nxt 1) + k) (length steps - 1) = min (unat nxt + Suc k) (length steps - 1)" for k
    using assms(3) unsigned_less [of nxt] by (simp add: unat_saturating_add min_def) linarith
  then have "replay is ?s = map (\<lambda>k. steps ! min (unat nxt + Suc k) (length steps - 1)) [0..<length is]"
    using Cons.IH [of ?s "saturating_add nxt 1"] by simp
  then show ?case
    using Cons.prems assms(2) by (simp add: step_for_def map_upt_Suc del: upt_Suc)
qed simp

lemma replay_keyed:
  "sc_script s = Keyed steps \<Longrightarrow> replay is s = map (\<lambda>i. case map_of steps i of None \<Rightarrow> StepOk | Some x \<Rightarrow> x) is"
  by (induction "is" arbitrary: s) (simp_all add: step_for_def)

lemma map_of_collect:
  "map_of (fold (\<lambda>(k, v) m. (k, v) # filter (\<lambda>x. fst x \<noteq> k) m) steps []) = map_of (rev steps)"
proof (induction steps rule: rev_induct)
  case (snoc x steps)
  have "map_of (filter (\<lambda>x. fst x \<noteq> k) m) i = (if i = k then None else map_of m i)" for k i and m :: "('a \<times> 'b) list"
    by (induction m) auto
  with snoc show ?case by (cases x) (auto simp: fun_eq_iff)
qed simp

text \<open>A script decides every call: the k-th call of a positional script gets the k-th step, its last one once
  the script is used up; a call of a keyed script gets the last step given for its message whatever the
  order of the calls, success when there is none; a constant script always gives its step.\<close>

lemma scripted_replay_correct:
  assumes "steps \<noteq> []" "length steps \<le> 2 ^ 64"
  shows "replay is (scripted_new steps) = map (\<lambda>k. steps ! min k (length steps - 1)) [0..<length is]
    \<and> replay is (scripted_keyed keyed) = map (\<lambda>i. case map_of (rev keyed) i of None \<Rightarrow> StepOk | Some x \<Rightarrow> x) is
    \<and> replay is (scripted_always x) = replicate (length is) x"
proof -
  have "replay is (scripted_new steps) = map (\<lambda>k. steps ! min k (length steps - 1)) [0..<length is]"
    using replay_positional [OF _ assms, of "scripted_new steps" 0] by (simp add: scripted_new_def)
  moreover have "replay is (scripted_keyed keyed) = map (\<lambda>i. case map_of (rev keyed) i of None \<Rightarrow> StepOk | Some x \<Rightarrow> x) is"
    using replay_keyed [of "scripted_keyed keyed"] by (simp add: scripted_keyed_def map_of_collect)
  moreover have "replay is (scripted_always x) = replicate (length is) x"
    using replay_positional [of "scripted_always x" "[x]" 0] by (simp add: scripted_always_def scripted_new_def map_replicate_const)
  ultimately show ?thesis by blast
qed

lemma scripted_replay_example:
  "replay [1, 2, 3] (scripted_new [StepTransient, StepOk]) = [StepTransient, StepOk, StepOk]
    \<and> replay [1, 2] (scripted_keyed [(1, StepOk), (2, Hang 5), (1, StepPermanent)]) = [StepPermanent, Hang 5]"
  using scripted_replay_correct [of "[StepTransient, StepOk]" "[1, 2, 3]"]
    scripted_replay_correct [of "[StepTransient, StepOk]" "[1, 2]" "[(1, StepOk), (2, Hang 5), (1, StepPermanent)]"]
  by (simp add: upt_rec)

section \<open>What the sink remembers\<close>

text \<open>After any calls a counter holds the sum and a log every entry, in order.\<close>

lemma recording_metrics_log:
  "rm_claimed (fold recording_metrics cs m) = rm_claimed m + sum_list (List.map_filter (\<lambda>c. case c of MClaimed n \<Rightarrow> Some n | _ \<Rightarrow> None) cs)"
  "rm_routed (fold recording_metrics cs m) = rm_routed m @ List.map_filter (\<lambda>c. case c of MRouted r t \<Rightarrow> Some (r, t) | _ \<Rightarrow> None) cs"
  "rm_published (fold recording_metrics cs m) = rm_published m @ concat (List.map_filter (\<lambda>c. case c of MPublished n t \<Rightarrow> Some (replicate n t) | _ \<Rightarrow> None) cs)"
  "rm_retried (fold recording_metrics cs m) = rm_retried m @ concat (List.map_filter (\<lambda>c. case c of MRetried n k \<Rightarrow> Some (replicate n k) | _ \<Rightarrow> None) cs)"
  "rm_dead (fold recording_metrics cs m) = rm_dead m @ concat (List.map_filter (\<lambda>c. case c of MDead n r \<Rightarrow> Some (replicate n r) | _ \<Rightarrow> None) cs)"
  by (induction cs arbitrary: m; simp add: List.map_filter_simps split: OutboxMetrics.splits)+

end
