(* ===== verification/Core_Serializer.thy ===== *)
theory Core_Serializer
  imports Core_Envelope
begin

text \<open>
  \<^verbatim>\<open>reliar-core/src/serializer.rs\<close>: the JSON serializer and the texts of its errors, and the \<^verbatim>\<open>serde\<close> adapters of durations
  (\<^verbatim>\<open>duration_serde.rs\<close> of \<^verbatim>\<open>reliar-outbox\<close> and \<^verbatim>\<open>reliar-store-postgres\<close>). What \<^verbatim>\<open>serde_json\<close> answers is an argument (\<open>JsonLib\<close>),
  the message of its errors included, which quotes the input.
\<close>

section \<open>The JSON serializer\<close>

datatype Category = CatIo | CatSyntax | CatData | CatEof

record ('a, 'j) JsonLib =
  js_to_vec :: "'a \<Rightarrow> (bytes, 'j) result"
  js_from_slice :: "bytes \<Rightarrow> ('a, 'j) result"
  js_classify :: "'j \<Rightarrow> Category"
  js_line :: "'j \<Rightarrow> nat"
  js_column :: "'j \<Rightarrow> nat"
  js_message :: "'j \<Rightarrow> string"

datatype 'j JsonError = JsonSerialize 'j | JsonDeserialize 'j

definition json_content_type :: ContentType where
  "json_content_type = content_type_json"

definition json_serialize :: "('a, 'j) JsonLib \<Rightarrow> 'a \<Rightarrow> (bytes, 'j JsonError) result" where
  "json_serialize lib x = map_err JsonSerialize (js_to_vec lib x)"

definition json_deserialize :: "('a, 'j) JsonLib \<Rightarrow> bytes \<Rightarrow> ('a, 'j JsonError) result" where
  "json_deserialize lib bs = map_err JsonDeserialize (js_from_slice lib bs)"

fun category_text :: "Category \<Rightarrow> string" where
  "category_text CatIo = ''io''"
| "category_text CatSyntax = ''syntax''"
| "category_text CatData = ''data''"
| "category_text CatEof = ''eof''"

definition describe :: "('a, 'j) JsonLib \<Rightarrow> 'j \<Rightarrow> string" where
  "describe lib e =
     category_text (js_classify lib e) @ '' error at line '' @ show_nat (js_line lib e) @ '', column '' @ show_nat (js_column lib e)"

fun json_error_display :: "('a, 'j) JsonLib \<Rightarrow> 'j JsonError \<Rightarrow> string" where
  "json_error_display lib (JsonSerialize e) = ''failed to serialize to JSON: '' @ describe lib e"
| "json_error_display lib (JsonDeserialize e) = ''failed to deserialize from JSON: '' @ describe lib e"

text \<open>A struct in \<^verbatim>\<open>Debug\<close> form with one field; the text needs no escape, having only letters, digits and punctuation.\<close>

fun json_error_debug :: "('a, 'j) JsonLib \<Rightarrow> 'j JsonError \<Rightarrow> string" where
  "json_error_debug lib (JsonSerialize e) =
     ''Serialize { classification: '' @ [CHR 0x22] @ describe lib e @ [CHR 0x22] @ '' }''"
| "json_error_debug lib (JsonDeserialize e) =
     ''Deserialize { classification: '' @ [CHR 0x22] @ describe lib e @ [CHR 0x22] @ '' }''"

fun json_error_source :: "'j JsonError \<Rightarrow> 'j" where
  "json_error_source (JsonSerialize e) = e"
| "json_error_source (JsonDeserialize e) = e"

section \<open>Durations\<close>

text \<open>Whole milliseconds that fit 64 bits; the text of a refusal is the standard library's.\<close>

definition millis_serialize :: "duration \<Rightarrow> (64 word, unit) result" where
  "millis_serialize d = (if as_millis d < 2 ^ 64 then Ok (of_nat (as_millis d)) else Err ())"

definition millis_deserialize :: "64 word \<Rightarrow> duration" where
  "millis_deserialize ms = from_millis (unat ms)"

definition optional_millis_serialize :: "duration option \<Rightarrow> (64 word option, unit) result" where
  "optional_millis_serialize d =
     (case d of Some d \<Rightarrow> and_then (millis_serialize d) (\<lambda>ms. Ok (Some ms)) | None \<Rightarrow> Ok None)"

definition optional_millis_deserialize :: "64 word option \<Rightarrow> duration option" where
  "optional_millis_deserialize ms = map_option millis_deserialize ms"

section \<open>Properties\<close>

lemma describe_plain: "list_all (\<lambda>c. 32 \<le> byte c \<and> byte c < 127 \<and> c \<noteq> CHR 0x22 \<and> c \<noteq> CHR 0x5C) (describe lib e)"
proof -
  have "list_all (\<lambda>c. 32 \<le> byte c \<and> byte c < 127 \<and> c \<noteq> CHR 0x22 \<and> c \<noteq> CHR 0x5C) (show_nat n)" for n
    using show_nat_digits [of n] by (auto simp: list_all_iff is_ascii_digit_def byte_def)
  then show ?thesis by (cases "js_classify lib e") (simp_all add: describe_def byte_def)
qed

text \<open>C34. The texts of a JSON error leak nothing of the payload: two errors of one operation with the same class and
  position, however their messages differ, have the same \<^verbatim>\<open>Display\<close> and the same \<^verbatim>\<open>Debug\<close> text; the text is plain
  printable ASCII without quotes; the full error stays reachable as the source, and an error arises
  exactly when \<^verbatim>\<open>serde_json\<close> reports one.\<close>

theorem json_errors_redacted:
  assumes "json_serialize lib x = Err err \<or> json_deserialize lib bs = Err err"
    "js_classify lib (json_error_source err) = js_classify lib j" "js_line lib (json_error_source err) = js_line lib j"
    "js_column lib (json_error_source err) = js_column lib j"
  shows "(js_to_vec lib x = Err (json_error_source err) \<and> err = JsonSerialize (json_error_source err)
      \<and> json_error_display lib err = json_error_display lib (JsonSerialize j)
      \<and> json_error_debug lib err = json_error_debug lib (JsonSerialize j)
    \<or> js_from_slice lib bs = Err (json_error_source err) \<and> err = JsonDeserialize (json_error_source err)
      \<and> json_error_display lib err = json_error_display lib (JsonDeserialize j)
      \<and> json_error_debug lib err = json_error_debug lib (JsonDeserialize j))
    \<and> list_all (\<lambda>c. 32 \<le> byte c \<and> byte c < 127 \<and> c \<noteq> CHR 0x22) (json_error_display lib err)"
proof -
  have d: "describe lib (json_error_source err) = describe lib j" using assms(2-4) by (simp add: describe_def)
  have "list_all (\<lambda>c. 32 \<le> byte c \<and> byte c < 127 \<and> c \<noteq> CHR 0x22) (json_error_display lib err)"
    using describe_plain [of lib "json_error_source err"] by (cases err) (auto simp: list_all_iff byte_def)
  moreover have "js_to_vec lib x = Err (json_error_source err) \<and> err = JsonSerialize (json_error_source err)
      \<or> js_from_slice lib bs = Err (json_error_source err) \<and> err = JsonDeserialize (json_error_source err)"
    using assms(1) by (auto simp: json_serialize_def json_deserialize_def map_err_def split: sum.splits)
  moreover have "json_error_display lib err = json_error_display lib (JsonSerialize j)"
      "json_error_debug lib err = json_error_debug lib (JsonSerialize j)" if "err = JsonSerialize (json_error_source err)"
    by (subst that, simp add: d)+
  moreover have "json_error_display lib err = json_error_display lib (JsonDeserialize j)"
      "json_error_debug lib err = json_error_debug lib (JsonDeserialize j)" if "err = JsonDeserialize (json_error_source err)"
    by (subst that, simp add: d)+
  ultimately show ?thesis by blast
qed

text \<open>A library whose every data error carries the rejected bytes.\<close>

definition leaky_json :: "(nat, string) JsonLib" where
  "leaky_json =
     \<lparr>js_to_vec = (\<lambda>n. Ok (show_nat n)), js_from_slice = (\<lambda>bs. if list_all is_ascii_digit bs then Ok (digits_value bs) else Inl bs),
      js_classify = (\<lambda>_. CatData), js_line = (\<lambda>_. 1), js_column = length,
      js_message = (\<lambda>bs. ''invalid value: '' @ bs)\<rparr>"

theorem json_errors_redacted_witness:
  "json_deserialize leaky_json ''secret'' = Err (JsonDeserialize ''secret'')
    \<and> js_message leaky_json ''secret'' \<noteq> js_message leaky_json ''public''
    \<and> json_error_display leaky_json (JsonDeserialize ''secret'') = json_error_display leaky_json (JsonDeserialize ''public'')"
proof -
  have j: "json_deserialize leaky_json ''secret'' = Err (JsonDeserialize ''secret'')" by code_simp
  have "js_from_slice leaky_json ''secret'' = Err ''secret''" by code_simp
  with json_errors_redacted [OF disjI2 [OF j], of "''public''" 0] j show ?thesis by (simp add: leaky_json_def)
qed

text \<open>A duration survives \<^verbatim>\<open>serde\<close> up to its fraction of a millisecond, and is refused exactly when its milliseconds do
  not fit; what is read back is written as it was read.\<close>

lemma millis_roundtrip:
  "millis_serialize d = Ok ms \<Longrightarrow> millis_deserialize ms = d - d mod 1000000"
  "millis_serialize d = Err () \<longleftrightarrow> 2 ^ 64 \<le> as_millis d"
  "millis_serialize (millis_deserialize ms) = Ok ms"
proof -
  show "millis_serialize d = Ok ms \<Longrightarrow> millis_deserialize ms = d - d mod 1000000"
    by (auto simp: millis_serialize_def millis_deserialize_def from_millis_def as_millis_def unat_of_nat take_bit_nat_def
      minus_mod_eq_div_mult split: if_splits)
  show "millis_serialize d = Err () \<longleftrightarrow> 2 ^ 64 \<le> as_millis d" by (auto simp: millis_serialize_def)
  show "millis_serialize (millis_deserialize ms) = Ok ms"
    using unsigned_less [of ms, where 'a = nat] by (simp add: millis_serialize_def millis_deserialize_def)
qed

lemma optional_millis_roundtrip:
  "optional_millis_serialize (optional_millis_deserialize ms) = Ok ms"
  by (cases ms) (simp_all add: optional_millis_serialize_def optional_millis_deserialize_def millis_roundtrip)

end
