(* ===== verification/Spec2Isabelle.thy ===== *)
theory Spec2Isabelle
  imports Settings In_Memory_Lifecycle Dispatcher_Claims Nats_Publisher Postgres_Claims Postgres_Staging
    Postgres_Dispatch Postgres_Admin Postgres_Migrate Delivery Outbox_Publisher Test_Kit Core_Serializer
begin

text \<open>
  A verification of Reliar, a transactional outbox in Rust: an application stages messages in the
  transaction that changes its own data, and a dispatcher publishes them afterwards, at least once.
  The program has four crates under \<^verbatim>\<open>src/crates/\<close>: \<^verbatim>\<open>reliar-core\<close> (envelopes, headers, identifiers),
  \<^verbatim>\<open>reliar-outbox\<close> (rows, store interface, retry policy, settings, dispatcher, publisher and an in-memory
  store), \<^verbatim>\<open>reliar-store-postgres\<close> and \<^verbatim>\<open>reliar-transport-nats\<close>.

  How the parts interact. An \<^verbatim>\<open>OutboxPublisher\<close> asks its policy for the route of a message and either stages it
  through the store's \<^verbatim>\<open>stage\<close> in the caller's transaction or hands it to the transport. The dispatcher loops
  over \<^verbatim>\<open>acquire\<close> (claim rows under a lease), publish tasks, \<^verbatim>\<open>complete\<close> and \<^verbatim>\<open>fail\<close> (record outcomes, the retry
  policy deciding which), \<^verbatim>\<open>extend_lease\<close> and \<^verbatim>\<open>release\<close>, until it is cancelled and drains.

  \<^bold>\<open>Theories and the files they model.\<close>

  \<^item> \<open>Prelude\<close>: results as sums with \<open>Ok\<close> and \<open>Err\<close>, durations, instants, saturating words, UTF-8 text, lists.
  \<^item> \<open>Core_Ids\<close> (\<^verbatim>\<open>ids.rs, content_type.rs, message.rs, failure.rs, settings.rs\<close>), \<open>Core_Headers\<close> (\<^verbatim>\<open>headers.rs\<close>),
    \<open>Core_Envelope\<close> (\<^verbatim>\<open>metadata.rs, envelope.rs\<close>): validated newtypes, the checked header map, envelopes.
  \<^item> \<open>Outbox_Types\<close> (\<^verbatim>\<open>record.rs, worker.rs, ordering.rs, error.rs, store.rs\<close>): rows and the data of the store calls.
  \<^item> \<open>Float64\<close>, \<open>Retry\<close> (\<^verbatim>\<open>retry.rs\<close>): binary64 rounding, back-off with jitter, the retry decision.
  \<^item> \<open>Settings\<close> (\<^verbatim>\<open>settings.rs, policy.rs\<close>): settings, the environment loader, the routing policy.
  \<^item> \<open>Store_Contract\<close>: the abstract store, as functions on a list of rows (\<open>spec_acquire\<close>, \<open>spec_complete\<close>, ..)
    and as the locales \<open>outbox_provider\<close> (what a dispatcher relies on) and \<open>outbox_store\<close> (the full contract).
  \<^item> \<open>Dead_Letters\<close>: a caller that follows the cursor of \<^verbatim>\<open>list_dead\<close>; the locale \<open>dead_letters\<close> of one page, with the
    completeness of the traversal proved once and interpreted for both stores.
  \<^item> \<open>In_Memory_Store\<close>, \<open>_Props\<close>, \<open>_Behaviour\<close>, \<open>_Lifecycle\<close> (\<^verbatim>\<open>test_support/store.rs\<close>): the in-memory store; it
    interprets \<open>outbox_store\<close>; reachable states, paging, purging, the life of a row.
  \<^item> \<open>Dispatcher\<close>, \<open>_Run\<close>, \<open>_Props\<close>, \<open>_Safety\<close>, \<open>_System\<close>, \<open>_Claims\<close> (\<^verbatim>\<open>dispatcher.rs\<close>): the loop's state and helper functions,
    the branches of its \<^verbatim>\<open>select!\<close> as the step relation \<open>run_step\<close>, the invariants, the locale \<open>dispatched\<close> of a
    dispatcher over a store beside other parties, and an executable form of the steps for concrete runs.
  \<^item> \<open>Nats_Subject\<close> (\<^verbatim>\<open>error.rs, subject.rs, settings.rs\<close>), \<open>Nats_Mapper\<close> and \<open>Nats_Roundtrip\<close> (\<^verbatim>\<open>mapper.rs, headers.rs\<close>),
    \<open>Nats_Publisher\<close> (\<^verbatim>\<open>publisher.rs\<close>): the transport, over a JetStream context that is an argument.
  \<^item> \<open>Postgres_Records\<close> (\<^verbatim>\<open>error.rs, settings.rs, records.rs\<close>), \<open>Postgres_Store\<close> (\<^verbatim>\<open>store.rs\<close>, the operations), \<open>Postgres_Props\<close>,
    \<open>Postgres_Refinement\<close>, \<open>Postgres_Acquire\<close>, \<open>Postgres_Claims\<close>: the row codec, each SQL statement as a function on
    the table, the calls in both transaction modes, and their refinement of the contract.
  \<^item> \<open>Postgres_Staging\<close> (\<^verbatim>\<open>store.rs\<close>, construction and staging), \<open>Postgres_Dispatch\<close>: staging in the caller's transaction, and
    the dispatcher over the PostgreSQL store (an interpretation of \<open>dispatched\<close>).
  \<^item> \<open>Postgres_Admin\<close> (\<^verbatim>\<open>store.rs\<close>, \<^verbatim>\<open>list_dead\<close> and \<^verbatim>\<open>purge\<close>), \<open>Postgres_Migrate\<close> (\<^verbatim>\<open>migrate.rs\<close>): the operator's side, over the statements
    of \<open>Postgres_Store\<close>; the migration entry point over a migrator that is an argument (\<open>MigrateLib\<close>).
  \<^item> \<open>Delivery\<close>: the locale \<open>subject_resolver\<close> with what a publisher delivers, interpreted on both resolvers, and the way
    of a message from its row to the consumer.
  \<^item> \<open>Core_Serializer\<close> (\<^verbatim>\<open>serializer.rs, duration_serde.rs\<close>): the JSON serializer, its error texts, durations in milliseconds.
  \<^item> \<open>Test_Kit\<close> (\<^verbatim>\<open>test_support/publisher.rs, test_support/metrics.rs, metrics.rs\<close>): the fake publishers as what each poll of a
    publish does, under any interleaving; the metrics sink and the dispatcher's statistics poll.
  \<^item> \<open>Outbox_Publisher\<close> (\<^verbatim>\<open>publisher.rs, staging.rs\<close>): the routing publisher over the locales \<open>outbox_staging\<close> and
    \<open>aborting_staging\<close>, interpreted on the in-memory and the PostgreSQL store.

  \<^bold>\<open>Correspondence.\<close> Rust structs are records, enums datatypes, \<^verbatim>\<open>Result\<close> a sum, panics \<open>None\<close>. Strings and byte
  buffers are lists of bytes; \<^verbatim>\<open>u16\<close>, \<^verbatim>\<open>u32\<close> and uuids are words; durations are natural and instants integer numbers of
  nanoseconds. A \<^verbatim>\<open>HashMap\<close> is an association list. State is passed explicitly; the interleavings of the
  dispatcher's tasks are the steps of \<open>run_step\<close>. What the code takes from outside is an argument: \<open>NatsLib\<close>
  and \<open>PgLib\<close> (formats of third-party libraries, with the laws \<open>nats_lib_ok\<close> and \<open>pg_lib_ok\<close>), \<open>JetStream\<close> (the broker),
  \<open>Db\<close> and \<open>TxEnv\<close> (which step of a call fails and whether a lost commit took effect, times, locked rows, the order
  of unordered results, what other clients do in between), the environment variables and minted uuids.

  \<^bold>\<open>What is shown.\<close> The store contract: the in-memory store refines it, and so does the PostgreSQL store seen through
  its row decoder; claims are exclusive, ordered, bounded, and account for every row, undecodable ones
  included; no call breaks the table whatever fails. The dispatcher: every claimed row is accounted for,
  a row is published only after an acknowledged publish (over both stores), outstanding work is bounded,
  leases of tracked rows are renewed, errors end the run only if permanent, and it can always stop. The
  transport: encoding and decoding are inverse, headers are safe, subjects legal, batches positional
  and terminating, \<^verbatim>\<open>Ok\<close> only after an acknowledgement; a published row reaches the consumer as the envelope
  that was staged. Staging and routing: what is staged decodes to what was
  given, a batch is committed all or none. The policies: retry delays and their bounds, settings, routing,
  validated headers and texts. The operator's side: dead letters are listed completely, purges are bounded and
  counted, migrations refuse unsafe names. The test kit: its publisher records every call, and its peak
  is exact unless a call is dropped.

  \<^bold>\<open>Bounds and fuel.\<close> Every function is total by structural or measured recursion; the window loop of \<^verbatim>\<open>publish_batch\<close> is a
  \<^verbatim>\<open>partial_function\<close> that is proved to return. Runs of the dispatcher are unbounded: properties
  hold in all reachable states. Instants and row counts are unbounded integers, so a sum of an instant and a
  timeout that the platform cannot represent, on which the code panics, is outside the model.

  \<^bold>\<open>Not modelled.\<close> Logging, tracing spans and the dispatcher's metrics calls other than its statistics poll (no
  effect on the state); most \<^verbatim>\<open>Display\<close> and \<^verbatim>\<open>Debug\<close> texts; serde implementations other than the duration adapters,
  and \<^verbatim>\<open>serde_json\<close> itself (an argument); the sqlx migrator behind \<^verbatim>\<open>migrate.rs\<close>; examples, benchmarks and tests.
\<close>

end
